(* ===== verification/RM_Prelude.thy ===== *)
theory RM_Prelude
  imports Main "HOL-Library.Word" "HOL-Library.Sublist" "HOL-Library.Monad_Syntax"
begin

unbundle bit_operations_syntax

text \<open>
  Shared vocabulary of the development: the error numbers the code returns, C strings and the
  string functions of the kernel's \<^verbatim>\<open>lib/string.c\<close> that the sources call (on memory read up to
  the first NUL byte), fixed-size character buffers, and the C integer conversions.

  A \<open>char *\<close> that is only read is a \<open>string\<close>; a pointer that may be NULL is an \<open>option\<close>; an array
  the code writes to is a \<open>cbuf\<close>, the list of all its bytes, terminator and stale bytes included,
  because several routines leave stale bytes behind.
  A result of type \<open>'a option\<close> whose \<open>None\<close> is not a NULL pointer stands for a run that leaves the
  defined behaviour of C (a dereference of an invalid pointer, a write outside an array).
\<close>

section \<open>Collections of rewrite rules\<close>

named_theorems cstring \<open>C string functions by the strings they compare or build\<close>
named_theorems rm_defs \<open>operations of the monitor, for unfolding\<close>
named_theorems rm_frame \<open>components of the state an operation leaves alone\<close>

section \<open>Error numbers\<close>

abbreviation (input) EPERM :: int where "EPERM \<equiv> 1"
abbreviation (input) ENOENT :: int where "ENOENT \<equiv> 2"
abbreviation (input) EIO :: int where "EIO \<equiv> 5"
abbreviation (input) EBADF :: int where "EBADF \<equiv> 9"
abbreviation (input) ENOMEM :: int where "ENOMEM \<equiv> 12"
abbreviation (input) EACCES :: int where "EACCES \<equiv> 13"
abbreviation (input) EFAULT :: int where "EFAULT \<equiv> 14"
abbreviation (input) EEXIST :: int where "EEXIST \<equiv> 17"
abbreviation (input) EINVAL :: int where "EINVAL \<equiv> 22"
abbreviation (input) EFBIG :: int where "EFBIG \<equiv> 27"
abbreviation (input) EBADMSG :: int where "EBADMSG \<equiv> 74"
abbreviation (input) ECANCELED :: int where "ECANCELED \<equiv> 125"

section \<open>C strings and buffers\<close>

type_synonym cbuf = "char list"

abbreviation NUL :: char where "NUL \<equiv> CHR 0x00"

text \<open>The string held by a block of memory: its bytes before the first NUL.\<close>

definition cstr :: "char list \<Rightarrow> string" where
  "cstr m = takeWhile (\<lambda>c. c \<noteq> NUL) m"

text \<open>The string in a buffer, where reading on until a terminator must not leave the buffer.\<close>

definition c_string :: "cbuf \<Rightarrow> string option" where
  "c_string b = (if NUL \<in> set b then Some (cstr b) else None)"

fun c_hd :: "char list \<Rightarrow> nat" where
  "c_hd [] = 0"
| "c_hd (c # _) = of_char c"

text \<open>\<open>strncmp\<close>: at most \<open>n\<close> bytes, stopping after a common NUL; the end of a list reads as NUL.\<close>

fun strncmp :: "char list \<Rightarrow> char list \<Rightarrow> nat \<Rightarrow> int" where
  "strncmp s t 0 = 0"
| "strncmp s t (Suc n) =
     (if c_hd s \<noteq> c_hd t then (if c_hd s < c_hd t then -1 else 1)
      else if c_hd s = 0 then 0
      else strncmp (tl s) (tl t) n)"

fun strcmp :: "char list \<Rightarrow> char list \<Rightarrow> int" where
  "strcmp [] t = (if c_hd t = 0 then 0 else -1)"
| "strcmp (c # s) t =
     (if c_hd (c # s) \<noteq> c_hd t then (if c_hd (c # s) < c_hd t then -1 else 1)
      else if c = NUL then 0
      else strcmp s (tl t))"

text \<open>\<open>memset(p, 0, n)\<close> and \<open>strncpy(p, s, strlen(s))\<close>: the latter writes no terminator.\<close>

definition memset0 :: "nat \<Rightarrow> cbuf \<Rightarrow> cbuf" where
  "memset0 n b = replicate n NUL @ drop n b"

definition strncpy_len :: "cbuf \<Rightarrow> string \<Rightarrow> cbuf" where
  "strncpy_len b s = s @ drop (length s) b"

text \<open>
  \<open>copy_from_user(to, from, n)\<close>: \<open>src\<close> lists the bytes that can be read at \<open>from\<close>. The bytes that
  cannot be copied are zeroed in the destination and their number is returned.
\<close>

definition copy_from_user :: "char list \<Rightarrow> nat \<Rightarrow> nat \<times> cbuf" where
  "copy_from_user src n = (n - length src, take n src @ replicate (n - length src) NUL)"

text \<open>Conversion to a 32-bit C \<open>int\<close>.\<close>

definition c_int :: "int \<Rightarrow> int" where
  "c_int x = signed_take_bit 31 x"

text \<open>Conversion to a 64-bit \<open>loff_t\<close> or \<open>ssize_t\<close>, and to an unsigned 64-bit integer.\<close>

definition c_long :: "int \<Rightarrow> int" where
  "c_long x = signed_take_bit 63 x"

definition c_ulong :: "int \<Rightarrow> int" where
  "c_ulong x = x mod 2 ^ 64"

text \<open>Overwriting bytes at an index.\<close>

definition splice :: "nat \<Rightarrow> 'a list \<Rightarrow> 'a list \<Rightarrow> 'a list" where
  "splice p xs d = take p d @ xs @ drop (p + length xs) d"

subsection \<open>Lemmas on C strings\<close>

lemma cstr_Nil [simp]: "cstr [] = []"
  by (simp add: cstr_def)

lemma cstr_Cons [simp]: "cstr (c # m) = (if c = NUL then [] else c # cstr m)"
  by (simp add: cstr_def)

lemma cstr_no_NUL [simp]: "NUL \<notin> set (cstr m)"
  by (induction m) auto

lemma cstr_id: "NUL \<notin> set s \<Longrightarrow> cstr s = s"
  by (induction s) auto

lemma cstr_cstr [simp]: "cstr (cstr m) = cstr m"
  by (simp add: cstr_id)

lemma cstr_append: "NUL \<notin> set s \<Longrightarrow> cstr (s @ m) = s @ cstr m"
  by (induction s) auto

lemma cstr_drop_append: "NUL \<notin> set p \<Longrightarrow> n \<le> length p \<Longrightarrow> cstr (drop n (p @ r)) = drop n p @ cstr r"
  by (simp add: cstr_append) (metis cstr_append in_set_dropD)

lemma cstr_append_NUL: "NUL \<in> set m \<Longrightarrow> cstr (m @ m') = cstr m"
  by (induction m) auto

lemma cstr_replicate [simp]: "cstr (replicate n NUL @ m) = (if n = 0 then cstr m else [])"
  by (cases n) auto

lemma cstr_replicate0 [simp]: "cstr (replicate n NUL) = []"
  by (cases n) auto

lemma length_cstr_le: "length (cstr m) \<le> length m"
  by (simp add: cstr_def length_takeWhile_le)

lemma length_cstr_less: "NUL \<in> set m \<Longrightarrow> length (cstr m) < length m"
  by (induction m) auto

lemma take_length_cstr: "take (length (cstr m)) m = cstr m"
  by (simp add: cstr_def takeWhile_eq_take [symmetric])

lemma drop_length_cstr: "NUL \<in> set m \<Longrightarrow> \<exists>r. drop (length (cstr m)) m = NUL # r"
  by (induction m) auto

lemma cstr_decomp: "NUL \<in> set m \<Longrightarrow> \<exists>r. m = cstr m @ NUL # r"
  by (metis append_take_drop_id drop_length_cstr take_length_cstr)

lemma of_char_eq_0 [simp]: "(of_char c = (0::nat)) = (c = NUL)"
  using of_char_eq_iff [where 'a = nat, of c NUL] by simp

lemma c_hd_eq_0: "(c_hd s = 0) = (cstr s = [])"
  by (cases s) auto

lemma c_hd_eq: "(c_hd s = c_hd t) = (take 1 (cstr s) = take 1 (cstr t))"
  by (cases s; cases t) (auto simp: of_char_eq_iff)

lemma cstr_tl: "c_hd s \<noteq> 0 \<Longrightarrow> cstr s = hd s # cstr (tl s) \<and> hd s \<noteq> NUL"
  by (cases s) auto

lemma strncmp_eq_0 [cstring]: "(strncmp s t n = 0) = (take n (cstr s) = take n (cstr t))"
proof (induction s t n rule: strncmp.induct)
  case (1 s t)
  then show ?case by simp
next
  case (2 s t n)
  show ?case
    using 2 by (cases s; cases t) (auto simp: of_char_eq_iff)
qed

lemma strcmp_eq_0 [cstring]: "(strcmp s t = 0) = (cstr s = cstr t)"
proof (induction s t rule: strcmp.induct)
  case (1 t)
  then show ?case by (cases t) auto
next
  case (2 c s t)
  then show ?case by (cases t) (auto simp: of_char_eq_iff)
qed

text \<open>Comparing with a length taken from one of the two strings is a prefix test.\<close>

lemma strncmp_strlen_prefix [cstring]:
  "NUL \<notin> set s \<Longrightarrow> (strncmp s t (length s) = 0) = prefix s (cstr t)"
  by (auto simp: strncmp_eq_0 cstr_id prefix_def) (metis append_take_drop_id)

lemma strncmp_const_prefix:
  "NUL \<notin> set k \<Longrightarrow> n = length k \<Longrightarrow> (strncmp t k n = 0) = prefix k (cstr t)"
  by (auto simp: strncmp_eq_0 cstr_id prefix_def) (metis append_take_drop_id)

subsection \<open>Lemmas on subsequences\<close>

lemma set_subseq_subset: "subseq xs ys \<Longrightarrow> x \<in> set xs \<Longrightarrow> x \<in> set ys"
  by (induction xs ys rule: list_emb.induct) auto

lemma distinct_subseq: "subseq xs ys \<Longrightarrow> distinct ys \<Longrightarrow> distinct xs"
  by (induction xs ys rule: list_emb.induct) (auto dest: set_subseq_subset)

subsection \<open>Lemmas on buffers\<close>

lemma length_memset0: "n \<le> length b \<Longrightarrow> length (memset0 n b) = length b"
  by (simp add: memset0_def)

lemma length_strncpy_len: "length s \<le> length b \<Longrightarrow> length (strncpy_len b s) = length b"
  by (simp add: strncpy_len_def)

lemma memset0_all: "length b = n \<Longrightarrow> memset0 n b = replicate n NUL"
  by (simp add: memset0_def)

lemma cstr_strncpy_len:
  "NUL \<notin> set s \<Longrightarrow> cstr (strncpy_len b s) = s @ cstr (drop (length s) b)"
  by (simp add: strncpy_len_def cstr_append)

lemma cstr_strncpy_zeroed:
  "NUL \<notin> set s \<Longrightarrow> cstr (strncpy_len (replicate n NUL) s) = s"
  by (simp add: cstr_strncpy_len)

lemma length_copy_from_user [simp]: "length (snd (copy_from_user src n)) = n"
  by (simp add: copy_from_user_def)

lemma copy_from_user_all:
  "n \<le> length src \<Longrightarrow> copy_from_user src n = (0, take n src)"
  by (simp add: copy_from_user_def)

lemma cstr_copy_from_user:
  "NUL \<in> set (take n src) \<Longrightarrow> cstr (snd (copy_from_user src n)) = cstr src"
  by (simp add: copy_from_user_def cstr_append_NUL)
     (metis append_take_drop_id cstr_append_NUL)

subsection \<open>Lemmas on overwriting\<close>

lemma length_splice: "p + length xs \<le> length d \<Longrightarrow> length (splice p xs d) = length d"
  by (simp add: splice_def)

lemma take_splice: "q \<le> p \<Longrightarrow> p \<le> length d \<Longrightarrow> take q (splice p xs d) = take q d"
  by (simp add: splice_def min_def)

lemma take_drop_splice: "p \<le> length d \<Longrightarrow> take (length xs) (drop p (splice p xs d)) = xs"
  by (simp add: splice_def)

lemma splice_splice:
  "p + length xs \<le> length d \<Longrightarrow> splice (p + length xs) ys (splice p xs d) = splice p (xs @ ys) d"
proof -
  assume "p + length xs \<le> length d"
  then have "take (p + length xs) (splice p xs d) = take p d @ xs"
    and "drop (p + length xs + length ys) (splice p xs d) = drop (p + length xs + length ys) d"
    by (simp_all add: splice_def ac_simps)
  then show ?thesis by (simp add: splice_def [of "p + length xs"] splice_def [of p "xs @ ys"] add.assoc)
qed

lemma drop_splice_after: "p + length xs \<le> q \<Longrightarrow> p \<le> length d \<Longrightarrow> drop q (splice p xs d) = drop q d"
  by (simp add: splice_def)

lemma splice_Nil [simp]: "splice p [] d = d"
  by (simp add: splice_def)

lemma drop_splice_before: "q \<le> p \<Longrightarrow> p \<le> length d \<Longrightarrow> drop q (splice p xs d) = splice (p - q) xs (drop q d)"
  by (simp add: splice_def drop_take add.commute)

subsection \<open>Lemmas on conversions\<close>

lemma c_long_id: "- (2 ^ 63) \<le> x \<Longrightarrow> x < 2 ^ 63 \<Longrightarrow> c_long x = x"
  unfolding c_long_def by (rule signed_take_bit_int_eq_self) simp_all

lemma c_ulong_id: "0 \<le> x \<Longrightarrow> x < 2 ^ 64 \<Longrightarrow> c_ulong x = x"
  by (simp add: c_ulong_def)

lemma c_int_id: "- (2 ^ 31) \<le> x \<Longrightarrow> x < 2 ^ 31 \<Longrightarrow> c_int x = x"
  unfolding c_int_def by (rule signed_take_bit_int_eq_self) simp_all

section \<open>Decimal output\<close>

text \<open>Decimal output of \<open>%d\<close>.\<close>

fun show_nat :: "nat \<Rightarrow> string" where
  "show_nat n = (if n < 10 then [char_of (48 + n)] else show_nat (n div 10) @ [char_of (48 + n mod 10)])"

declare show_nat.simps [simp del]

definition show_int :: "int \<Rightarrow> string" where
  "show_int i = (if i < 0 then CHR ''-'' # show_nat (nat (- i)) else show_nat (nat i))"

lemma show_nat_0: "show_nat 0 = ''0''"
  by (subst show_nat.simps) (simp add: char_of_def bit_0)

lemma show_nat_digits: "c \<in> set (show_nat n) \<Longrightarrow> (48 :: nat) \<le> of_char c \<and> (of_char c :: nat) \<le> 57"
proof (induction n rule: show_nat.induct)
  case (1 n)
  have "(48 :: nat) \<le> of_char (char_of (48 + k) :: char) \<and> of_char (char_of (48 + k) :: char) \<le> (57 :: nat)" if "k < 10" for k :: nat
    using that by simp
  with 1 show ?case by (subst (asm) (2) show_nat.simps) (auto split: if_splits)
qed

lemma show_nat_no_comma: "CHR '','' \<notin> set (show_nat n)"
  using show_nat_digits [of "CHR '',''" n] by auto

lemma show_nat_nonempty [simp]: "show_nat n \<noteq> []"
  by (subst show_nat.simps) simp

lemma length_show_nat: "0 < k \<Longrightarrow> n < 10 ^ k \<Longrightarrow> length (show_nat n) \<le> k"
proof (induction k arbitrary: n)
  case (Suc k)
  show ?case
  proof (cases "n < 10")
    case True
    then show ?thesis by (subst show_nat.simps) simp
  next
    case False
    with Suc.prems have "n div 10 < 10 ^ k" and "0 < k" by (auto intro: Nat.gr0I)
    with Suc.IH have "length (show_nat (n div 10)) \<le> k" by blast
    with False show ?thesis by (subst show_nat.simps) simp
  qed
qed simp

lemma length_show_int: "\<bar>i\<bar> < 10 ^ 10 \<Longrightarrow> length (show_int i) \<le> 11"
proof -
  assume "\<bar>i\<bar> < 10 ^ 10"
  then have "nat \<bar>i\<bar> < 10 ^ 10" by simp
  from length_show_nat [OF _ this] show ?thesis by (cases "i < 0") (simp_all add: show_int_def)
qed

end
