(* ===== verification/Kernel_Env.thy ===== *)
theory Kernel_Env
  imports RM_Prelude
begin

text \<open>
  The Linux kernel as the module sees it. Nothing of the kernel is under the repository, so what
  the module calls is a parameter of the model: one record \<open>kenv\<close> holds, for one invocation of an
  operation, the credentials of the current task, the path lookup, the directory-entry tree, the
  success of each allocation, the contents of freshly allocated or uninitialised memory, the
  crypto layer and the clock. Different invocations may be given different environments, so the
  file system may change arbitrarily between two of them.

  The inodes, which the module writes to, are state: \<open>inodes\<close> maps an inode pointer to its fields.
  What the module relies on is stated as the predicates at the end of the theory, and theorems name
  them where they need them.
\<close>

section \<open>Constants of the kernel configuration\<close>

text \<open>The values of Linux 5.4 on x86-64, the target named in the module's sources.\<close>

definition PATH_MAX :: nat where "PATH_MAX = 4096"
definition NAME_MAX :: nat where "NAME_MAX = 255"
definition PAGE_SIZE :: nat where "PAGE_SIZE = 4096"

abbreviation (input) S_IWUSR :: "16 word" where "S_IWUSR \<equiv> 0x80"
abbreviation (input) S_IWGRP :: "16 word" where "S_IWGRP \<equiv> 0x10"
abbreviation (input) S_IWOTH :: "16 word" where "S_IWOTH \<equiv> 0x02"
abbreviation (input) S_IMMUTABLE :: "32 word" where "S_IMMUTABLE \<equiv> 8"

abbreviation (input) O_WRONLY :: "32 word" where "O_WRONLY \<equiv> 0x1"
abbreviation (input) O_RDWR :: "32 word" where "O_RDWR \<equiv> 0x2"
abbreviation (input) O_CREAT :: "32 word" where "O_CREAT \<equiv> 0x40"
abbreviation (input) O_TRUNC :: "32 word" where "O_TRUNC \<equiv> 0x200"
abbreviation (input) O_APPEND :: "32 word" where "O_APPEND \<equiv> 0x400"

section \<open>Inodes\<close>

record inode =
  i_ino :: "64 word"
  i_mode :: "16 word"
  i_flags :: "32 word"
  i_ctime :: int
  i_mtime :: int
  i_atime :: int
  i_dirty :: bool

type_synonym inode_ptr = nat
type_synonym dentry_ptr = nat
type_synonym inode_table = "inode_ptr \<Rightarrow> inode"

definition mark_inode_dirty :: "inode \<Rightarrow> inode" where
  "mark_inode_dirty i = i\<lparr>i_dirty := True\<rparr>"

section \<open>Allocation sites, uninitialised variables, crypto calls\<close>

text \<open>One constructor per allocation in the sources, named after the function and the variable.\<close>

datatype alloc_site =
    A_salt | A_salt_text | A_shash
  | A_resolved_path | A_absolute_buffer | A_fill_dentry_buffer
  | A_restrict_entry | A_restrict_path
  | A_hook_buffer
  | A_work_data | A_work_path | A_ciphertext | A_file_contents | A_log_buffer
  | A_proc_buffer | A_proc_pathname | A_proc_read
  | A_from_user_path

datatype crypto_call = C_alloc | C_init | C_update | C_final

datatype local_var = V_add_path_err | V_del_path_err | V_restore_ret

record kenv =
  euid :: "32 word"
  uid :: "32 word"
  tgid :: int
  pid :: int
  kern_path :: "string \<Rightarrow> int + dentry_ptr"      \<comment> \<open>with \<open>LOOKUP_FOLLOW\<close>; \<open>Inl\<close> a negative error\<close>
  d_inode :: "dentry_ptr \<Rightarrow> inode_ptr option"   \<comment> \<open>\<open>None\<close>: a negative entry\<close>
  d_parent :: "dentry_ptr \<Rightarrow> dentry_ptr option"
  dentry_path_raw :: "dentry_ptr \<Rightarrow> nat \<Rightarrow> int + string" \<comment> \<open>buffer size; \<open>Inl\<close> an ERR_PTR\<close>
  err_text :: "string option"     \<comment> \<open>what \<open>snprintf\<close> prints for an ERR_PTR with \<^verbatim>\<open>%s\<close>, \<open>None\<close> if it follows it\<close>
  fs_pwd :: dentry_ptr                                    \<comment> \<open>\<open>get_fs_pwd(current->fs)\<close>\<close>
  current_time :: "inode_ptr \<Rightarrow> int"
  alloc_ok :: "alloc_site \<Rightarrow> bool"
  fresh_mem :: "alloc_site \<Rightarrow> nat \<Rightarrow> cbuf" \<comment> \<open>contents of a \<open>kmalloc\<close>ed block of that size\<close>
  uninit :: "local_var \<Rightarrow> int"                      \<comment> \<open>value found in an uninitialised local\<close>
  stack_after :: "char list"                               \<comment> \<open>memory behind a local array\<close>
  crypto_ok :: "crypto_call \<Rightarrow> bool"
  sha512 :: "string \<Rightarrow> char list"
  task_mm :: bool                                          \<comment> \<open>\<open>get_task_mm(current)\<close> is not NULL\<close>
  exe_file :: "dentry_ptr option"                          \<comment> \<open>\<open>mm->exe_file\<close>\<close>

section \<open>What the module relies on\<close>

text \<open>The digest of SHA-512 has 64 bytes.\<close>

definition sha512_ok :: "kenv \<Rightarrow> bool" where
  "sha512_ok e = (\<forall>s. length (sha512 e s) = 64)"

text \<open>Every allocation and every call of the crypto layer succeeds.\<close>

definition mem_ok :: "kenv \<Rightarrow> bool" where
  "mem_ok e = ((\<forall>a. alloc_ok e a) \<and> (\<forall>c. crypto_ok e c))"

text \<open>Freshly allocated memory is zeroed, as with the kernel option \<open>init_on_alloc\<close>.\<close>

definition zeroed :: "kenv \<Rightarrow> bool" where
  "zeroed e = (\<forall>a n. fresh_mem e a n = replicate n NUL)"

text \<open>
  A name built by \<open>dentry_path_raw\<close> is a string that fits its buffer, and \<open>kern_path\<close> fails with a
  negative error or finds an entry with an inode, as documented for both.
\<close>

definition vfs_ok :: "kenv \<Rightarrow> bool" where
  "vfs_ok e = ((\<forall>d n s. dentry_path_raw e d n = Inr s \<longrightarrow> length s < n \<and> NUL \<notin> set s) \<and>
     (\<forall>p err. kern_path e p = Inl err \<longrightarrow> err < 0) \<and>
     (\<forall>p d. kern_path e p = Inr d \<longrightarrow> d_inode e d \<noteq> None))"

lemma sha512_okD [simp]: "sha512_ok e \<Longrightarrow> length (sha512 e s) = 64"
  by (simp add: sha512_ok_def)

lemma mem_ok_update [simp]:
  "mem_ok (e\<lparr>fresh_mem := f\<rparr>) = mem_ok e" "mem_ok (e\<lparr>euid := u\<rparr>) = mem_ok e"
  by (simp_all add: mem_ok_def)

lemma mem_okD [simp]: "mem_ok e \<Longrightarrow> alloc_ok e a" "mem_ok e \<Longrightarrow> crypto_ok e c"
  by (simp_all add: mem_ok_def)

lemma zeroedD [simp]: "zeroed e \<Longrightarrow> fresh_mem e a n = replicate n NUL"
  by (simp add: zeroed_def)

lemma vfs_ok_rawD: "vfs_ok e \<Longrightarrow> dentry_path_raw e d n = Inr s \<Longrightarrow> length s < n \<and> NUL \<notin> set s"
  by (simp add: vfs_ok_def)

lemma vfs_ok_errD: "vfs_ok e \<Longrightarrow> kern_path e p = Inl err \<Longrightarrow> err < 0"
  by (auto simp: vfs_ok_def)

lemma vfs_ok_inodeD: "vfs_ok e \<Longrightarrow> kern_path e p = Inr d \<Longrightarrow> \<exists>i. d_inode e d = Some i"
  by (auto simp: vfs_ok_def)

section \<open>A concrete environment\<close>

text \<open>
  A small file system: \<open>/home/u/secret\<close> (entry 1, inode 11) in \<open>/home/u\<close> (entry 2, inode 12), a
  second file \<open>/home/u/secret2\<close> (entry 3, inode 13), the current directory \<open>/home/u\<close>, and the
  program \<open>/bin/cat\<close> (entry 5, inode 15); \<open>/lnk\<close> and \<open>/linked\<close> are symbolic
  links to \<open>/home/u/secret\<close> and \<open>/d\<close> one to \<open>/home/u\<close>. The stand-in for SHA-512 pads its argument.
\<close>

definition sample_name :: "dentry_ptr \<Rightarrow> string" where
  "sample_name d = (if d = 1 then ''/home/u/secret'' else if d = 2 then ''/home/u''
     else if d = 3 then ''/home/u/secret2'' else if d = 5 then ''/bin/cat'' else ''/'')"

definition sample_env :: kenv where
  "sample_env =
     \<lparr>euid = 0, uid = 0, tgid = 40, pid = 41,
      kern_path = (\<lambda>p. if p = ''/home/u/secret'' then Inr 1 else if p = ''/home/u'' then Inr 2
                       else if p = ''/home/u/secret2'' then Inr 3 else if p = ''/bin/cat'' then Inr 5
                       else if p = ''/'' then Inr 6 else if p = ''/lnk'' \<or> p = ''/linked'' then Inr 1
                       else if p = ''/d'' then Inr 2 else Inl (- ENOENT)),
      d_inode = (\<lambda>d. Some (10 + d)),
      d_parent = (\<lambda>d. if d = 1 \<or> d = 3 then Some 2 else Some 6),
      dentry_path_raw = (\<lambda>d n. if length (sample_name d) < n then Inr (sample_name d) else Inl (-36)),
      err_text = Some ''(efault)'',
      fs_pwd = 2,
      current_time = (\<lambda>_. 1000),
      alloc_ok = (\<lambda>_. True),
      fresh_mem = (\<lambda>_ n. replicate n NUL),
      uninit = (\<lambda>_. 0),
      stack_after = [],
      crypto_ok = (\<lambda>_. True),
      sha512 = (\<lambda>s. take 64 (s @ replicate 64 CHR ''x'')),
      task_mm = True, exe_file = Some 5\<rparr>"

lemma sample_env_ok: "sha512_ok sample_env" "mem_ok sample_env" "zeroed sample_env" "vfs_ok sample_env"
  by (auto simp: sha512_ok_def mem_ok_def zeroed_def vfs_ok_def sample_env_def sample_name_def
      split: if_splits)

lemma sample_env_simps [simp]:
  "euid sample_env = 0" "uid sample_env = 0" "tgid sample_env = 40" "pid sample_env = 41"
  "d_inode sample_env d = Some (10 + d)"
  "d_parent sample_env d = (if d = 1 \<or> d = 3 then Some 2 else Some 6)"
  "fs_pwd sample_env = 2" "current_time sample_env i = 1000"
  "uninit sample_env v = 0" "stack_after sample_env = []" "task_mm sample_env" "exe_file sample_env = Some 5"
  "kern_path sample_env ''/home/u/secret'' = Inr 1" "kern_path sample_env ''/home/u'' = Inr 2"
  "kern_path sample_env ''/home/u/secret2'' = Inr 3" "kern_path sample_env ''/bin/cat'' = Inr 5"
  "kern_path sample_env ''/linked'' = Inr 1" "kern_path sample_env ''/lnk'' = Inr 1" "kern_path sample_env ''/home/u/fresh'' = Inl (- ENOENT)"
  "kern_path sample_env ''/d'' = Inr 2" "kern_path sample_env ''/d/fresh'' = Inl (- ENOENT)"
  "kern_path sample_env ''/home/uh'' = Inl (- ENOENT)" "kern_path sample_env ''a.txt'' = Inl (- ENOENT)"
  by (simp_all add: sample_env_def)

lemma sample_raw_simps [simp]:
  "length (sample_name d) < n \<Longrightarrow> dentry_path_raw sample_env d n = Inr (sample_name d)"
  by (simp add: sample_env_def)

lemma sample_raw_PATH_MAX [simp]: "dentry_path_raw sample_env d PATH_MAX = Inr (sample_name d)"
  by (rule sample_raw_simps) (simp add: sample_name_def PATH_MAX_def)

lemma sample_name_simps [simp]:
  "sample_name (Suc 0) = ''/home/u/secret''" "sample_name 2 = ''/home/u''"
  "sample_name 3 = ''/home/u/secret2''" "sample_name 5 = ''/bin/cat''"
  by (simp_all add: sample_name_def)

end
