(* ===== verification/Ref_Hash.thy ===== *)
theory Ref_Hash
  imports Kernel_Env
begin

text \<open>
  \<^verbatim>\<open>reference-monitor/lib/reference_hash.c\<close>: the salt, the salted text and the hexadecimal SHA-512
  digest the monitor keeps in place of its password. The digest function itself belongs to the
  kernel's crypto layer and is the parameter \<open>sha512\<close>. \<open>salt_text\<close> appends the salt with \<open>strncat\<close>
  to a \<open>kmalloc\<close>ed block into which the text was copied without its terminator, so what the block
  held before takes part in the result; \<open>fresh_mem\<close> carries it.
\<close>

definition SHA512_LENGTH :: nat where "SHA512_LENGTH = 64"
definition SALT_LENGTH :: nat where "SALT_LENGTH = 16"
definition DIGEST_SIZE :: nat where "DIGEST_SIZE = SHA512_LENGTH * 2 + 1"

lemmas hash_sizes = SHA512_LENGTH_def SALT_LENGTH_def DIGEST_SIZE_def

section \<open>Definitions\<close>

text \<open>
  \<open>generate_salt\<close>: the argument is the memory from the address of the array on (\<open>None\<close> for NULL).
  16 random bytes are stored, then a NUL at index \<open>SALT_LENGTH + 1\<close>, one byte behind the array of the
  caller. That byte is part of the memory given, so this write is not \<open>None\<close>; what lies there is the
  caller's business. For a NULL argument a block is
  allocated, filled and lost, since the pointer was passed by value.
\<close>

definition generate_salt :: "kenv \<Rightarrow> char list \<Rightarrow> cbuf option \<Rightarrow> int \<times> cbuf option" where
  "generate_salt e random salt =
     (case salt of
        None \<Rightarrow> (if \<not> alloc_ok e A_salt then - ENOMEM else 0, None)
      | Some m \<Rightarrow>
          (0, Some ((take SALT_LENGTH random @ drop SALT_LENGTH m)[SALT_LENGTH + 1 := NUL])))"

text \<open>
  \<open>strncat(block, salt, SALT_LENGTH)\<close> after \<open>strncpy(block, plaintext, strlen(plaintext))\<close>; \<open>None\<close>
  when the result does not fit the block.
\<close>

definition salt_text :: "kenv \<Rightarrow> cbuf option \<Rightarrow> string option \<Rightarrow> (int + string) option" where
  "salt_text e salt plaintext =
     (case (salt, plaintext) of
        (Some sa, Some p) \<Rightarrow>
          if \<not> alloc_ok e A_salt_text then Some (Inl (- ENOMEM))
          else
            let size = length p + SALT_LENGTH + 1;
                blk = strncpy_len (fresh_mem e A_salt_text size) p;
                salted = cstr blk @ take SALT_LENGTH (cstr sa)
            in if length salted < size then Some (Inr salted) else None
      | _ \<Rightarrow> Some (Inl (- EINVAL)))"

definition hexdigit :: "nat \<Rightarrow> char" where
  "hexdigit n = (if n < 10 then char_of (48 + n) else char_of (87 + n))"

text \<open>\<open>sprintf(p, "%02x", byte)\<close>\<close>

definition hex_byte :: "char \<Rightarrow> string" where
  "hex_byte c = [hexdigit (of_char c div 16), hexdigit (of_char c mod 16)]"

definition hex_string :: "char list \<Rightarrow> string" where
  "hex_string bs = concat (map hex_byte bs)"

text \<open>
  \<open>hash_plaintext\<close>: \<open>Inl\<close> an error code, \<open>Inr\<close> the \<open>DIGEST_SIZE\<close> bytes stored in \<open>ciphertext\<close>
  (\<open>None\<close> for a NULL \<open>ciphertext\<close>).
\<close>

definition hash_plaintext ::
    "kenv \<Rightarrow> cbuf option \<Rightarrow> cbuf option \<Rightarrow> string option \<Rightarrow> (int + cbuf) option" where
  "hash_plaintext e salt ciphertext plaintext =
     do {
       st \<leftarrow> salt_text e salt plaintext;
       (case st of
          Inl _ \<Rightarrow> Some (Inl (- EINVAL))
        | Inr salted \<Rightarrow>
            if ciphertext = None then Some (Inl (- EINVAL))
            else if \<not> crypto_ok e C_alloc then Some (Inl (-1))
            else if \<not> alloc_ok e A_shash then Some (Inl (- ENOMEM))
            else if \<not> crypto_ok e C_init then Some (Inl (-1))
            else if \<not> crypto_ok e C_update then Some (Inl (-1))
            else if \<not> crypto_ok e C_final then Some (Inl (-1))
            else Some (Inr (strncpy_len (replicate (SHA512_LENGTH * 2 + 1) NUL)
                                        (hex_string (take SHA512_LENGTH (sha512 e salted))))))
     }"

section \<open>The hexadecimal encoding\<close>

lemma hexdigit_inj: "m < 16 \<Longrightarrow> n < 16 \<Longrightarrow> (hexdigit m = hexdigit n) = (m = n)"
  by (auto simp: hexdigit_def char_of_eq_iff take_bit_eq_mod split: if_splits)

lemma hexdigit_code: "n < 16 \<Longrightarrow> of_char (hexdigit n) = (if n < 10 then 48 + n else 87 + n)"
  by (simp add: hexdigit_def)

lemma hexdigit_neq_NUL: "n < 16 \<Longrightarrow> hexdigit n \<noteq> NUL"
  using hexdigit_code [of n] by (auto split: if_splits)

lemma of_char_div_16: "of_char (c::char) div 16 < (16::nat)"
  using nat_of_char_less_256 [of c] by linarith

lemma length_hex_byte [simp]: "length (hex_byte c) = 2"
  by (simp add: hex_byte_def)

lemma hex_byte_neq_Nil [simp]: "hex_byte c \<noteq> []"
  by (simp add: hex_byte_def)

lemma hex_byte_inj: "(hex_byte c = hex_byte d) = (c = d)"
proof
  assume "hex_byte c = hex_byte d"
  then have "of_char c div 16 = (of_char d div 16 :: nat)" and "of_char c mod 16 = (of_char d mod 16 :: nat)"
    by (simp_all add: hex_byte_def hexdigit_inj of_char_div_16)
  then have "of_char c = (of_char d :: nat)"
    by (metis div_mult_mod_eq)
  then show "c = d" by (simp add: of_char_eq_iff)
qed simp

lemma length_hex_string [simp]: "length (hex_string bs) = 2 * length bs"
  by (induction bs) (simp_all add: hex_string_def)

lemma hex_string_inj: "(hex_string as = hex_string bs) = (as = bs)"
proof (induction as arbitrary: bs)
  case Nil
  then show ?case by (cases bs) (auto simp: hex_string_def hex_byte_def)
next
  case (Cons a as)
  then show ?case
    by (cases bs) (auto simp: hex_string_def hex_byte_inj append_eq_append_conv hex_byte_neq_Nil)
qed

lemma hex_string_no_NUL [simp]: "NUL \<notin> set (hex_string bs)"
  by (induction bs) (auto simp: hex_string_def hex_byte_def hexdigit_neq_NUL of_char_div_16
      dest: sym)

section \<open>What is hashed and stored\<close>

text \<open>The digest the monitor means to keep: SHA-512 of the text followed by the salt.\<close>

definition digest :: "kenv \<Rightarrow> cbuf \<Rightarrow> string \<Rightarrow> char list" where
  "digest e salt p = sha512 e (p @ take SALT_LENGTH (cstr salt))"

definition digest_string :: "kenv \<Rightarrow> cbuf \<Rightarrow> string \<Rightarrow> cbuf" where
  "digest_string e salt p = hex_string (digest e salt p) @ [NUL]"

lemma salt_text_zeroed:
  assumes "zeroed e" "alloc_ok e A_salt_text" "NUL \<notin> set p"
  shows "salt_text e (Some salt) (Some p) = Some (Inr (p @ take SALT_LENGTH (cstr salt)))"
  using assms by (simp add: salt_text_def cstr_strncpy_zeroed Let_def del: replicate.simps)

lemma hash_plaintext_zeroed:
  assumes "zeroed e" "mem_ok e" "sha512_ok e" "NUL \<notin> set p"
  shows "hash_plaintext e (Some salt) (Some c) (Some p) = Some (Inr (digest_string e salt p))"
  using assms
  by (simp add: hash_plaintext_def salt_text_zeroed digest_string_def digest_def hash_sizes strncpy_len_def)

lemma cstr_digest_string [simp]: "cstr (digest_string e salt p) = hex_string (digest e salt p)"
  by (simp add: digest_string_def cstr_append)

lemma length_digest_string: "sha512_ok e \<Longrightarrow> length (digest_string e salt p) = DIGEST_SIZE"
  by (simp add: digest_string_def digest_def hash_sizes)

lemma digest_string_eq [simp]:
  "(digest_string e salt p = digest_string e' salt' p') = (digest e salt p = digest e' salt' p')"
  by (simp add: digest_string_def hex_string_inj)

text \<open>Comparing two stored digests over the whole array decides equality of the digests.\<close>

lemma strncmp_digest:
  assumes "sha512_ok e"
  shows "(strncmp (digest_string e salt p) (digest_string e salt' p') DIGEST_SIZE = 0) =
         (digest e salt p = digest e salt' p')"
  using assms by (simp add: strncmp_eq_0 hash_sizes hex_string_inj digest_def)

lemma hash_plaintext_error:
  "hash_plaintext e salt c p = Some (Inl err) \<Longrightarrow> err \<in> {- EINVAL, - ENOMEM, -1}"
  by (cases "salt_text e salt p"; cases "the (salt_text e salt p)")
     (auto simp: hash_plaintext_def split: if_splits)

text \<open>
  With memory that the allocator hands out zeroed, when no allocation and no call of the crypto
  layer fails, and for a text without NUL bytes, \<open>hash_plaintext\<close>
  stores the lower-case hexadecimal form of the SHA-512 digest of the text followed by the salt,
  128 digits and a terminator, and two texts get the same stored string exactly when their digests
  agree.
\<close>

theorem hash_plaintext_correct:
  assumes "zeroed e" "mem_ok e" "sha512_ok e" "NUL \<notin> set p" "NUL \<notin> set q"
  shows "hash_plaintext e (Some salt) (Some c) (Some p) =
           Some (Inr (hex_string (sha512 e (p @ take 16 (cstr salt))) @ [NUL])) \<and>
         length (hex_string (sha512 e (p @ take 16 (cstr salt))) @ [NUL]) = DIGEST_SIZE \<and>
         (hash_plaintext e (Some salt) (Some c) (Some p) = hash_plaintext e (Some salt) (Some c) (Some q)) =
           (digest e salt p = digest e salt q)"
  using assms
  by (simp add: hash_plaintext_zeroed hash_sizes) (simp add: digest_string_def digest_def hash_sizes)

theorem hash_plaintext_correct_witness:
  "hash_plaintext sample_env (Some ''0123456789abcdef'') (Some []) (Some ''secret'') =
     Some (Inr (hex_string (sha512 sample_env ''secret0123456789abcdef'') @ [NUL]))"
  using hash_plaintext_correct [of sample_env "''secret''" "''other''" "''0123456789abcdef''" "[]"]
    sample_env_ok by simp

text \<open>
  The text that is hashed is not a function of password and salt alone. The block for the
  salted text comes from \<open>kmalloc\<close> and the password is copied without a terminator, so the bytes
  the block held before, up to the first NUL, end up between password and salt.
\<close>

theorem salt_text_stale:
  assumes "alloc_ok e A_salt_text" "NUL \<notin> set p" "NUL \<notin> set stale"
    and "length stale + length (take SALT_LENGTH (cstr salt)) \<le> SALT_LENGTH"
    and "fresh_mem e A_salt_text (length p + SALT_LENGTH + 1) = old @ stale @ NUL # rest"
    and "length old = length p"
  shows "salt_text e (Some salt) (Some p) = Some (Inr (p @ stale @ take SALT_LENGTH (cstr salt)))"
  using assms by (simp add: salt_text_def cstr_strncpy_len cstr_append)

theorem salt_text_stale_witness:
  "salt_text (sample_env\<lparr>fresh_mem := \<lambda>_ _. ''xxold'' @ replicate 14 NUL\<rparr>) (Some ''salt'') (Some ''pw'') =
     Some (Inr ''pwoldsalt'')"
  using salt_text_stale [of "sample_env\<lparr>fresh_mem := \<lambda>_ _. ''xxold'' @ replicate 14 NUL\<rparr>" "''pw''" "''old''"
      "''salt''" "''xx''" "replicate 13 NUL"] sample_env_ok(2)
  by (simp add: hash_sizes numeral_eq_Suc)

text \<open>
  \<open>generate_salt\<close> fills the first 16 bytes of the 17-byte salt array, leaves its last byte as it
  was, and stores its terminator in the byte behind the array.
\<close>

theorem generate_salt_past_end:
  assumes "length salt = SALT_LENGTH + 1" "SALT_LENGTH \<le> length random"
  shows "generate_salt e random (Some (salt @ x # rest)) =
           (0, Some ((take SALT_LENGTH random @ [salt ! SALT_LENGTH]) @ NUL # rest))"
proof -
  from assms(1) have d: "drop SALT_LENGTH salt = [salt ! SALT_LENGTH]"
    by (metis Cons_nth_drop_Suc add.commute drop_all lessI less_or_eq_imp_le plus_1_eq_Suc)
  show ?thesis using assms by (simp add: generate_salt_def d list_update_append)
qed

theorem generate_salt_past_end_witness:
  "generate_salt sample_env (replicate 16 CHR ''r'') (Some (replicate 17 CHR ''a'' @ ''bc'')) =
     (0, Some ((replicate 16 CHR ''r'' @ ''a'') @ NUL # ''c''))"
  using generate_salt_past_end [of "replicate 17 CHR ''a''" "replicate 16 CHR ''r''" sample_env "CHR ''b''" "''c''"]
  by (simp add: hash_sizes)

end
