(* ===== verification/Monitor_State.thy ===== *)
theory Monitor_State
  imports Ref_Hash
begin

text \<open>
  The global variables of the reference monitor module (\<^verbatim>\<open>reference_types.h\<close>,
  \<^verbatim>\<open>reference_rcu_restrict_list.h\<close>, \<^verbatim>\<open>reference_defer.h\<close> and the globals of
  \<^verbatim>\<open>reference_monitor.c\<close>) as one record, together with the inodes the module writes to, and the
  concrete state in which the witnesses of the development are evaluated.
\<close>

section \<open>Constants of \<^verbatim>\<open>reference_types.h\<close>\<close>

abbreviation (input) ON :: int where "ON \<equiv> 0x01"
abbreviation (input) OFF :: int where "OFF \<equiv> 0x02"
abbreviation (input) REC_ON :: int where "REC_ON \<equiv> 0x04"
abbreviation (input) REC_OFF :: int where "REC_OFF \<equiv> 0x08"
abbreviation (input) ADD_PATH :: int where "ADD_PATH \<equiv> 0x10"
abbreviation (input) REMOVE_PATH :: int where "REMOVE_PATH \<equiv> 0x20"

definition HOOKS_SIZE :: nat where "HOOKS_SIZE = 4"
definition MAX_FROM_USER :: nat where "MAX_FROM_USER = drop_bit 4 PAGE_SIZE"
definition MAX_FILE_NAME :: nat where "MAX_FILE_NAME = 256"

lemma MAX_FROM_USER_eq: "MAX_FROM_USER = 256"
  by (simp add: MAX_FROM_USER_def PAGE_SIZE_def drop_bit_eq_div)

section \<open>Records\<close>

record rcu_restrict =
  entry_path :: string
  entry_i_ino :: "64 word"
  o_mode :: "32 word"
  o_flags :: "32 word"

record work_data =
  w_tgid :: int
  w_tid :: int
  w_uid :: "32 word"
  w_euid :: "32 word"
  path_name :: string

record kretprobe =
  symbol_name :: string
  registered :: bool
  enabled :: bool

record rm_state =
  pwd :: cbuf
  salt :: cbuf
  admin :: "32 word"
  current_state :: "64 word"
  single_file_name :: string
  restrict_path_list :: "rcu_restrict list"
  probes :: "kretprobe list"
  inodes :: inode_table
  deferred_queue :: "work_data list"

text \<open>The paths of the restricted list, newest first.\<close>

abbreviation restricted :: "rm_state \<Rightarrow> string list" where
  "restricted st \<equiv> map entry_path (restrict_path_list st)"

section \<open>A concrete monitor\<close>

definition sample_inodes :: inode_table where
  "sample_inodes = (\<lambda>i. \<lparr>i_ino = of_nat i, i_mode = 0x81B6, i_flags = 0, i_ctime = 0, i_mtime = 0,
                          i_atime = 0, i_dirty = False\<rparr>)"

definition sample_probe :: "string \<Rightarrow> kretprobe" where
  "sample_probe f = \<lparr>symbol_name = f, registered = True, enabled = False\<rparr>"

text \<open>A freshly loaded monitor with password \<open>RefMonitorPwd\<close>, switched to reconfiguration.\<close>

definition sample_state :: rm_state where
  "sample_state =
     \<lparr>pwd = digest_string sample_env (''0123456789abcdef'' @ [NUL]) ''RefMonitorPwd'',
      salt = ''0123456789abcdef'' @ [NUL], admin = 0, current_state = 8,
      single_file_name = ''/mnt/the-file'', restrict_path_list = [],
      probes = map sample_probe [''do_filp_open'', ''vfs_mkdir'', ''vfs_rmdir'', ''vfs_unlink''],
      inodes = sample_inodes, deferred_queue = []\<rparr>"

text \<open>The same monitor with \<open>/home/u/secret\<close> restricted.\<close>

definition sample_entry :: rcu_restrict where
  "sample_entry = \<lparr>entry_path = ''/home/u/secret'', entry_i_ino = 11, o_mode = 0x81B6, o_flags = 0\<rparr>"

definition sample_dir_entry :: rcu_restrict where
  "sample_dir_entry = \<lparr>entry_path = ''/home/u'', entry_i_ino = 12, o_mode = 0x41ED, o_flags = 0\<rparr>"

definition sample_entry2 :: rcu_restrict where
  "sample_entry2 = \<lparr>entry_path = ''/home/u/secret2'', entry_i_ino = 13, o_mode = 0x81B6, o_flags = 0\<rparr>"

lemmas sample_defs = sample_inodes_def sample_probe_def sample_state_def
  sample_entry_def sample_entry2_def

lemma sample_state_simps [simp]:
  "salt sample_state = ''0123456789abcdef'' @ [NUL]" "admin sample_state = 0"
  "pwd sample_state = digest_string sample_env (salt sample_state) ''RefMonitorPwd''"
  "current_state sample_state = 8" "single_file_name sample_state = ''/mnt/the-file''"
  "restrict_path_list sample_state = []" "inodes sample_state = sample_inodes"
  "deferred_queue sample_state = []" "length (probes sample_state) = 4"
  by (simp_all add: sample_state_def)

lemma sample_probes: "p \<in> set (probes sample_state) \<Longrightarrow> \<not> enabled p"
  by (auto simp: sample_state_def sample_probe_def)

lemma sample_entry_simps [simp]:
  "entry_path sample_entry = ''/home/u/secret''" "entry_path sample_entry2 = ''/home/u/secret2''"
  "entry_path sample_dir_entry = ''/home/u''"
  "entry_i_ino sample_entry = 11" "entry_i_ino sample_entry2 = 13"
  by (simp_all add: sample_entry_def sample_entry2_def sample_dir_entry_def)

end
