(* ===== verification/Path_Solver.thy ===== *)
theory Path_Solver
  imports Kernel_Env
begin

text \<open>
  \<^verbatim>\<open>reference-monitor/lib/reference_path_solver.c\<close>: turning the name passed to \<open>open\<close> into the name
  the restricted list holds. The routines rewrite a \<open>PATH_MAX\<close> buffer in place; the model keeps the
  whole buffer, because they clear only part of it before they copy the new name over it without
  a terminator. \<open>None\<close> stands for following an ERR_PTR returned by \<open>dentry_path_raw\<close>, which the
  code does not test for, or for the inode pointer of an entry that has none. Where the code
  prints such a pointer with \<^verbatim>\<open>%s\<close> the kernel decides: recent ones print a text (\<open>err_text\<close>), older
  ones follow it.
\<close>

section \<open>Definitions\<close>

text \<open>The byte at an index of a buffer; past its end there is nothing to find.\<close>

definition byte_at :: "cbuf \<Rightarrow> nat \<Rightarrow> char" where
  "byte_at b i = (if i < length b then b ! i else NUL)"

fun parent_scan :: "cbuf \<Rightarrow> nat \<Rightarrow> nat" where
  "parent_scan b 0 = 0"
| "parent_scan b (Suc n) = (if byte_at b (Suc n) = CHR ''/'' then Suc n else parent_scan b n)"

definition get_parent_path :: "cbuf option \<Rightarrow> cbuf option" where
  "get_parent_path pathname =
     (case pathname of
        None \<Rightarrow> None
      | Some b \<Rightarrow>
          let len = parent_scan b (length (cstr b))
          in Some (if len > 0 then b[len := NUL] else b))"

definition resolve_relative_path :: "kenv \<Rightarrow> cbuf option \<Rightarrow> (int \<times> cbuf) option" where
  "resolve_relative_path e path_str =
     (case path_str of
        None \<Rightarrow> Some (- EINVAL, [])
      | Some b \<Rightarrow>
          if \<not> alloc_ok e A_resolved_path then Some (- ENOMEM, b)
          else (case (case dentry_path_raw e (fs_pwd e) PATH_MAX of Inl _ \<Rightarrow> err_text e | Inr cwd \<Rightarrow> Some cwd) of
                  None \<Rightarrow> None
                | Some cwd \<Rightarrow>
                    let resolved_path = take (PATH_MAX - 1) (cwd @ ''/'' @ cstr b)
                    in Some (0, strncpy_len (memset0 PATH_MAX b) resolved_path)))"

definition fill_absolute_path :: "kenv \<Rightarrow> cbuf option \<Rightarrow> (int \<times> cbuf) option" where
  "fill_absolute_path e pathname =
     (case pathname of
        None \<Rightarrow> Some (- EINVAL, [])
      | Some b0 \<Rightarrow>
          do {
            (err, b) \<leftarrow> (if byte_at b0 0 \<noteq> CHR ''/'' then resolve_relative_path e (Some b0)
                          else Some (0, b0));
            (if err \<noteq> 0 then Some (err, b)
             else case kern_path e (cstr b) of
                    Inl _ \<Rightarrow> Some (- ENOENT, b)
                  | Inr d \<Rightarrow>
                      if \<not> alloc_ok e A_absolute_buffer then Some (- ENOMEM, b)
                      else (case dentry_path_raw e d PATH_MAX of
                              Inl _ \<Rightarrow> None
                            | Inr full_path \<Rightarrow>
                                Some (0, strncpy_len (memset0 (length (cstr b)) b) full_path)))
          })"

text \<open>
  The swap-file filter. \<open>ends_with b len k\<close> is the test \<open>strncmp(&pathname[len - strlen(k)], k,
  strlen(k)) == 0\<close>; \<open>last_slash\<close> is the loop from \<open>len - 1\<close> down to the last slash.
\<close>

definition ends_with :: "cbuf \<Rightarrow> nat \<Rightarrow> string \<Rightarrow> bool" where
  "ends_with b len k = (strncmp (drop (len - length k) b) k (length k) = 0)"

fun last_slash :: "cbuf \<Rightarrow> nat \<Rightarrow> nat option" where
  "last_slash b 0 = None"
| "last_slash b (Suc i) = (if byte_at b i = CHR ''/'' then Some i else last_slash b i)"

definition dot_index :: "cbuf \<Rightarrow> nat \<Rightarrow> nat option" where
  "dot_index b len =
     (case last_slash b len of
        None \<Rightarrow> None
      | Some index \<Rightarrow> if byte_at b (index + 1) = CHR ''.'' then Some (index + 1) else None)"

text \<open>\<open>memmove(&pathname[dot], &pathname[dot + 1], len - dot)\<close> and the terminator written after it.\<close>

definition remove_dot :: "cbuf \<Rightarrow> nat \<Rightarrow> nat \<Rightarrow> cbuf" where
  "remove_dot b dot len =
     (take dot b @ take (len - dot) (drop (dot + 1) b) @ drop len b)[len - 1 := NUL]"

text \<open>\<open>memset(&pathname[len - n], 0, n)\<close>\<close>

definition clear_tail :: "cbuf \<Rightarrow> nat \<Rightarrow> nat \<Rightarrow> cbuf" where
  "clear_tail b len n = take (len - n) b @ replicate n NUL @ drop len b"

definition is_swap_name :: "cbuf \<Rightarrow> nat \<Rightarrow> bool" where
  "is_swap_name b len = (ends_with b len ''.swp'' \<or> ends_with b len ''.swpx'' \<or> ends_with b len ''~'')"

definition swap_to_target :: "cbuf \<Rightarrow> nat \<Rightarrow> cbuf" where
  "swap_to_target b len =
     (let (b', len') = (case dot_index b len of
                          None \<Rightarrow> (b, len)
                        | Some dot \<Rightarrow> (remove_dot b dot len, len - 1))
      in if ends_with b' len' ''.swp'' then clear_tail b' len' 4
         else if ends_with b' len' ''.swpx'' then clear_tail b' len' 5
         else if ends_with b' len' ''~'' then b'[len' - 1 := NUL]
         else b')"

definition fill_with_swap_filter :: "kenv \<Rightarrow> cbuf \<Rightarrow> (int \<times> cbuf) option" where
  "fill_with_swap_filter e b =
     (let len = length (cstr b) in
      if len < 6 then Some (0, b)
      else
        let (ret, b') = (if is_swap_name b len then (1, swap_to_target b len) else (0, b))
        in do {
          (absolute_ret, b'') \<leftarrow> fill_absolute_path e (Some b');
          Some (if absolute_ret \<noteq> 0 then absolute_ret else ret, b'')
        })"

definition mark_inode_read_only :: "inode \<Rightarrow> inode" where
  "mark_inode_read_only i =
     mark_inode_dirty
       (i\<lparr>i_mode := i_mode i AND NOT S_IWUSR AND NOT S_IWGRP AND NOT S_IWOTH,
          i_flags := i_flags i OR S_IMMUTABLE\<rparr>)"

definition mark_inode_read_only_by_pathname ::
    "kenv \<Rightarrow> inode_table \<Rightarrow> string \<Rightarrow> (int \<times> inode_table) option" where
  "mark_inode_read_only_by_pathname e ino pathname =
     (case kern_path e pathname of
        Inl ret \<Rightarrow> Some (ret, ino)
      | Inr d \<Rightarrow>
          (case d_inode e d of
             None \<Rightarrow> None
           | Some i \<Rightarrow> Some (0, ino(i := mark_inode_read_only (ino i)))))"

definition fill_path_by_dentry :: "kenv \<Rightarrow> dentry_ptr option \<Rightarrow> cbuf \<Rightarrow> int \<times> cbuf" where
  "fill_path_by_dentry e dentry pathname =
     (case dentry of
        None \<Rightarrow> (- EINVAL, pathname)
      | Some d \<Rightarrow>
          if \<not> alloc_ok e A_fill_dentry_buffer then (- ENOMEM, pathname)
          else (case dentry_path_raw e d PATH_MAX of
                  Inl _ \<Rightarrow> (- ENOENT, pathname)
                | Inr absolute_path \<Rightarrow>
                    (0, strncpy_len (memset0 PATH_MAX pathname) absolute_path)))"

section \<open>Buffers whose tail is clear\<close>

text \<open>
  \<open>clean b\<close>: a \<open>PATH_MAX\<close> buffer that holds a terminated name and only NUL bytes after it, which is
  what \<open>kzalloc\<close> followed by a copy of a string leaves.
\<close>

definition clean :: "cbuf \<Rightarrow> bool" where
  "clean b = (length b = PATH_MAX \<and> length (cstr b) < PATH_MAX \<and>
              b = cstr b @ replicate (PATH_MAX - length (cstr b)) NUL)"

definition clean_buf :: "string \<Rightarrow> cbuf" where
  "clean_buf s = s @ replicate (PATH_MAX - length s) NUL"

lemma strncpy_len_zero: "strncpy_len (replicate n NUL) s = s @ replicate (n - length s) NUL"
  by (simp add: strncpy_len_def)

lemma cstr_clean_buf [simp]: "NUL \<notin> set s \<Longrightarrow> cstr (clean_buf s) = s"
  by (simp add: clean_buf_def cstr_append)

lemma clean_buf_terminated [simp]: "length s < PATH_MAX \<Longrightarrow> NUL \<in> set (clean_buf s)"
  by (simp add: clean_buf_def)

lemma clean_clean_buf: "NUL \<notin> set s \<Longrightarrow> length s < PATH_MAX \<Longrightarrow> clean (clean_buf s)"
  by (simp add: clean_def) (simp add: clean_buf_def)

text \<open>
  \<open>path_buf b\<close>: a \<open>PATH_MAX\<close> buffer whose last byte is a terminator, so that no string read from it
  leaves it.
\<close>

definition path_buf :: "cbuf \<Rightarrow> bool" where
  "path_buf b = (length b = PATH_MAX \<and> last b = NUL)"

lemma PATH_MAX_pos [simp]: "0 < PATH_MAX"
  by (simp add: PATH_MAX_def)

lemma path_buf_alt: "path_buf b \<longleftrightarrow> length b = PATH_MAX \<and> b ! (PATH_MAX - 1) = NUL"
  using last_conv_nth [of b] PATH_MAX_pos by (cases "b = []") (auto simp: path_buf_def simp del: PATH_MAX_pos)

lemma path_buf_terminated: "path_buf b \<Longrightarrow> NUL \<in> set b"
  using last_in_set [of b] PATH_MAX_pos by (cases "b = []") (auto simp: path_buf_def)

lemma path_buf_cstr: "path_buf b \<Longrightarrow> length (cstr b) < PATH_MAX"
  using length_cstr_less [OF path_buf_terminated] by (simp add: path_buf_def)

lemma path_buf_update: "path_buf b \<Longrightarrow> path_buf (b[i := NUL])"
  by (cases "i = PATH_MAX - 1") (simp_all add: path_buf_alt)

lemma path_buf_front: "path_buf b \<Longrightarrow> n < PATH_MAX \<Longrightarrow> length xs = n \<Longrightarrow> path_buf (xs @ drop n b)"
  by (simp add: path_buf_def)

lemma path_buf_memset0: "path_buf b \<Longrightarrow> n < PATH_MAX \<Longrightarrow> path_buf (memset0 n b)"
  by (simp add: memset0_def path_buf_front)

lemma path_buf_strncpy_len: "path_buf b \<Longrightarrow> length s < PATH_MAX \<Longrightarrow> path_buf (strncpy_len b s)"
  by (simp add: strncpy_len_def path_buf_front)

lemma path_buf_zero [simp]: "path_buf (replicate PATH_MAX NUL)"
  by (simp add: path_buf_alt)

lemma path_buf_clean_buf: "length s < PATH_MAX \<Longrightarrow> path_buf (clean_buf s)"
  by (simp add: path_buf_def clean_buf_def)

lemma cleanD: "clean b \<Longrightarrow> b = clean_buf (cstr b) \<and> length b = PATH_MAX \<and> length (cstr b) < PATH_MAX"
  by (simp add: clean_def clean_buf_def)

lemma memset0_clean: "clean b \<Longrightarrow> memset0 (length (cstr b)) b = replicate PATH_MAX NUL"
proof -
  assume "clean b"
  then have b: "b = cstr b @ replicate (PATH_MAX - length (cstr b)) NUL"
    and "length (cstr b) < PATH_MAX" by (simp_all add: clean_def)
  have "memset0 (length (cstr b)) b =
      replicate (length (cstr b)) NUL @ replicate (PATH_MAX - length (cstr b)) NUL"
    by (subst (2) b) (simp add: memset0_def)
  with \<open>length (cstr b) < PATH_MAX\<close> show ?thesis
    by (simp add: replicate_add [symmetric])
qed

section \<open>Resolution of a name\<close>

text \<open>
  What the callers expect of \<open>fill_absolute_path\<close>: the name the kernel reports for the entry the
  given name leads to, a relative name being taken from the current directory.
\<close>

definition lookup_name :: "kenv \<Rightarrow> string \<Rightarrow> string option" where
  "lookup_name e p =
     (if take 1 p = ''/'' then Some p
      else case dentry_path_raw e (fs_pwd e) PATH_MAX of
             Inl _ \<Rightarrow> None
           | Inr cwd \<Rightarrow> Some (take (PATH_MAX - 1) (cwd @ ''/'' @ p)))"

lemma byte_at_0: "byte_at b 0 = CHR ''/'' \<longleftrightarrow> take 1 (cstr b) = ''/''"
  by (cases b) (auto simp: byte_at_def)

lemma lookup_name_step:
  assumes "vfs_ok e" "mem_ok e" "clean b" "lookup_name e (cstr b) = Some q"
  shows "(if byte_at b 0 \<noteq> CHR ''/'' then resolve_relative_path e (Some b) else Some (0, b)) =
           Some (0, clean_buf q)"
    and "clean (clean_buf q)" and "cstr (clean_buf q) = q"
proof -
  have "NUL \<notin> set q \<and> length q < PATH_MAX \<and>
    (if byte_at b 0 \<noteq> CHR ''/'' then resolve_relative_path e (Some b) else Some (0, b)) =
      Some (0, clean_buf q)"
  proof (cases "byte_at b 0 = CHR ''/''")
    case True
    with assms(4) have "q = cstr b" by (simp add: lookup_name_def byte_at_0)
    with True cleanD [OF assms(3)] show ?thesis by auto
  next
    case False
    with assms(4) obtain cwd where cwd: "dentry_path_raw e (fs_pwd e) PATH_MAX = Inr cwd"
      and q: "q = take (PATH_MAX - 1) (cwd @ ''/'' @ cstr b)"
      by (auto simp: lookup_name_def byte_at_0 split: sum.splits)
    have "NUL \<notin> set q"
      using vfs_ok_rawD [OF assms(1) cwd] unfolding q by (auto dest!: in_set_takeD)
    moreover have "length q < PATH_MAX" unfolding q by (simp add: PATH_MAX_def)
    moreover have "resolve_relative_path e (Some b) = Some (0, clean_buf q)"
      using assms(2) cwd cleanD [OF assms(3)]
      by (simp add: resolve_relative_path_def Let_def memset0_all strncpy_len_zero clean_buf_def q
          del: take_append)
    ultimately show ?thesis using False by simp
  qed
  then show "(if byte_at b 0 \<noteq> CHR ''/'' then resolve_relative_path e (Some b) else Some (0, b)) =
      Some (0, clean_buf q)" and "clean (clean_buf q)" and "cstr (clean_buf q) = q"
    by (simp_all add: clean_clean_buf)
qed

lemma fill_absolute_path_found:
  assumes "vfs_ok e" "mem_ok e" "clean b" "lookup_name e (cstr b) = Some q"
    and "kern_path e q = Inr d" "dentry_path_raw e d PATH_MAX = Inr full"
  shows "fill_absolute_path e (Some b) = Some (0, clean_buf full)"
  using assms lookup_name_step [OF assms(1-4)] memset0_clean [of "clean_buf q"]
  by (simp add: fill_absolute_path_def strncpy_len_zero clean_buf_def [of full])

lemma fill_absolute_path_missing:
  assumes "vfs_ok e" "mem_ok e" "clean b" "lookup_name e (cstr b) = Some q"
    and "kern_path e q = Inl err"
  shows "fill_absolute_path e (Some b) = Some (- ENOENT, clean_buf q)"
  using assms lookup_name_step [OF assms(1-4)]
  by (simp add: fill_absolute_path_def)

text \<open>Whatever follows the name in the buffer, a resolved name that is not longer is stored exactly.\<close>

lemma fill_absolute_path_dirty:
  assumes "mem_ok e" "NUL \<in> set b" "take 1 (cstr b) = ''/''"
    and "kern_path e (cstr b) = Inr d" "dentry_path_raw e d PATH_MAX = Inr full"
  shows "fill_absolute_path e (Some b) = Some (0, strncpy_len (memset0 (length (cstr b)) b) full)"
  using assms by (simp add: fill_absolute_path_def byte_at_0)

lemma cstr_not_longer:
  assumes "NUL \<in> set b" "NUL \<notin> set full" "length full \<le> length (cstr b)"
  shows "cstr (strncpy_len (memset0 (length (cstr b)) b) full) = full"
proof -
  obtain r where "b = cstr b @ NUL # r" using cstr_decomp [OF assms(1)] by blast
  then have "drop (length (cstr b)) b = NUL # r" by (metis append_eq_conv_conj)
  with assms(2,3) show ?thesis
    by (simp add: strncpy_len_def memset0_def cstr_append)
qed

text \<open>
  C21: on a buffer with a clear tail \<open>fill_absolute_path\<close> computes name resolution: it returns 0 with
  the kernel's own name of the entry in a buffer that is clear again, or \<open>-ENOENT\<close> when the lookup
  fails, whatever the name's form (absolute, or relative to the current directory).
\<close>

theorem fill_absolute_path_resolves:
  assumes "vfs_ok e" "mem_ok e" "clean b" "lookup_name e (cstr b) = Some q"
  shows "(\<forall>d full. kern_path e q = Inr d \<and> dentry_path_raw e d PATH_MAX = Inr full \<longrightarrow>
            (\<exists>b'. fill_absolute_path e (Some b) = Some (0, b') \<and> cstr b' = full \<and> clean b')) \<and>
         (\<forall>err. kern_path e q = Inl err \<longrightarrow>
            (\<exists>b'. fill_absolute_path e (Some b) = Some (- ENOENT, b') \<and> cstr b' = q))"
proof (intro conjI allI impI)
  fix d full
  assume "kern_path e q = Inr d \<and> dentry_path_raw e d PATH_MAX = Inr full"
  then show "\<exists>b'. fill_absolute_path e (Some b) = Some (0, b') \<and> cstr b' = full \<and> clean b'"
    using fill_absolute_path_found [OF assms] vfs_ok_rawD [OF assms(1)] clean_clean_buf
      cstr_clean_buf by metis
next
  fix err
  assume "kern_path e q = Inl err"
  then show "\<exists>b'. fill_absolute_path e (Some b) = Some (- ENOENT, b') \<and> cstr b' = q"
    using fill_absolute_path_missing [OF assms] lookup_name_step(3) [OF assms] by blast
qed

theorem fill_absolute_path_resolves_witness:
  "\<exists>b'. fill_absolute_path sample_env (Some (clean_buf ''secret'')) = Some (0, b') \<and>
     cstr b' = ''/home/u/secret''"
proof -
  have "clean (clean_buf ''secret'')" by (rule clean_clean_buf) (simp_all add: PATH_MAX_def)
  moreover have "lookup_name sample_env (cstr (clean_buf ''secret'')) = Some ''/home/u/secret''"
    by (simp add: lookup_name_def PATH_MAX_def)
  ultimately show ?thesis
    using fill_absolute_path_resolves [of sample_env "clean_buf ''secret''" "''/home/u/secret''"] sample_env_ok
    by auto
qed

text \<open>
  On a buffer with bytes left behind its name (the hook copies \<open>PATH_MAX\<close> bytes of user memory
  into it) an absolute name whose resolved form is longer is completed by those bytes: the routine
  clears only the old name and copies the new one over it without a terminator.
\<close>

theorem fill_absolute_path_stale:
  assumes "mem_ok e" "take 1 p = ''/''" "NUL \<notin> set p" "NUL \<notin> set full" "NUL \<notin> set stale"
    and "kern_path e p = Inr d" "dentry_path_raw e d PATH_MAX = Inr full"
    and "length full = length p + 1 + length gap"
  shows "\<exists>b'. fill_absolute_path e (Some (p @ NUL # gap @ stale @ NUL # rest)) = Some (0, b') \<and>
           cstr b' = full @ stale"
proof -
  let ?b = "p @ NUL # gap @ stale @ NUL # rest"
  have c: "cstr ?b = p" using assms(3) by (simp add: cstr_append)
  have "byte_at ?b 0 = CHR ''/''" using assms(2,3) by (simp add: byte_at_0 c)
  then have "fill_absolute_path e (Some ?b) = Some (0, strncpy_len (memset0 (length p) ?b) full)"
    using assms by (simp add: fill_absolute_path_def c)
  moreover have "cstr (strncpy_len (memset0 (length p) ?b) full) = full @ stale"
    using assms(4,5,8) by (simp add: cstr_strncpy_len memset0_def cstr_append)
  ultimately show ?thesis by blast
qed

theorem fill_absolute_path_stale_witness:
  "\<exists>b'. fill_absolute_path sample_env (Some (''/lnk'' @ NUL # ''123456789'' @ ''x'' @ NUL # [])) = Some (0, b') \<and>
     cstr b' = ''/home/u/secretx''"
  using fill_absolute_path_stale [of sample_env "''/lnk''" "''/home/u/secret''" "''x''" 1 "''123456789''" "[]"]
    sample_env_ok by simp

section \<open>Parent directory\<close>

lemma byte_at_append [simp]:
  "byte_at (x @ y) i = (if i < length x then x ! i else byte_at y (i - length x))"
  by (auto simp: byte_at_def nth_append)

lemma byte_at_Cons [simp]: "byte_at (c # y) i = (if i = 0 then c else byte_at y (i - 1))"
  by (cases i) (auto simp: byte_at_def)

lemma parent_scan_slash:
  "CHR ''/'' \<notin> set f \<Longrightarrow> x \<noteq> [] \<Longrightarrow>
     parent_scan (x @ CHR ''/'' # f @ r) (length x + length f) = length x"
proof (induction f arbitrary: r rule: rev_induct)
  case Nil
  then show ?case by (cases "length x") auto
next
  case (snoc c f)
  then show ?case using snoc.IH [of "c # r"] by auto
qed

lemma parent_scan_none: "CHR ''/'' \<notin> set f \<Longrightarrow> parent_scan (c # f @ r) (length f) = 0"
proof (induction f arbitrary: r rule: rev_induct)
  case Nil
  then show ?case by simp
next
  case (snoc d f)
  then show ?case using snoc.IH [of "d # r"] by auto
qed

lemma get_parent_path_cut:
  assumes "CHR ''/'' \<notin> set f" "NUL \<notin> set x" "NUL \<notin> set f" "x \<noteq> []"
  shows "get_parent_path (Some (x @ CHR ''/'' # f @ NUL # r)) = Some (x @ NUL # f @ NUL # r)"
proof -
  have "parent_scan (x @ CHR ''/'' # (f @ [NUL]) @ r) (length x + length (f @ [NUL])) = length x"
    using assms(1,4) by (intro parent_scan_slash) auto
  with assms show ?thesis by (simp add: get_parent_path_def cstr_append Let_def)
qed

text \<open>
  \<open>get_parent_path\<close> cuts a name at its last slash, unless that is the leading one, in which case
  the name is left alone.
\<close>

theorem get_parent_path_correct:
  assumes "CHR ''/'' \<notin> set f" "NUL \<notin> set x" "NUL \<notin> set f"
  shows "get_parent_path (Some (x @ CHR ''/'' # f @ NUL # r)) =
           Some (if x = [] then CHR ''/'' # f @ NUL # r else x @ NUL # f @ NUL # r)"
proof (cases "x = []")
  case True
  with assms show ?thesis
    using parent_scan_none [of "f @ [NUL]" "CHR ''/''" r]
    by (simp add: get_parent_path_def cstr_append)
next
  case False
  with get_parent_path_cut [OF assms] show ?thesis by simp
qed

theorem get_parent_path_correct_witness:
  "get_parent_path (Some (''/home/u'' @ CHR ''/'' # ''secret'' @ NUL # [])) =
     Some (''/home/u'' @ NUL # ''secret'' @ NUL # [])"
  using get_parent_path_correct [of "''secret''" "''/home/u''" "[]"] by simp

section \<open>Swap files\<close>

lemma last_slash_append:
  "CHR ''/'' \<notin> set f \<Longrightarrow>
     last_slash (x @ CHR ''/'' # f @ r) (Suc (length x + length f)) = Some (length x)"
proof (induction f arbitrary: r rule: rev_induct)
  case Nil
  then show ?case by simp
next
  case (snoc c f)
  then show ?case using snoc.IH [of "c # r"] by auto
qed

lemma last_slash_at:
  "CHR ''/'' \<notin> set f \<Longrightarrow> len = Suc (length x + length f) \<Longrightarrow>
     last_slash (x @ CHR ''/'' # f @ r) len = Some (length x)"
  by (metis last_slash_append)

lemma ends_with_append:
  "NUL \<notin> set x \<Longrightarrow> NUL \<notin> set k \<Longrightarrow> len = length x + length k \<Longrightarrow> ends_with (x @ k @ r) len k"
  by (simp add: ends_with_def strncmp_const_prefix cstr_append)

lemma remove_dot_append:
  "len = length x + 1 + length y \<Longrightarrow>
     remove_dot (x @ c # y @ NUL # r) (length x) len = x @ y @ NUL # NUL # r"
  by (simp add: remove_dot_def list_update_append)

lemma clear_tail_append:
  "len = length x + length k \<Longrightarrow> n = length k \<Longrightarrow> clear_tail (x @ k @ r) len n = x @ replicate n NUL @ r"
  by (simp add: clear_tail_def)

text \<open>
  The name of an editor's swap file is led back to the file it stands for: \<open>dir/.name.swp\<close>
  becomes \<open>dir/name\<close>, and the filter recognises it.
\<close>

theorem swap_to_target_swp:
  assumes "CHR ''/'' \<notin> set f" "NUL \<notin> set x" "NUL \<notin> set f"
    and "b = x @ ''/.'' @ f @ ''.swp'' @ NUL # r"
  shows "is_swap_name b (length (cstr b)) \<and>
         cstr (swap_to_target b (length (cstr b))) = x @ ''/'' @ f"
proof -
  let ?len = "length x + length f + 6"
  have len: "length (cstr b) = ?len" using assms by (simp add: cstr_append)
  have swp: "ends_with b ?len ''.swp''"
    using ends_with_append [of "x @ ''/.'' @ f" "''.swp''" ?len "NUL # r"] assms by simp
  have "last_slash b ?len = Some (length x)"
    using last_slash_at [of "''.'' @ f @ ''.swp''" ?len x "NUL # r"] assms by simp
  then have dot: "dot_index b ?len = Some (length x + 1)"
    using assms(4) by (simp add: dot_index_def)
  have rd: "remove_dot b (length x + 1) ?len = (x @ ''/'' @ f) @ ''.swp'' @ NUL # NUL # r"
    using remove_dot_append [of ?len "x @ ''/''" "f @ ''.swp''" "CHR ''.''" r] assms(4) by simp
  have swp': "ends_with ((x @ ''/'' @ f) @ ''.swp'' @ NUL # NUL # r) (?len - 1) ''.swp''"
    using assms by (intro ends_with_append) auto
  have "swap_to_target b ?len = clear_tail ((x @ ''/'' @ f) @ ''.swp'' @ NUL # NUL # r) (?len - 1) 4"
    by (simp only: swap_to_target_def dot rd swp' Let_def option.case prod.case if_True)
  also have "\<dots> = (x @ ''/'' @ f) @ replicate 4 NUL @ NUL # NUL # r"
    by (rule clear_tail_append) simp_all
  finally have "cstr (swap_to_target b ?len) = x @ ''/'' @ f"
    using assms by (simp add: cstr_append)
  with swp len show ?thesis by (simp add: is_swap_name_def)
qed

theorem swap_to_target_swp_witness:
  "cstr (swap_to_target (''/home/u/.secret.swp'' @ [NUL]) 19) = ''/home/u/secret''"
  using swap_to_target_swp [of "''secret''" "''/home/u''" "''/home/u/.secret.swp'' @ [NUL]" "[]"]
  by (simp add: numeral_eq_Suc)

text \<open>
  A name shorter than six bytes is handed back unresolved: the filter returns 0 without looking
  the name up, so neither a relative name nor a missing file is noticed there.
\<close>

theorem short_name_not_resolved:
  assumes "length (cstr b) < 6"
  shows "fill_with_swap_filter e b = Some (0, b)"
  using assms by (simp add: fill_with_swap_filter_def)

theorem short_name_not_resolved_witness:
  "fill_with_swap_filter sample_env (''a.txt'' @ [NUL]) = Some (0, ''a.txt'' @ [NUL])"
  using short_name_not_resolved [of "''a.txt'' @ [NUL]" sample_env] by simp

section \<open>Buffers stay buffers\<close>

lemma path_buf_get_parent_path:
  assumes "path_buf b"
  obtains b' where "get_parent_path (Some b) = Some b'" "path_buf b'"
  using path_buf_update [OF assms] assms by (simp add: get_parent_path_def Let_def split: if_splits)

lemma path_buf_resolve_relative_path:
  assumes "vfs_ok e" "path_buf b" "resolve_relative_path e (Some b) = Some (r, b')"
  shows "path_buf b'"
proof -
  have zero: "memset0 PATH_MAX b = replicate PATH_MAX NUL" using assms(2) by (simp add: path_buf_def memset0_all)
  have short: "length (take (PATH_MAX - 1) s) < PATH_MAX" for s :: string
    by (simp add: PATH_MAX_def)
  show ?thesis
    using assms path_buf_strncpy_len [OF path_buf_zero short]
    by (auto simp: resolve_relative_path_def zero Let_def simp del: take_append split: if_splits sum.split_asm option.split_asm)
qed

lemma path_buf_fill_absolute_path:
  assumes "vfs_ok e" "path_buf b" "fill_absolute_path e (Some b) = Some (r, b')"
  shows "path_buf b'"
proof -
  from assms(3) obtain err b1 where step: "(if byte_at b 0 \<noteq> CHR ''/'' then resolve_relative_path e (Some b) else Some (0, b)) = Some (err, b1)"
    by (auto simp: fill_absolute_path_def bind_eq_Some_conv)
  then have b1: "path_buf b1" using path_buf_resolve_relative_path [OF assms(1,2)] assms(2) by (auto split: if_splits)
  have "path_buf (strncpy_len (memset0 (length (cstr b1)) b1) full)" if "dentry_path_raw e d PATH_MAX = Inr full" for d full
    using vfs_ok_rawD [OF assms(1) that] path_buf_cstr [OF b1] b1 by (intro path_buf_strncpy_len path_buf_memset0) simp_all
  with assms(3) step b1 show ?thesis
    by (auto simp: fill_absolute_path_def split: if_splits sum.split_asm)
qed

lemma path_buf_remove_dot:
  assumes "path_buf b" "dot < len" "len < PATH_MAX"
  shows "path_buf (remove_dot b dot len)"
proof -
  have "path_buf ((take dot b @ take (len - dot) (drop (dot + 1) b)) @ drop len b)"
    using assms by (intro path_buf_front) (simp_all add: path_buf_def)
  from path_buf_update [OF this] show ?thesis by (simp add: remove_dot_def)
qed

lemma path_buf_clear_tail:
  assumes "path_buf b" "n \<le> len" "len < PATH_MAX"
  shows "path_buf (clear_tail b len n)"
  using path_buf_front [OF assms(1,3), of "take (len - n) b @ replicate n NUL"] assms
  by (simp add: clear_tail_def path_buf_def)

lemma dot_index_less:
  assumes "path_buf b" "dot_index b (length (cstr b)) = Some dot"
  shows "dot < length (cstr b)"
proof -
  let ?len = "length (cstr b)"
  have "last_slash b n = Some i \<Longrightarrow> i < n" for n i
    by (induction n) (auto split: if_splits simp: less_Suc_eq)
  with assms(2) have "dot \<le> ?len" "byte_at b dot = CHR ''.''"
    by (fastforce simp: dot_index_def split: option.split_asm if_splits)+
  moreover have "byte_at b ?len = NUL"
    using drop_length_cstr [OF path_buf_terminated [OF assms(1)]]
    by (auto simp: byte_at_def) (metis nth_via_drop)
  ultimately show ?thesis by (cases "dot = ?len") auto
qed

lemma path_buf_swap_to_target:
  assumes "path_buf b" "6 \<le> length (cstr b)"
  shows "path_buf (swap_to_target b (length (cstr b)))"
proof -
  let ?len = "length (cstr b)"
  obtain b' len' where cut: "(case dot_index b ?len of None \<Rightarrow> (b, ?len) | Some dot \<Rightarrow> (remove_dot b dot ?len, ?len - 1)) = (b', len')"
    by fastforce
  then have "path_buf b'" "5 \<le> len'" "len' < PATH_MAX"
    using assms path_buf_cstr [OF assms(1)] path_buf_remove_dot [OF assms(1) dot_index_less [OF assms(1)]]
    by (auto split: option.split_asm)
  then show ?thesis
    using path_buf_clear_tail [of b' _ len'] path_buf_update [of b'] by (simp add: swap_to_target_def cut)
qed

lemma path_buf_fill_with_swap_filter:
  assumes "vfs_ok e" "path_buf b" "fill_with_swap_filter e b = Some (r, b')"
  shows "path_buf b'"
proof (cases "length (cstr b) < 6")
  case True
  with assms show ?thesis by (simp add: fill_with_swap_filter_def)
next
  case False
  let ?b = "if is_swap_name b (length (cstr b)) then swap_to_target b (length (cstr b)) else b"
  from False assms(2) have "path_buf ?b" by (simp add: path_buf_swap_to_target)
  moreover from False assms(3) obtain a where "fill_absolute_path e (Some ?b) = Some (a, b')"
    by (auto simp: fill_with_swap_filter_def Let_def bind_eq_Some_conv split: if_splits)
  ultimately show ?thesis by (rule path_buf_fill_absolute_path [OF assms(1)])
qed

text \<open>Where the resolvers follow an error pointer: the name of the current directory or of the file found does not fit.\<close>

lemma resolvers_fault:
  shows "resolve_relative_path e (Some b) = None \<Longrightarrow> isl (dentry_path_raw e (fs_pwd e) PATH_MAX) \<and> err_text e = None"
    and "fill_absolute_path e (Some b) = None \<Longrightarrow>
      isl (dentry_path_raw e (fs_pwd e) PATH_MAX) \<and> err_text e = None \<or>
      (\<exists>p d. kern_path e p = Inr d \<and> isl (dentry_path_raw e d PATH_MAX))"
proof -
  show rel: "isl (dentry_path_raw e (fs_pwd e) PATH_MAX) \<and> err_text e = None" if "resolve_relative_path e (Some b) = None" for b
    using that by (auto simp: resolve_relative_path_def Let_def split: if_splits sum.split_asm option.split_asm)
  show "isl (dentry_path_raw e (fs_pwd e) PATH_MAX) \<and> err_text e = None \<or>
      (\<exists>p d. kern_path e p = Inr d \<and> isl (dentry_path_raw e d PATH_MAX))"
    if "fill_absolute_path e (Some b) = None"
  proof (cases "if byte_at b 0 \<noteq> CHR ''/'' then resolve_relative_path e (Some b) else Some (0, b)")
    case None
    then show ?thesis using rel by (auto split: if_splits)
  next
    case (Some x)
    with that show ?thesis
      by (cases x) (auto simp: fill_absolute_path_def isl_def split: if_splits sum.split_asm)
  qed
qed

text \<open>
  C22: buffers of names. Given a buffer of \<open>PATH_MAX\<close> bytes that ends in a terminator, every routine of
  the solver that returns leaves such a buffer: nothing is written behind it, its last byte stays a
  terminator, and no string read from it leaves it. \<open>get_parent_path\<close> and \<open>fill_path_by_dentry\<close> always
  return. The resolvers return unless \<open>dentry_path_raw\<close> refuses with an error pointer the name of the
  current directory (on a kernel whose \<open>snprintf\<close> follows it) or of the file that was found, which the
  code does not test for.
\<close>

theorem path_buffers_keep_shape:
  assumes "vfs_ok e" "path_buf b"
  shows "(\<exists>b'. get_parent_path (Some b) = Some b' \<and> path_buf b') \<and>
    (case resolve_relative_path e (Some b) of
       None \<Rightarrow> isl (dentry_path_raw e (fs_pwd e) PATH_MAX) \<and> err_text e = None
     | Some (r, b') \<Rightarrow> path_buf b') \<and>
    (\<forall>f \<in> {fill_absolute_path e (Some b), fill_with_swap_filter e b}. case f of
       None \<Rightarrow> isl (dentry_path_raw e (fs_pwd e) PATH_MAX) \<and> err_text e = None \<or>
               (\<exists>p d. kern_path e p = Inr d \<and> isl (dentry_path_raw e d PATH_MAX))
     | Some (r, b') \<Rightarrow> path_buf b') \<and>
    path_buf (snd (fill_path_by_dentry e d b))"
proof (intro conjI)
  show "\<exists>b'. get_parent_path (Some b) = Some b' \<and> path_buf b'"
    by (rule path_buf_get_parent_path [OF assms(2)]) blast
  show "case resolve_relative_path e (Some b) of
       None \<Rightarrow> isl (dentry_path_raw e (fs_pwd e) PATH_MAX) \<and> err_text e = None
     | Some (r, b') \<Rightarrow> path_buf b'"
    using resolvers_fault(1) [of e b] path_buf_resolve_relative_path [OF assms] by (auto split: option.split)
  have "\<exists>b'. fill_absolute_path e (Some b') = None" if "fill_with_swap_filter e b = None"
    using that by (auto simp: fill_with_swap_filter_def Let_def bind_eq_None_conv split: if_splits prod.split_asm)
  then show "\<forall>f \<in> {fill_absolute_path e (Some b), fill_with_swap_filter e b}. case f of
       None \<Rightarrow> isl (dentry_path_raw e (fs_pwd e) PATH_MAX) \<and> err_text e = None \<or>
               (\<exists>p d. kern_path e p = Inr d \<and> isl (dentry_path_raw e d PATH_MAX))
     | Some (r, b') \<Rightarrow> path_buf b'"
    using resolvers_fault(2) [of e] path_buf_fill_absolute_path [OF assms] path_buf_fill_with_swap_filter [OF assms]
    by (auto split: option.split)
  have "path_buf (strncpy_len (replicate PATH_MAX NUL) s)" if "dentry_path_raw e x PATH_MAX = Inr s" for x s
    using vfs_ok_rawD [OF assms(1) that] by (simp add: path_buf_strncpy_len)
  then show "path_buf (snd (fill_path_by_dentry e d b))"
    using assms(2) by (auto simp: fill_path_by_dentry_def path_buf_def [of b] memset0_all split: option.split sum.split)
qed

theorem path_buffers_keep_shape_witness:
  "case fill_with_swap_filter sample_env (clean_buf ''/home/u/.secret.swp'') of None \<Rightarrow> False | Some (r, b') \<Rightarrow> path_buf b'"
proof -
  have "path_buf (clean_buf ''/home/u/.secret.swp'')" by (rule path_buf_clean_buf) (simp add: PATH_MAX_def)
  from path_buffers_keep_shape [OF sample_env_ok(4) this, of None] show ?thesis
    by (auto split: option.splits)
qed

section \<open>Read-only inodes\<close>

text \<open>The protection the hooks put on an inode.\<close>

definition write_protected :: "inode \<Rightarrow> bool" where
  "write_protected i = (i_mode i AND (S_IWUSR OR S_IWGRP OR S_IWOTH) = 0 \<and>
                        i_flags i AND S_IMMUTABLE = S_IMMUTABLE)"

lemma mark_inode_read_only_protects [simp]: "write_protected (mark_inode_read_only i)"
proof -
  have "(m AND NOT S_IWUSR AND NOT S_IWGRP AND NOT S_IWOTH) AND (S_IWUSR OR S_IWGRP OR S_IWOTH) = 0"
    for m :: "16 word"
    by (rule bit_word_eqI) (auto simp: bit_simps)
  moreover have "(f OR S_IMMUTABLE) AND S_IMMUTABLE = S_IMMUTABLE" for f :: "32 word"
    by (rule bit_word_eqI) (auto simp: bit_simps)
  ultimately show ?thesis
    by (simp add: write_protected_def mark_inode_read_only_def mark_inode_dirty_def)
qed

lemma mark_inode_read_only_ino [simp]: "i_ino (mark_inode_read_only i) = i_ino i"
  by (simp add: mark_inode_read_only_def mark_inode_dirty_def)

text \<open>
  Marking an inode clears the three write permission bits and sets the immutable flag, keeps
  every other bit of mode and flags and the inode's number and times, and marking twice changes
  nothing more.
\<close>

theorem mark_inode_read_only_correct:
  "write_protected (mark_inode_read_only i) \<and>
   i_mode (mark_inode_read_only i) AND NOT 0x92 = i_mode i AND NOT 0x92 \<and>
   i_flags (mark_inode_read_only i) AND NOT 8 = i_flags i AND NOT 8 \<and>
   i_ino (mark_inode_read_only i) = i_ino i \<and> i_mtime (mark_inode_read_only i) = i_mtime i \<and>
   mark_inode_read_only (mark_inode_read_only i) = mark_inode_read_only i"
  (is "?protected \<and> ?rest")
proof
  show ?protected by (rule mark_inode_read_only_protects)
  have "(f OR 8) AND NOT 8 = f AND NOT 8" for f :: "32 word"
    by (rule bit_word_eqI) (auto simp: bit_simps)
  then show ?rest
    by (simp add: mark_inode_read_only_def mark_inode_dirty_def ac_simps)
qed

end
