(* ===== verification/Restrict_List.thy ===== *)
theory Restrict_List
  imports Monitor_State Path_Solver
begin

text \<open>
  \<^verbatim>\<open>reference-monitor/lib/reference_rcu_restrict_list.c\<close>: the RCU list of restricted paths. The list
  is kept with the newest entry first, as \<open>list_add_rcu\<close> builds it. Each operation is one
  function here; \<open>Monitor_Threads\<close> cuts those that change the list at the spinlock they take.
  \<open>add_path\<close> and \<open>del_path\<close> test a local variable \<open>err\<close> that nothing has assigned; its value is
  \<open>uninit\<close>.
\<close>

section \<open>Definitions\<close>

fun path_in_loop :: "string \<Rightarrow> rcu_restrict list \<Rightarrow> int" where
  "path_in_loop the_path [] = 1"
| "path_in_loop the_path (p # ps) =
     (if strcmp the_path (entry_path p) = 0 then 0 else path_in_loop the_path ps)"

definition is_path_in :: "rm_state \<Rightarrow> string option \<Rightarrow> int" where
  "is_path_in st the_path =
     (case the_path of None \<Rightarrow> - EINVAL | Some p \<Rightarrow> path_in_loop p (restrict_path_list st))"

text \<open>The assignments to the inode that \<open>restore_black_list_entries\<close> and \<open>del_path\<close> share.\<close>

definition restore_inode :: "rcu_restrict \<Rightarrow> int \<Rightarrow> inode \<Rightarrow> inode" where
  "restore_inode entry now i =
     mark_inode_dirty (i\<lparr>i_mode := ucast (o_mode entry), i_flags := o_flags entry,
                         i_ctime := now, i_mtime := now, i_atime := now\<rparr>)"

fun restore_loop :: "kenv \<Rightarrow> rcu_restrict list \<Rightarrow> int \<times> inode_table \<Rightarrow> int \<times> inode_table" where
  "restore_loop e [] (ret, ino) = (ret, ino)"
| "restore_loop e (entry # es) (ret, ino) =
     (case kern_path e (entry_path entry) of
        Inl err \<Rightarrow> restore_loop e es (err, ino)
      | Inr d \<Rightarrow>
          (case d_inode e d of
             None \<Rightarrow> restore_loop e es (0, ino)
           | Some i \<Rightarrow> restore_loop e es (0, ino(i := restore_inode entry (current_time e i) (ino i)))))"

definition restore_black_list_entries :: "kenv \<Rightarrow> rm_state \<Rightarrow> int \<times> rm_state" where
  "restore_black_list_entries e st =
     (let (ret, ino) = restore_loop e (restrict_path_list st) (uninit e V_restore_ret, inodes st)
      in (ret, st\<lparr>inodes := ino\<rparr>))"

definition add_path :: "kenv \<Rightarrow> string option \<Rightarrow> dentry_ptr \<Rightarrow> rm_state \<Rightarrow> int \<times> rm_state" where
  "add_path e the_path path st =
     (case the_path of
        None \<Rightarrow> (- EINVAL, st)
      | Some p \<Rightarrow>
          if is_path_in st (Some p) = 0 then (- EEXIST, st)
          else if uninit e V_add_path_err \<noteq> 0 then (uninit e V_add_path_err, st)
          else if \<not> alloc_ok e A_restrict_entry then (- ENOMEM, st)
          else if \<not> alloc_ok e A_restrict_path then (- ENOMEM, st)
          else (case d_inode e path of
                  None \<Rightarrow> (- ENOENT, st)
                | Some i \<Rightarrow>
                    let entry = \<lparr>entry_path = p, entry_i_ino = i_ino (inodes st i),
                                 o_mode = ucast (i_mode (inodes st i)), o_flags = i_flags (inodes st i)\<rparr>
                    in (0, st\<lparr>restrict_path_list := entry # restrict_path_list st\<rparr>)))"

fun del_loop ::
    "kenv \<Rightarrow> string \<Rightarrow> inode_table \<Rightarrow> rcu_restrict list \<Rightarrow> int \<times> inode_table \<times> rcu_restrict list" where
  "del_loop e the_path ino [] = (- ENOENT, ino, [])"
| "del_loop e the_path ino (entry # es) =
     (if strncmp the_path (entry_path entry) (length the_path) = 0 then
        (case kern_path e (entry_path entry) of
           Inl ret \<Rightarrow> (ret, ino, es)
         | Inr d \<Rightarrow>
             (case d_inode e d of
                None \<Rightarrow> (- ENOENT, ino, es)
              | Some i \<Rightarrow> (0, ino(i := restore_inode entry (current_time e i) (ino i)), es)))
      else
        let (ret, ino', es') = del_loop e the_path ino es in (ret, ino', entry # es'))"

definition del_path :: "kenv \<Rightarrow> string option \<Rightarrow> rm_state \<Rightarrow> int \<times> rm_state" where
  "del_path e the_path st =
     (case the_path of
        None \<Rightarrow> (- EINVAL, st)
      | Some p \<Rightarrow>
          if uninit e V_del_path_err \<noteq> 0 then (- ENOENT, st)
          else
            let (ret, ino, es) = del_loop e p (inodes st) (restrict_path_list st)
            in (ret, st\<lparr>inodes := ino, restrict_path_list := es\<rparr>))"

definition forbitten_path :: "rm_state \<Rightarrow> string option \<Rightarrow> int" where
  "forbitten_path st the_path =
     (case the_path of
        None \<Rightarrow> 1
      | Some p \<Rightarrow>
          if length p = 1 \<and> p ! 0 = CHR ''/'' then 1
          else if strncmp p ''/proc'' 5 = 0 \<or> strncmp p ''/sys'' 4 = 0 \<or> strncmp p ''/run'' 4 = 0 \<or>
                  strncmp p ''/var'' 4 = 0 \<or> strncmp p ''/tmp'' 4 = 0 \<or> strncmp p ''/bin'' 4 = 0 \<or>
                  strncmp p ''/etc'' 4 = 0 \<or> strncmp p ''/lib'' 4 = 0 \<or>
                  strcmp (single_file_name st) p = 0
               then 1 else 0)"

text \<open>
  The search of \<open>check_black_list\<close>; \<open>target\<close> is the entry found by \<open>kern_path\<close>, if any. \<open>None\<close> is a
  dereference of the inode pointer of an entry without one.
\<close>

fun black_list_loop ::
    "kenv \<Rightarrow> inode_table \<Rightarrow> string \<Rightarrow> bool \<Rightarrow> dentry_ptr option \<Rightarrow> rcu_restrict list \<Rightarrow> int option" where
  "black_list_loop e ino path is_open target [] = Some (- EEXIST)"
| "black_list_loop e ino path is_open target (entry # es) =
     (if strcmp path (entry_path entry) = 0 then Some 0
      else case target of
             Some d \<Rightarrow>
               if is_open then
                 (case d_inode e d of
                    None \<Rightarrow> None
                  | Some i \<Rightarrow> if entry_i_ino entry = i_ino (ino i) then Some 0
                              else black_list_loop e ino path is_open target es)
               else black_list_loop e ino path is_open target es
           | None \<Rightarrow> black_list_loop e ino path is_open target es)"

definition check_black_list :: "kenv \<Rightarrow> rm_state \<Rightarrow> string option \<Rightarrow> bool \<Rightarrow> int option" where
  "check_black_list e st path is_open =
     (case path of
        None \<Rightarrow> Some (- EINVAL)
      | Some p \<Rightarrow>
          let target = (case kern_path e p of Inl _ \<Rightarrow> None | Inr d \<Rightarrow> Some d)
          in black_list_loop e (inodes st) p is_open target (restrict_path_list st))"

section \<open>Well-formed lists\<close>

text \<open>
  The invariant of the list: no path occurs twice, no path holds a NUL byte, and no path is one
  that \<open>forbitten_path\<close> rejects.
\<close>

definition wf_list :: "rm_state \<Rightarrow> bool" where
  "wf_list st = (distinct (restricted st) \<and>
     (\<forall>p \<in> set (restricted st). NUL \<notin> set p \<and> forbitten_path st (Some p) = 0))"

section \<open>Forbidden paths\<close>

definition forbidden_prefixes :: "string list" where
  "forbidden_prefixes = [''/proc'', ''/sys'', ''/run'', ''/var'', ''/tmp'', ''/bin'', ''/etc'', ''/lib'']"

lemma forbitten_path_eq:
  "NUL \<notin> set p \<Longrightarrow> forbitten_path st (Some p) =
     (if p = ''/'' \<or> (\<exists>k \<in> set forbidden_prefixes. prefix k p) \<or> cstr (single_file_name st) = p
      then 1 else 0)"
proof -
  assume p: "NUL \<notin> set p"
  have "length p = 1 \<and> p ! 0 = CHR ''/'' \<longleftrightarrow> p = ''/''" by (cases p) auto
  then show ?thesis
    using p by (simp add: forbitten_path_def forbidden_prefixes_def strncmp_const_prefix strcmp_eq_0 cstr_id)
qed

lemma forbitten_path_cong:
  "single_file_name st' = single_file_name st \<Longrightarrow> forbitten_path st' p = forbitten_path st p"
  by (cases p) (simp_all add: forbitten_path_def)

lemma wf_list_subseq:
  "wf_list st \<Longrightarrow> subseq (restricted st') (restricted st) \<Longrightarrow>
     single_file_name st' = single_file_name st \<Longrightarrow> wf_list st'"
  unfolding wf_list_def using forbitten_path_cong [of st' st] distinct_subseq set_subseq_subset
  by metis

lemma wf_list_push:
  "wf_list st \<Longrightarrow> restricted st' = p # restricted st \<Longrightarrow> single_file_name st' = single_file_name st \<Longrightarrow>
     p \<notin> set (restricted st) \<Longrightarrow> NUL \<notin> set p \<Longrightarrow> forbitten_path st (Some p) = 0 \<Longrightarrow> wf_list st'"
  unfolding wf_list_def using forbitten_path_cong [of st' st] by simp

section \<open>Membership\<close>

lemma path_in_loop_eq:
  "NUL \<notin> set p \<Longrightarrow> \<forall>q \<in> set (map entry_path es). NUL \<notin> set q \<Longrightarrow>
     path_in_loop p es = (if p \<in> set (map entry_path es) then 0 else 1)"
  by (induction es) (auto simp: strcmp_eq_0 cstr_id)

lemma path_in_loop_sound: "p \<in> set (map entry_path es) \<Longrightarrow> path_in_loop p es = 0"
  by (induction es) (auto simp: strcmp_eq_0)

section \<open>Adding\<close>

lemma add_path_cases:
  assumes "add_path e (Some p) d st = (r, st')"
  obtains (added) i where "r = 0" "p \<notin> set (restricted st)" "d_inode e d = Some i"
      "st' = st\<lparr>restrict_path_list :=
         \<lparr>entry_path = p, entry_i_ino = i_ino (inodes st i), o_mode = ucast (i_mode (inodes st i)),
          o_flags = i_flags (inodes st i)\<rparr> # restrict_path_list st\<rparr>"
    | (failed) "r \<noteq> 0" "st' = st"
proof (cases "r = 0")
  case True
  show ?thesis
  proof (cases "d_inode e d")
    case None
    with True assms show ?thesis by (auto simp: add_path_def split: if_splits)
  next
    case (Some i)
    with True assms show ?thesis
      using path_in_loop_sound [of p "restrict_path_list st"]
      by (intro added [of i]) (auto simp: add_path_def is_path_in_def split: if_splits)
  qed
next
  case False
  with assms show ?thesis
    by (intro failed) (auto simp: add_path_def Let_def split: if_splits option.splits)
qed

lemma add_path_frame [rm_frame]:
  assumes "add_path e p d st = (r, st')"
  shows "pwd st' = pwd st" "salt st' = salt st" "admin st' = admin st"
    "current_state st' = current_state st" "single_file_name st' = single_file_name st"
    "probes st' = probes st" "inodes st' = inodes st" "deferred_queue st' = deferred_queue st"
  using assms by (auto simp: add_path_def Let_def split: if_splits option.splits)

section \<open>Deleting\<close>

lemma del_loop_cases:
  assumes "NUL \<notin> set p" "\<forall>q \<in> set (map entry_path es). NUL \<notin> set q"
    and "del_loop e p ino es = (r, ino', es')"
  obtains (missing) "\<forall>q \<in> set (map entry_path es). \<not> prefix p q" "r = - ENOENT" "ino' = ino" "es' = es"
    | (found) xs entry ys where "es = xs @ entry # ys" "es' = xs @ ys"
        "prefix p (entry_path entry)" "\<forall>q \<in> set (map entry_path xs). \<not> prefix p q"
        "(r, ino') = (case kern_path e (entry_path entry) of
            Inl err \<Rightarrow> (err, ino)
          | Inr d \<Rightarrow> (case d_inode e d of
              None \<Rightarrow> (- ENOENT, ino)
            | Some i \<Rightarrow> (0, ino(i := restore_inode entry (current_time e i) (ino i)))))"
  using assms
proof (induction es arbitrary: es' thesis)
  case Nil
  then show ?case by simp
next
  case (Cons a es)
  show ?case
  proof (cases "prefix p (entry_path a)")
    case True
    with Cons.prems show ?thesis
      by (intro Cons.prems(2) [of "[]" a es])
         (auto simp: strncmp_strlen_prefix cstr_id split: sum.splits option.splits)
  next
    case False
    with Cons.prems(3-5) obtain es'' where es': "es' = a # es''"
      and rec: "del_loop e p ino es = (r, ino', es'')"
      by (auto simp: strncmp_strlen_prefix cstr_id split: prod.splits)
    show ?thesis
    proof (rule Cons.IH [OF _ _ Cons.prems(3) _ rec])
      show "\<forall>q \<in> set (map entry_path es). NUL \<notin> set q" using Cons.prems(4) by simp
    next
      assume "\<forall>q \<in> set (map entry_path es). \<not> prefix p q" "r = - ENOENT" "ino' = ino" "es'' = es"
      then show ?thesis using False es' Cons.prems(1) by auto
    next
      fix xs entry ys
      assume *: "es = xs @ entry # ys" "es'' = xs @ ys" "prefix p (entry_path entry)"
        "\<forall>q \<in> set (map entry_path xs). \<not> prefix p q"
        "(r, ino') = (case kern_path e (entry_path entry) of
            Inl err \<Rightarrow> (err, ino)
          | Inr d \<Rightarrow> (case d_inode e d of
              None \<Rightarrow> (- ENOENT, ino)
            | Some i \<Rightarrow> (0, ino(i := restore_inode entry (current_time e i) (ino i)))))"
      show ?thesis
        using False * es' by (intro Cons.prems(2) [of "a # xs" entry ys]) auto
    qed
  qed
qed

lemma del_loop_list:
  "del_loop e p ino es = (r, ino', es') \<Longrightarrow> subseq es' es \<and> length es \<le> Suc (length es')"
  by (induction es arbitrary: es')
     (auto split: if_splits sum.splits option.splits prod.splits intro: subseq_Cons')

lemma del_path_frame [rm_frame]:
  assumes "del_path e p st = (r, st')"
  shows "pwd st' = pwd st" "salt st' = salt st" "admin st' = admin st"
    "current_state st' = current_state st" "single_file_name st' = single_file_name st"
    "probes st' = probes st" "deferred_queue st' = deferred_queue st"
  using assms by (auto simp: del_path_def Let_def split: if_splits option.splits prod.splits)

lemma del_path_subseq:
  "del_path e (Some p) st = (r, st') \<Longrightarrow>
     subseq (restricted st') (restricted st) \<and> length (restricted st) \<le> Suc (length (restricted st'))"
  by (auto simp: del_path_def split: if_splits prod.splits dest!: del_loop_list intro: subseq_map)

section \<open>The list as a store of paths\<close>

text \<open>
  What the rest of the monitor relies on, as an interface: \<open>add\<close> either puts a new key at the front
  and returns 0 or fails without effect, \<open>del\<close> drops at most one key and never reorders the rest.
\<close>

datatype 'k store_op = Add 'k | Del 'k

primrec run_store ::
    "('env \<Rightarrow> 'k \<Rightarrow> 's \<Rightarrow> int \<times> 's) \<Rightarrow> ('env \<Rightarrow> 'k \<Rightarrow> 's \<Rightarrow> int \<times> 's) \<Rightarrow>
     ('env \<times> 'k store_op) list \<Rightarrow> 's \<Rightarrow> 's" where
  "run_store add del [] s = s"
| "run_store add del (x # xs) s =
     run_store add del xs
       (case x of (e, Add k) \<Rightarrow> snd (add e k s) | (e, Del k) \<Rightarrow> snd (del e k s))"

locale path_store =
  fixes contents :: "'s \<Rightarrow> 'k list"
    and add :: "'env \<Rightarrow> 'k \<Rightarrow> 's \<Rightarrow> int \<times> 's"
    and del :: "'env \<Rightarrow> 'k \<Rightarrow> 's \<Rightarrow> int \<times> 's"
  assumes add_ok: "add e k s = (0, s') \<Longrightarrow> k \<notin> set (contents s) \<and> contents s' = k # contents s"
    and add_fail: "add e k s = (r, s') \<Longrightarrow> r \<noteq> 0 \<Longrightarrow> contents s' = contents s"
    and del_drops: "del e k s = (r, s') \<Longrightarrow>
          subseq (contents s') (contents s) \<and> length (contents s) \<le> Suc (length (contents s'))"
begin

lemma add_contents:
  "contents (snd (add e k s)) = (if fst (add e k s) = 0 then k # contents s else contents s)"
  using add_ok [of e k s] add_fail [of e k s] by (cases "add e k s") auto

lemma add_distinct: "distinct (contents s) \<Longrightarrow> distinct (contents (snd (add e k s)))"
  using add_ok [of e k s] add_fail [of e k s] by (cases "add e k s"; cases "fst (add e k s) = 0") auto

lemma del_distinct: "distinct (contents s) \<Longrightarrow> distinct (contents (snd (del e k s)))"
  using del_drops [of e k s] by (cases "del e k s") (auto intro: distinct_subseq)

lemma del_subset: "set (contents (snd (del e k s))) \<subseteq> set (contents s)"
  using del_drops [of e k s] by (cases "del e k s") (auto dest: set_subseq_subset)

lemma run_distinct: "distinct (contents s) \<Longrightarrow> distinct (contents (run_store add del ops s))"
  by (induction ops arbitrary: s)
     (auto split: prod.splits store_op.splits intro: add_distinct del_distinct)

lemma run_contents:
  "set (contents (run_store add del ops s)) \<subseteq> set (contents s) \<union> {k. \<exists>e. (e, Add k) \<in> set ops}"
proof (induction ops arbitrary: s)
  case Nil
  then show ?case by simp
next
  case (Cons x ops)
  obtain e k where "x = (e, Add k) \<or> x = (e, Del k)" by (metis store_op.exhaust surj_pair)
  moreover have "set (contents (snd (add e k s))) \<subseteq> insert k (set (contents s))"
    by (auto simp: add_contents)
  ultimately show ?case
    using Cons.IH [of "snd (add e k s)"] Cons.IH [of "snd (del e k s)"] del_subset [of e k s]
    by fastforce
qed

end

definition add_entry :: "kenv \<times> dentry_ptr \<Rightarrow> string \<Rightarrow> rm_state \<Rightarrow> int \<times> rm_state" where
  "add_entry env p st = add_path (fst env) (Some p) (snd env) st"

definition del_entry :: "kenv \<times> dentry_ptr \<Rightarrow> string \<Rightarrow> rm_state \<Rightarrow> int \<times> rm_state" where
  "del_entry env p st = del_path (fst env) (Some p) st"

interpretation rlist: path_store "\<lambda>st. restricted st" add_entry del_entry
proof unfold_locales
  fix e k s s'
  assume "add_entry e k s = (0, s')"
  then show "k \<notin> set (restricted s) \<and> restricted s' = k # restricted s"
    by (auto simp: add_entry_def elim!: add_path_cases)
next
  fix e k s r s'
  assume "add_entry e k s = (r, s')" "r \<noteq> 0"
  then show "restricted s' = restricted s"
    by (auto simp: add_entry_def elim!: add_path_cases)
next
  fix e k s r s'
  assume "del_entry e k s = (r, s')"
  then show "subseq (restricted s') (restricted s) \<and> length (restricted s) \<le> Suc (length (restricted s'))"
    unfolding del_entry_def by (rule del_path_subseq)
qed

section \<open>Looking a path up\<close>

lemma black_list_loop_eq:
  assumes "NUL \<notin> set p" "\<forall>q \<in> set (map entry_path es). NUL \<notin> set q"
    and "\<forall>d. target = Some d \<longrightarrow> d_inode e d \<noteq> None"
  shows "black_list_loop e ino p is_open target es =
     Some (if p \<in> set (map entry_path es) \<or>
              is_open \<and> (\<exists>d i. target = Some d \<and> d_inode e d = Some i \<and>
                               i_ino (ino i) \<in> set (map entry_i_ino es))
           then 0 else - EEXIST)"
  using assms(2)
proof (induction es)
  case Nil
  then show ?case by simp
next
  case (Cons a es)
  then show ?case using assms(1,3)
    by (cases target) (auto simp: strcmp_eq_0 cstr_id split: option.splits)
qed

lemma wf_list_no_NUL: "wf_list st \<Longrightarrow> \<forall>q \<in> set (restricted st). NUL \<notin> set q"
  by (simp add: wf_list_def)

lemma check_black_list_eq:
  assumes "vfs_ok e" "wf_list st" "NUL \<notin> set p"
  shows "check_black_list e st (Some p) is_open =
     Some (if p \<in> set (restricted st) \<or>
              is_open \<and> (\<exists>d i. kern_path e p = Inr d \<and> d_inode e d = Some i \<and>
                               i_ino (inodes st i) \<in> set (map entry_i_ino (restrict_path_list st)))
           then 0 else - EEXIST)"
proof -
  let ?target = "case kern_path e p of Inl _ \<Rightarrow> None | Inr d \<Rightarrow> Some d"
  have "\<forall>d. ?target = Some d \<longrightarrow> d_inode e d \<noteq> None"
    using vfs_ok_inodeD [OF assms(1)] by (fastforce split: sum.splits)
  then show ?thesis
    using black_list_loop_eq [OF assms(3) wf_list_no_NUL [OF assms(2)], of ?target e "inodes st" is_open]
    by (auto simp: check_black_list_def split: sum.splits)
qed

section \<open>Restoring inodes\<close>

definition resolves_to :: "kenv \<Rightarrow> string \<Rightarrow> inode_ptr \<Rightarrow> bool" where
  "resolves_to e p i = (case kern_path e p of Inl _ \<Rightarrow> False | Inr d \<Rightarrow> d_inode e d = Some i)"

lemma restore_loop_append:
  "restore_loop e (xs @ ys) s = restore_loop e ys (restore_loop e xs s)"
  by (induction e xs s rule: restore_loop.induct) (auto split: sum.splits option.splits)

lemma restore_loop_other:
  "\<forall>x \<in> set es. \<not> resolves_to e (entry_path x) i \<Longrightarrow> snd (restore_loop e es s) i = snd s i"
  by (induction e es s rule: restore_loop.induct)
     (auto simp: resolves_to_def split: sum.splits option.splits)

lemma restore_loop_last:
  assumes "es = xs @ entry # ys" "resolves_to e (entry_path entry) i"
    and "\<forall>x \<in> set ys. \<not> resolves_to e (entry_path x) i"
  shows "i_mode (snd (restore_loop e es s) i) = ucast (o_mode entry) \<and>
         i_flags (snd (restore_loop e es s) i) = o_flags entry"
proof -
  obtain ret ino where s: "restore_loop e xs s = (ret, ino)" by fastforce
  have "snd (restore_loop e es s) i =
      snd (restore_loop e ys (0, ino(i := restore_inode entry (current_time e i) (ino i)))) i"
    using assms(1,2) s by (auto simp: restore_loop_append resolves_to_def split: sum.splits)
  also have "\<dots> = restore_inode entry (current_time e i) (ino i)"
    using restore_loop_other [OF assms(3)] by simp
  finally show ?thesis by (simp add: restore_inode_def mark_inode_dirty_def)
qed

lemma restore_frame [rm_frame]:
  assumes "restore_black_list_entries e st = (r, st')"
  shows "pwd st' = pwd st" "salt st' = salt st" "admin st' = admin st"
    "current_state st' = current_state st" "single_file_name st' = single_file_name st"
    "restrict_path_list st' = restrict_path_list st"
    "probes st' = probes st" "deferred_queue st' = deferred_queue st"
  using assms by (auto simp: restore_black_list_entries_def split: prod.splits)

section \<open>Properties\<close>

text \<open>
  C17: whatever sequence of additions and deletions is run on the list, under whatever environments,
  no path is ever listed twice, and only paths that were listed or asked for are listed.
\<close>

theorem restrict_list_no_duplicates:
  assumes "distinct (restricted st)"
  shows "distinct (restricted (run_store add_entry del_entry ops st)) \<and>
         set (restricted (run_store add_entry del_entry ops st)) \<subseteq>
           set (restricted st) \<union> {p. \<exists>env. (env, Add p) \<in> set ops}"
  using rlist.run_distinct [OF assms] rlist.run_contents by blast

theorem restrict_list_no_duplicates_witness:
  "distinct (restricted (run_store add_entry del_entry
     [((sample_env, 1), Add ''/home/u/secret''), ((sample_env, 1), Add ''/home/u/secret'')] sample_state))"
proof -
  have "distinct (restricted sample_state)" by simp
  from restrict_list_no_duplicates [OF this] show ?thesis by blast
qed

text \<open>
  C18: \<open>check_black_list\<close> decides restriction: it returns 0 exactly when the path is listed or, for
  an open, when the inode the path leads to has the number recorded for a listed path; otherwise it
  returns \<open>-EEXIST\<close>. Only the numbers are compared and not the devices: hard links of a listed file are
  found, and files of other file systems that happen to have the number too
  (\<open>same_number_found\<close>).
\<close>

theorem check_black_list_correct:
  assumes "vfs_ok e" "wf_list st" "NUL \<notin> set p"
  shows "check_black_list e st (Some p) is_open \<in> {Some 0, Some (- EEXIST)} \<and>
    (check_black_list e st (Some p) is_open = Some 0) =
      (p \<in> set (restricted st) \<or>
       is_open \<and> (\<exists>d i. kern_path e p = Inr d \<and> d_inode e d = Some i \<and>
                       i_ino (inodes st i) \<in> entry_i_ino ` set (restrict_path_list st)))"
  using check_black_list_eq [OF assms] by auto

theorem check_black_list_correct_witness:
  "check_black_list sample_env (sample_state\<lparr>restrict_path_list := [sample_entry]\<rparr>)
     (Some ''/home/u/secret'') True = Some 0"
  using check_black_list_correct [of sample_env "sample_state\<lparr>restrict_path_list := [sample_entry]\<rparr>"
      "''/home/u/secret''" True] sample_env_ok
  by (simp add: wf_list_def forbitten_path_eq forbidden_prefixes_def cstr_id)

text \<open>
  The comment in the code speaks of hard links, but the device is not compared: a path that is not
  listed and leads to another inode than every listed path is found if the number of the inode
  occurs in the list.
\<close>

theorem same_number_found:
  assumes "vfs_ok e" "wf_list st" "NUL \<notin> set p" "p \<notin> set (restricted st)"
    and "kern_path e p = Inr d" "d_inode e d = Some i" "x \<in> set (restrict_path_list st)" "entry_i_ino x = i_ino (inodes st i)"
    and "\<forall>q \<in> set (restricted st). \<forall>d'. kern_path e q = Inr d' \<longrightarrow> d_inode e d' \<noteq> Some i"
  shows "check_black_list e st (Some p) True = Some 0"
  using check_black_list_eq [OF assms(1-3), of True] assms(5-8) by force

theorem same_number_found_witness:
  "check_black_list sample_env
     (sample_state\<lparr>restrict_path_list := [sample_entry], inodes := sample_inodes(13 := sample_inodes 11)\<rparr>)
     (Some ''/home/u/secret2'') True = Some 0"
  using same_number_found [of sample_env
      "sample_state\<lparr>restrict_path_list := [sample_entry], inodes := sample_inodes(13 := sample_inodes 11)\<rparr>"
      "''/home/u/secret2''" 3 13 sample_entry] sample_env_ok
  by (simp add: wf_list_def forbitten_path_eq forbidden_prefixes_def cstr_id sample_inodes_def)

text \<open>
  A successful addition: a path that is not yet listed is put on the list with its inode's
  number, mode and flags, the other entries stay, and from then on the path is found by every
  lookup, in every environment.
\<close>

theorem add_path_listed:
  assumes "mem_ok e" "uninit e V_add_path_err = 0" "d_inode e d = Some i"
    and "wf_list st" "p \<notin> set (restricted st)" "NUL \<notin> set p" "forbitten_path st (Some p) = 0"
    and "vfs_ok e'"
  shows "\<exists>st'. add_path e (Some p) d st = (0, st') \<and> wf_list st' \<and> restricted st' = p # restricted st \<and>
           hd (restrict_path_list st') =
             \<lparr>entry_path = p, entry_i_ino = i_ino (inodes st i), o_mode = ucast (i_mode (inodes st i)),
              o_flags = i_flags (inodes st i)\<rparr> \<and>
           check_black_list e' st' (Some p) is_open = Some 0"
proof -
  obtain r st' where add: "add_path e (Some p) d st = (r, st')" by fastforce
  moreover have "is_path_in st (Some p) = 1"
    using path_in_loop_eq [of p "restrict_path_list st"] assms by (simp add: is_path_in_def wf_list_def)
  ultimately have r: "r = 0" and st': "st' = st\<lparr>restrict_path_list :=
      \<lparr>entry_path = p, entry_i_ino = i_ino (inodes st i), o_mode = ucast (i_mode (inodes st i)),
       o_flags = i_flags (inodes st i)\<rparr> # restrict_path_list st\<rparr>"
    using assms(1-3) by (auto simp: add_path_def)
  have wf: "wf_list st'" using assms(4-7) by (intro wf_list_push [of st st' p]) (simp_all add: st')
  have "check_black_list e' st' (Some p) is_open = Some 0"
    using check_black_list_eq [OF assms(8) wf assms(6), of is_open] by (simp add: st')
  with add r wf show ?thesis by (simp add: st')
qed

theorem add_path_listed_witness:
  "\<exists>st'. add_path sample_env (Some ''/home/u/secret'') 1 sample_state = (0, st') \<and>
     restricted st' = [''/home/u/secret''] \<and>
     check_black_list sample_env st' (Some ''/home/u/secret'') False = Some 0"
proof -
  have "wf_list sample_state" by (simp add: wf_list_def)
  moreover have "forbitten_path sample_state (Some ''/home/u/secret'') = 0"
    by (simp add: forbitten_path_eq forbidden_prefixes_def cstr_id)
  ultimately show ?thesis
    using add_path_listed [of sample_env 1 11 sample_state "''/home/u/secret''" sample_env False]
      sample_env_ok by auto
qed

text \<open>
  A deletion that means what it says: if the given path is a prefix of no other listed path, its
  entry and no other is dropped, and the inode it leads to gets back the recorded mode and flags.
\<close>

theorem del_path_exact:
  assumes "vfs_ok e" "uninit e V_del_path_err = 0" "wf_list st" "NUL \<notin> set p"
    and "p \<in> set (restricted st)" "\<forall>q \<in> set (restricted st). prefix p q \<longrightarrow> q = p"
    and "kern_path e p = Inr d" "d_inode e d = Some i"
  shows "\<exists>st'. del_path e (Some p) st = (0, st') \<and> restricted st' = remove1 p (restricted st) \<and>
           wf_list st' \<and>
           (\<exists>entry \<in> set (restrict_path_list st). entry_path entry = p \<and>
              i_mode (inodes st' i) = ucast (o_mode entry) \<and> i_flags (inodes st' i) = o_flags entry)"
proof -
  obtain r ino es where loop: "del_loop e p (inodes st) (restrict_path_list st) = (r, ino, es)"
    by (metis prod_cases3)
  show ?thesis
    using assms(4) wf_list_no_NUL [OF assms(3)] loop
  proof (cases rule: del_loop_cases)
    case missing
    with assms(5) show ?thesis by auto
  next
    case (found xs entry ys)
    from found(1,3) assms(6) have p: "entry_path entry = p" by auto
    from found(4) have "p \<notin> set (map entry_path xs)" by auto
    then have rem: "map entry_path es = remove1 p (restricted st)"
      using found(1,2) p by (simp add: remove1_append)
    have d: "del_path e (Some p) st = (0, st\<lparr>inodes := ino, restrict_path_list := es\<rparr>)"
      and ino: "ino i = restore_inode entry (current_time e i) (inodes st i)"
      using assms(2,7,8) loop found(5) p by (auto simp: del_path_def)
    have wf: "wf_list (st\<lparr>inodes := ino, restrict_path_list := es\<rparr>)"
      using assms(3) del_path_subseq [OF d] wf_list_subseq by fastforce
    have modes: "i_mode (ino i) = ucast (o_mode entry)" "i_flags (ino i) = o_flags entry"
      by (simp_all add: ino restore_inode_def mark_inode_dirty_def)
    have "entry \<in> set (restrict_path_list st)" using found(1) by simp
    then show ?thesis
      using d rem wf modes p
      by (intro exI [of _ "st\<lparr>inodes := ino, restrict_path_list := es\<rparr>"] conjI bexI [of _ entry]) simp_all
  qed
qed

text \<open>
  Deletion compares only as many bytes as the given path has. When a longer path that begins
  with it was listed later, the longer path is dropped instead and the given one stays restricted,
  although the call reports success.
\<close>

theorem del_path_drops_longer:
  assumes "uninit e V_del_path_err = 0" "NUL \<notin> set p" "NUL \<notin> set s"
    and "restrict_path_list st = longer # es" "entry_path longer = p @ s" "p \<in> set (map entry_path es)"
    and "kern_path e (p @ s) = Inr d" "d_inode e d = Some i"
  shows "\<exists>st'. del_path e (Some p) st = (0, st') \<and> restrict_path_list st' = es \<and> p \<in> set (restricted st')"
  using assms by (simp add: del_path_def strncmp_strlen_prefix cstr_id)

theorem del_path_drops_longer_witness:
  "\<exists>st'. del_path sample_env (Some ''/home/u/secret'')
           (sample_state\<lparr>restrict_path_list := [sample_entry2, sample_entry]\<rparr>) = (0, st') \<and>
         restrict_path_list st' = [sample_entry] \<and> ''/home/u/secret'' \<in> set (restricted st')"
  using del_path_drops_longer [of sample_env "''/home/u/secret''" "''2''"
      "sample_state\<lparr>restrict_path_list := [sample_entry2, sample_entry]\<rparr>" sample_entry2 "[sample_entry]" 3 13]
    sample_env_ok by simp

theorem del_path_exact_witness:
  "\<exists>st'. del_path sample_env (Some ''/home/u/secret2'')
           (sample_state\<lparr>restrict_path_list := [sample_entry2, sample_entry]\<rparr>) = (0, st') \<and>
         restricted st' = [''/home/u/secret'']"
proof -
  let ?st = "sample_state\<lparr>restrict_path_list := [sample_entry2, sample_entry]\<rparr>"
  have wf: "wf_list ?st" by (simp add: wf_list_def forbitten_path_eq forbidden_prefixes_def cstr_id)
  show ?thesis
    using del_path_exact [of sample_env ?st "''/home/u/secret2''" 3 13] sample_env_ok wf
    by auto
qed

text \<open>
  C19: switching protection off undoes it: if a path's entry records an inode's mode and flags and the
  inode has since been marked read-only, then restoring gives the inode the recorded mode and
  flags again, provided no older entry leads to the same inode.
\<close>

theorem restore_undoes_protection:
  assumes "restrict_path_list st = xs @ entry # ys" "resolves_to e (entry_path entry) i"
    and "\<forall>x \<in> set ys. \<not> resolves_to e (entry_path x) i"
    and "o_mode entry = ucast (i_mode orig)" "o_flags entry = i_flags orig"
    and "inodes st i = mark_inode_read_only orig"
  shows "i_mode (inodes (snd (restore_black_list_entries e st)) i) = i_mode orig \<and>
         i_flags (inodes (snd (restore_black_list_entries e st)) i) = i_flags orig"
proof -
  have "inodes (snd (restore_black_list_entries e st)) =
      snd (restore_loop e (restrict_path_list st) (uninit e V_restore_ret, inodes st))"
    by (simp add: restore_black_list_entries_def split: prod.splits)
  moreover have "ucast (ucast (i_mode orig) :: 32 word) = i_mode orig"
    by (simp add: ucast_up_ucast_id is_up)
  ultimately show ?thesis
    using restore_loop_last [OF assms(1-3)] assms(4,5) by simp
qed

theorem restore_undoes_protection_witness:
  "i_mode (inodes (snd (restore_black_list_entries sample_env
     (sample_state\<lparr>restrict_path_list := [sample_entry],
        inodes := sample_inodes(11 := mark_inode_read_only (sample_inodes 11))\<rparr>))) 11) = 0x81B6"
  using restore_undoes_protection [of "sample_state\<lparr>restrict_path_list := [sample_entry],
        inodes := sample_inodes(11 := mark_inode_read_only (sample_inodes 11))\<rparr>" "[]" sample_entry "[]"
      sample_env 11 "sample_inodes 11"]
  by (simp add: resolves_to_def sample_entry_def sample_inodes_def)

end
