(* ===== verification/Ref_Syscalls.thy ===== *)
theory Ref_Syscalls
  imports Restrict_List
begin

text \<open>
  \<^verbatim>\<open>reference-monitor/lib/reference_syscalls.c\<close> (the three operations of the administrator) and the
  system call wrappers of \<^verbatim>\<open>reference_monitor.c\<close> that copy their arguments from user space. Each
  operation is one function here, run by a thread alone; \<open>Monitor_Threads\<close> cuts it at its locks. This is
  the build without \<^verbatim>\<open>NO_LOCK\<close>, the default target of the Makefile; \<open>No_Lock\<close> has the other one.
  The outer \<open>option\<close> is \<open>None\<close> only where \<open>hash_plaintext\<close> or \<open>fill_absolute_path\<close> leave defined
  behaviour.
\<close>

section \<open>Definitions\<close>

definition check_pwd :: "kenv \<Rightarrow> rm_state \<Rightarrow> string option \<Rightarrow> int option" where
  "check_pwd e st try_password =
     do {
       h \<leftarrow> hash_plaintext e (Some (salt st)) (Some (replicate DIGEST_SIZE NUL)) try_password;
       (case h of
          Inl ret \<Rightarrow> Some ret
        | Inr tmp \<Rightarrow> Some (strncmp tmp (pwd st) DIGEST_SIZE))
     }"

text \<open>
  The loops \<open>for (i = 0; i < HOOKS_SIZE; i++) enable_kretprobe(&probes[i])\<close> and its opposite. Both calls
  can fail only for a probe that is not registered or has gone with the module it was placed in;
  the four are registered as long as the module is loaded and sit in the kernel itself. The code
  ignores the result.
\<close>

definition set_probes :: "bool \<Rightarrow> rm_state \<Rightarrow> rm_state" where
  "set_probes on st =
     st\<lparr>probes := map (enabled_update (\<lambda>_. on)) (take HOOKS_SIZE (probes st)) @
                  drop HOOKS_SIZE (probes st)\<rparr>"

definition do_change_state ::
    "kenv \<Rightarrow> rm_state \<Rightarrow> string option \<Rightarrow> int \<Rightarrow> (int \<times> rm_state) option" where
  "do_change_state e st the_pwd the_state =
     (if euid e \<noteq> admin st then Some (- EPERM, st)
      else if the_pwd = None \<or>
              (the_state \<noteq> ON \<and> the_state \<noteq> OFF \<and> the_state \<noteq> REC_ON \<and> the_state \<noteq> REC_OFF)
      then Some (- EINVAL, st)
      else do {
        ret \<leftarrow> check_pwd e st the_pwd;
        (if ret \<noteq> 0 then Some (- EACCES, st)
         else if current_state st = word_of_int the_state then Some (- ECANCELED, st)
         else
           let st1 = st\<lparr>current_state := word_of_int the_state\<rparr> in
           if current_state st1 AND word_of_int REC_ON \<noteq> 0 \<or> current_state st1 AND word_of_int ON \<noteq> 0
           then Some (0, set_probes True st1)
           else Some (0, snd (restore_black_list_entries e (set_probes False st1))))
      })"

definition do_change_path ::
    "kenv \<Rightarrow> rm_state \<Rightarrow> string option \<Rightarrow> cbuf option \<Rightarrow> int \<Rightarrow> (int \<times> rm_state) option" where
  "do_change_path e st the_pwd the_path op =
     (if euid e \<noteq> admin st then Some (- EPERM, st)
      else if the_path = None then Some (- EINVAL, st)
      else if op \<noteq> ADD_PATH \<and> op \<noteq> REMOVE_PATH then Some (- EINVAL, st)
      else do {
        chk \<leftarrow> check_pwd e st the_pwd;
        (if chk \<noteq> 0 then Some (- EACCES, st)
         else if \<not> (current_state st = word_of_int REC_OFF \<or> current_state st = word_of_int REC_ON)
         then Some (- ECANCELED, st)
         else do {
           (ret, b) \<leftarrow> fill_absolute_path e the_path;
           (if ret \<noteq> 0 then Some (ret, st)
            else if forbitten_path st (Some (cstr b)) \<noteq> 0 then Some (- EINVAL, st)
            else case kern_path e (cstr b) of
                   Inl err \<Rightarrow> Some (err, st)
                 | Inr path \<Rightarrow>
                     let (r1, st1) = (if op AND ADD_PATH \<noteq> 0 then add_path e (Some (cstr b)) path st
                                      else (0, st))
                     in Some (if op AND REMOVE_PATH \<noteq> 0 then del_path e (Some (cstr b)) st1
                              else (r1, st1)))
         })
      })"

text \<open>\<open>strncpy(dst, src, n)\<close> with \<open>n\<close> the size of the destination: padded with NUL.\<close>

definition strncpy_pad :: "nat \<Rightarrow> char list \<Rightarrow> cbuf" where
  "strncpy_pad n src = take n (cstr src @ replicate n NUL)"

definition do_change_password ::
    "kenv \<Rightarrow> rm_state \<Rightarrow> string option \<Rightarrow> string option \<Rightarrow> (int \<times> rm_state) option" where
  "do_change_password e st old_password new_password =
     (if euid e \<noteq> admin st then Some (- EPERM, st)
      else case (old_password, new_password) of
        (Some old, Some new) \<Rightarrow>
          if length new \<le> 8 then Some (- EINVAL, st)
          else if strcmp old new = 0 then Some (- EINVAL, st)
          else do {
            ret \<leftarrow> check_pwd e st (Some old);
            (if ret \<noteq> 0 then Some (- EINVAL, st)
             else do {
               h \<leftarrow> hash_plaintext e (Some (salt st)) (Some (replicate DIGEST_SIZE NUL)) (Some new);
               (case h of
                  Inl err \<Rightarrow> Some (err, st)
                | Inr tmp \<Rightarrow> Some (0, st\<lparr>pwd := strncpy_pad DIGEST_SIZE tmp\<rparr>))
             })
          }
      | _ \<Rightarrow> Some (- EINVAL, st))"

subsection \<open>System call wrappers\<close>

text \<open>
  A user pointer is \<open>None\<close> for NULL and otherwise the bytes that can be read from it. The local
  array of \<open>MAX_FROM_USER\<close> bytes is read as a string, on into the memory behind it when the user
  passed no terminator.
\<close>

definition user_bytes :: "char list option \<Rightarrow> char list" where
  "user_bytes p = (case p of None \<Rightarrow> [] | Some m \<Rightarrow> m)"

definition sys_change_state ::
    "kenv \<Rightarrow> rm_state \<Rightarrow> char list option \<Rightarrow> int \<Rightarrow> (int \<times> rm_state) option" where
  "sys_change_state e st upwd state =
     (if upwd = None then Some (- EINVAL, st)
      else
        let (ret, from_user_password) = copy_from_user (user_bytes upwd) MAX_FROM_USER in
        if int ret < 0 then Some (- EINVAL, st)
        else do_change_state e st (Some (cstr (from_user_password @ stack_after e))) state)"

definition sys_change_paths ::
    "kenv \<Rightarrow> rm_state \<Rightarrow> char list option \<Rightarrow> char list option \<Rightarrow> int \<Rightarrow> (int \<times> rm_state) option" where
  "sys_change_paths e st upwd path op =
     (if upwd = None \<or> path = None then Some (- EINVAL, st)
      else
        let (ret, from_user_password) = copy_from_user (user_bytes upwd) MAX_FROM_USER in
        if int ret < 0 then Some (- EINVAL, st)
        else if \<not> alloc_ok e A_from_user_path then Some (- ENOMEM, st)
        else
          let (ret, bytes) = copy_from_user (user_bytes path) MAX_FROM_USER;
              from_user_path = bytes @ replicate (PATH_MAX - MAX_FROM_USER) NUL in
          if int ret < 0 then Some (- EINVAL, st)
          else do_change_path e st (Some (cstr (from_user_password @ stack_after e)))
                 (Some from_user_path) op)"

definition sys_change_password ::
    "kenv \<Rightarrow> rm_state \<Rightarrow> char list option \<Rightarrow> char list option \<Rightarrow> (int \<times> rm_state) option" where
  "sys_change_password e st old_password new_password =
     (let (ret, from_user_password_old) = copy_from_user (user_bytes old_password) MAX_FROM_USER in
      if int ret < 0 then Some (- EACCES, st)
      else
        let (ret, from_user_password_new) = copy_from_user (user_bytes new_password) MAX_FROM_USER in
        if int ret < 0 then Some (- EACCES, st)
        else do_change_password e st (Some (cstr (from_user_password_old @ stack_after e)))
               (Some (cstr (from_user_password_new @ stack_after e))))"

text \<open>The buffer of \<open>sys_change_paths\<close> ends in a terminator, so every string read from it stays inside.\<close>

lemma from_user_path_buf: "path_buf (snd (copy_from_user u MAX_FROM_USER) @ replicate (PATH_MAX - MAX_FROM_USER) NUL)"
  by (simp add: path_buf_def MAX_FROM_USER_eq PATH_MAX_def)

lemma resolved_user_path_buf:
  assumes "vfs_ok e" "fill_absolute_path e (Some (snd (copy_from_user u MAX_FROM_USER) @ replicate (PATH_MAX - MAX_FROM_USER) NUL)) = Some (r, b)"
  shows "c_string b = Some (cstr b)"
  using path_buf_terminated [OF path_buf_fill_absolute_path [OF assms(1) from_user_path_buf assms(2)]] by (simp add: c_string_def)

section \<open>The password check\<close>

text \<open>\<open>stored e st p\<close>: the password array holds the digest of \<open>p\<close> under the salt in use.\<close>

definition stored :: "kenv \<Rightarrow> rm_state \<Rightarrow> string \<Rightarrow> bool" where
  "stored e st p = (pwd st = digest_string e (salt st) p)"

definition crypto_env :: "kenv \<Rightarrow> bool" where
  "crypto_env e = (zeroed e \<and> mem_ok e \<and> sha512_ok e)"

lemma check_pwd_eq:
  assumes "crypto_env e" "stored e st p" "NUL \<notin> set q"
  shows "\<exists>r. check_pwd e st (Some q) = Some r \<and> (r = 0) = (digest e (salt st) q = digest e (salt st) p)"
  using assms strncmp_digest [of e "salt st" q "salt st" p]
  by (simp add: check_pwd_def crypto_env_def stored_def hash_plaintext_zeroed)

lemma check_pwd_correct_pwd:
  assumes "crypto_env e" "stored e st p" "NUL \<notin> set p"
  shows "check_pwd e st (Some p) = Some 0"
  using check_pwd_eq [OF assms] by auto

lemma strncpy_pad_digest:
  "sha512_ok e \<Longrightarrow> strncpy_pad DIGEST_SIZE (digest_string e sa p) = digest_string e sa p"
  by (simp add: strncpy_pad_def digest_string_def digest_def cstr_append hash_sizes)

section \<open>Changing the state\<close>

definition is_rm_state :: "int \<Rightarrow> bool" where
  "is_rm_state s = (s \<in> {ON, OFF, REC_ON, REC_OFF})"

definition enabling :: "int \<Rightarrow> bool" where
  "enabling s = (s \<in> {ON, REC_ON})"

lemma enabling_mask:
  "is_rm_state s \<Longrightarrow>
     (word_of_int s AND word_of_int REC_ON \<noteq> (0 :: 64 word) \<or> word_of_int s AND word_of_int ON \<noteq> (0 :: 64 word)) =
     enabling s"
  by (auto simp: is_rm_state_def enabling_def)

text \<open>What a granted request does.\<close>

definition switch_state :: "kenv \<Rightarrow> int \<Rightarrow> rm_state \<Rightarrow> rm_state" where
  "switch_state e s st =
     (let st1 = st\<lparr>current_state := word_of_int s\<rparr> in
      if enabling s then set_probes True st1
      else snd (restore_black_list_entries e (set_probes False st1)))"

lemma do_change_state_eq:
  assumes "check_pwd e st pw = Some c"
  shows "do_change_state e st pw s =
    Some (if euid e \<noteq> admin st then (- EPERM, st)
          else if pw = None \<or> \<not> is_rm_state s then (- EINVAL, st)
          else if c \<noteq> 0 then (- EACCES, st)
          else if current_state st = word_of_int s then (- ECANCELED, st)
          else (0, switch_state e s st))"
  using assms enabling_mask [of s]
  by (auto simp: do_change_state_def is_rm_state_def switch_state_def Let_def)

lemma set_probes_simps [simp]:
  "pwd (set_probes on st) = pwd st" "salt (set_probes on st) = salt st"
  "admin (set_probes on st) = admin st" "current_state (set_probes on st) = current_state st"
  "single_file_name (set_probes on st) = single_file_name st"
  "restrict_path_list (set_probes on st) = restrict_path_list st"
  "inodes (set_probes on st) = inodes st" "deferred_queue (set_probes on st) = deferred_queue st"
  "length (probes (set_probes on st)) = length (probes st)"
  by (simp_all add: set_probes_def)

lemma restore_snd_simps [simp]:
  "pwd (snd (restore_black_list_entries e st)) = pwd st"
  "salt (snd (restore_black_list_entries e st)) = salt st"
  "admin (snd (restore_black_list_entries e st)) = admin st"
  "current_state (snd (restore_black_list_entries e st)) = current_state st"
  "single_file_name (snd (restore_black_list_entries e st)) = single_file_name st"
  "restrict_path_list (snd (restore_black_list_entries e st)) = restrict_path_list st"
  "probes (snd (restore_black_list_entries e st)) = probes st"
  "deferred_queue (snd (restore_black_list_entries e st)) = deferred_queue st"
  by (simp_all add: restore_black_list_entries_def split: prod.splits)

lemma switch_state_simps [simp]:
  "pwd (switch_state e s st) = pwd st" "salt (switch_state e s st) = salt st"
  "admin (switch_state e s st) = admin st" "current_state (switch_state e s st) = word_of_int s"
  "single_file_name (switch_state e s st) = single_file_name st"
  "restrict_path_list (switch_state e s st) = restrict_path_list st"
  "deferred_queue (switch_state e s st) = deferred_queue st"
  "length (probes (switch_state e s st)) = length (probes st)"
  by (simp_all add: switch_state_def Let_def)

lemma switch_state_probes:
  "length (probes st) = HOOKS_SIZE \<Longrightarrow> \<forall>p \<in> set (probes (switch_state e s st)). enabled p = enabling s"
  by (simp add: switch_state_def Let_def set_probes_def)

lemma switch_state_inodes:
  "inodes (switch_state e s st) =
     (if enabling s then inodes st else inodes (snd (restore_black_list_entries e st)))"
  by (simp add: switch_state_def Let_def restore_black_list_entries_def split: prod.splits)

section \<open>Changing the list\<close>

lemma do_change_path_Some:
  assumes "do_change_path e st pw pb op = Some (r, st')" "vfs_ok e \<and> r = 0 \<or> st' \<noteq> st"
  obtains b d where "euid e = admin st" "check_pwd e st pw = Some 0"
    "current_state st = word_of_int REC_OFF \<or> current_state st = word_of_int REC_ON"
    "fill_absolute_path e pb = Some (0, b)" "forbitten_path st (Some (cstr b)) = 0"
    "kern_path e (cstr b) = Inr d"
    "op = ADD_PATH \<and> add_path e (Some (cstr b)) d st = (r, st') \<or>
     op = REMOVE_PATH \<and> del_path e (Some (cstr b)) st = (r, st')"
proof -
  from assms have *: "euid e = admin st" "op = ADD_PATH \<or> op = REMOVE_PATH" "check_pwd e st pw = Some 0"
    "current_state st = word_of_int REC_OFF \<or> current_state st = word_of_int REC_ON"
    by (auto simp: do_change_path_def bind_eq_Some_conv split: if_splits)
  with assms obtain ret b where fill: "fill_absolute_path e pb = Some (ret, b)" and "ret = 0"
    by (auto simp: do_change_path_def bind_eq_Some_conv split: if_splits)
  with * assms have "forbitten_path st (Some (cstr b)) = 0"
    by (auto simp: do_change_path_def split: if_splits)
  moreover from this * assms fill \<open>ret = 0\<close> obtain d where "kern_path e (cstr b) = Inr d"
    by (cases "kern_path e (cstr b)")
       (auto simp: do_change_path_def split: if_splits dest: vfs_ok_errD)
  ultimately show ?thesis
    using * assms fill \<open>ret = 0\<close>
    by (intro that [of b d]) (auto simp: do_change_path_def split: if_splits prod.splits)
qed

text \<open>
  A granted request on a buffer with a clear tail: what is handed to the list is the kernel's name
  of the entry found.
\<close>

lemma do_change_path_granted:
  assumes "vfs_ok e" "mem_ok e" "euid e = admin st" "check_pwd e st pw = Some 0"
    and "current_state st = word_of_int REC_ON \<or> current_state st = word_of_int REC_OFF"
    and "clean b" "lookup_name e (cstr b) = Some q" "kern_path e q = Inr d0"
    and "dentry_path_raw e d0 PATH_MAX = Inr full" "forbitten_path st (Some full) = 0" "kern_path e full = Inr d"
  shows "do_change_path e st pw (Some b) ADD_PATH = Some (add_path e (Some full) d st)"
    and "do_change_path e st pw (Some b) REMOVE_PATH = Some (del_path e (Some full) st)"
proof -
  have "fill_absolute_path e (Some b) = Some (0, clean_buf full)"
    by (rule fill_absolute_path_found [OF assms(1,2,6-9)])
  moreover have "cstr (clean_buf full) = full" using vfs_ok_rawD [OF assms(1,9)] by simp
  moreover have "(0x10::int) AND 0x20 = 0" "(0x20::int) AND 0x10 = 0" by simp_all
  ultimately show "do_change_path e st pw (Some b) ADD_PATH = Some (add_path e (Some full) d st)"
    and "do_change_path e st pw (Some b) REMOVE_PATH = Some (del_path e (Some full) st)"
    using assms(3-5,10,11) by (auto simp: do_change_path_def split: prod.splits)
qed

section \<open>Changing the password\<close>

lemma do_change_password_eq:
  assumes "crypto_env e" "stored e st p" "NUL \<notin> set old" "NUL \<notin> set new"
  shows "do_change_password e st (Some old) (Some new) =
    Some (if euid e \<noteq> admin st then (- EPERM, st)
          else if length new \<le> 8 \<or> old = new \<or> digest e (salt st) old \<noteq> digest e (salt st) p
          then (- EINVAL, st)
          else (0, st\<lparr>pwd := digest_string e (salt st) new\<rparr>))"
proof -
  obtain r where r: "check_pwd e st (Some old) = Some r"
    and r0: "(r = 0) = (digest e (salt st) old = digest e (salt st) p)"
    using check_pwd_eq [OF assms(1-3)] by blast
  have h: "hash_plaintext e (Some (salt st)) (Some c) (Some new) =
      Some (Inr (digest_string e (salt st) new))" for c
    using assms(1,4) by (simp add: crypto_env_def hash_plaintext_zeroed)
  have pad: "strncpy_pad DIGEST_SIZE (digest_string e (salt st) new) = digest_string e (salt st) new"
    using assms(1) by (simp add: crypto_env_def strncpy_pad_digest)
  show ?thesis
    using assms(3,4) by (simp add: do_change_password_def r h pad strcmp_eq_0 cstr_id r0)
qed

section \<open>Requests to the monitor\<close>

datatype request =
    ChangeState "string option" int
  | ChangePath "string option" "cbuf option" int
  | ChangePassword "string option" "string option"

fun perform :: "kenv \<Rightarrow> request \<Rightarrow> rm_state \<Rightarrow> (int \<times> rm_state) option" where
  "perform e (ChangeState pw s) st = do_change_state e st pw s"
| "perform e (ChangePath pw p op) st = do_change_path e st pw p op"
| "perform e (ChangePassword old new) st = do_change_password e st old new"

primrec run_requests ::
    "('env \<Rightarrow> 'req \<Rightarrow> 's \<Rightarrow> (int \<times> 's) option) \<Rightarrow> ('env \<times> 'req) list \<Rightarrow> 's \<Rightarrow> (int list \<times> 's) option" where
  "run_requests f [] s = Some ([], s)"
| "run_requests f (x # xs) s =
     do {
       (r, s') \<leftarrow> f (fst x) (snd x) s;
       (rs, s'') \<leftarrow> run_requests f xs s';
       Some (r # rs, s'')
     }"

text \<open>
  The contract all administrator operations share: a caller without privilege gets \<open>-EPERM\<close> and
  changes nothing, and who is privileged is never changed by an operation.
\<close>

locale admin_operation =
  fixes operation :: "'env \<Rightarrow> 'req \<Rightarrow> 's \<Rightarrow> (int \<times> 's) option"
    and privileged :: "'env \<Rightarrow> 's \<Rightarrow> bool"
  assumes denied: "\<not> privileged e s \<Longrightarrow> operation e a s = Some (- EPERM, s)"
    and stable: "operation e a s = Some (r, s') \<Longrightarrow> privileged e' s' = privileged e' s"
begin

lemma run_denied:
  "\<forall>x \<in> set reqs. \<not> privileged (fst x) s \<Longrightarrow>
     run_requests operation reqs s = Some (replicate (length reqs) (- EPERM), s)"
  by (induction reqs) (auto simp: denied)

lemma run_stable:
  "run_requests operation reqs s = Some (rs, s') \<Longrightarrow> privileged e s' = privileged e s"
proof (induction reqs arbitrary: s rs)
  case (Cons x xs)
  then obtain r s1 rs1 where "operation (fst x) (snd x) s = Some (r, s1)"
    and "run_requests operation xs s1 = Some (rs1, s')"
    by (auto simp: bind_eq_Some_conv)
  then show ?case using Cons.IH stable by blast
qed simp

lemma run_effect_privileged:
  "run_requests operation reqs s = Some (rs, s') \<Longrightarrow> s' \<noteq> s \<Longrightarrow> \<exists>x \<in> set reqs. privileged (fst x) s"
  using run_denied by fastforce

end

definition is_admin :: "kenv \<Rightarrow> rm_state \<Rightarrow> bool" where
  "is_admin e st = (euid e = admin st)"

lemma do_change_state_admin:
  "do_change_state e st pw s = Some (r, st') \<Longrightarrow> admin st' = admin st"
  by (auto simp: do_change_state_def bind_eq_Some_conv Let_def split: if_splits)

lemma do_change_path_admin:
  "do_change_path e st pw p op = Some (r, st') \<Longrightarrow> admin st' = admin st"
  by (cases "st' = st") (auto simp: rm_frame elim!: do_change_path_Some)

lemma do_change_password_admin:
  "do_change_password e st old new = Some (r, st') \<Longrightarrow> admin st' = admin st"
  by (auto simp: do_change_password_def split: if_splits option.split_asm sum.split_asm Option.bind_split_asm)

interpretation requests: admin_operation perform is_admin
proof unfold_locales
  fix e s a
  assume "\<not> is_admin e s"
  then show "perform e a s = Some (- EPERM, s)"
    by (cases a) (simp_all add: is_admin_def do_change_state_def do_change_path_def do_change_password_def)
next
  fix e s a r s' e'
  assume "perform e a s = Some (r, s')"
  then have "admin s' = admin s"
    by (cases a) (auto dest: do_change_state_admin do_change_path_admin do_change_password_admin)
  then show "is_admin e' s' = is_admin e' s" by (simp add: is_admin_def)
qed

section \<open>The invariant of the monitor\<close>

text \<open>
  The state is one of the four of the specification, the four probes are armed exactly in the
  states that protect, and the list is well formed.
\<close>

definition wf_rm :: "rm_state \<Rightarrow> bool" where
  "wf_rm st = (wf_list st \<and> length (probes st) = HOOKS_SIZE \<and>
     (\<exists>s. is_rm_state s \<and> current_state st = word_of_int s \<and>
          (\<forall>p \<in> set (probes st). enabled p = enabling s)))"

lemma sample_crypto: "crypto_env sample_env" "stored sample_env sample_state ''RefMonitorPwd''"
  using sample_env_ok by (simp_all add: crypto_env_def stored_def)

lemma sample_forbitten:
  "forbitten_path sample_state (Some ''/home/u/secret'') = 0"
  by (simp add: forbitten_path_eq forbidden_prefixes_def cstr_id)

lemma sample_clean: "clean (clean_buf ''/home/u/secret'')"
  by (rule clean_clean_buf) (simp_all add: PATH_MAX_def)

lemma sample_wf_rm: "wf_rm sample_state"
proof -
  have "is_rm_state REC_OFF \<and> current_state sample_state = word_of_int REC_OFF \<and>
      (\<forall>p \<in> set (probes sample_state). enabled p = enabling REC_OFF)"
    using sample_probes by (simp add: is_rm_state_def enabling_def)
  then show ?thesis unfolding wf_rm_def by (simp add: wf_list_def HOOKS_SIZE_def exI [of _ REC_OFF])
qed

lemma sample_wf_list: "wf_list sample_state"
  using sample_wf_rm by (simp add: wf_rm_def)

lemma wf_list_cong:
  "restrict_path_list st' = restrict_path_list st \<Longrightarrow> single_file_name st' = single_file_name st \<Longrightarrow>
     wf_list st' = wf_list st"
  by (simp add: wf_list_def forbitten_path_cong [of st' st])

lemma wf_rm_cong:
  assumes "wf_rm st" "wf_list st'" "probes st' = probes st" "current_state st' = current_state st"
  shows "wf_rm st'"
  using assms by (simp add: wf_rm_def)

lemma wf_rm_switch:
  assumes "wf_rm st" "is_rm_state s"
  shows "wf_rm (switch_state e s st)"
proof -
  have "wf_list (switch_state e s st)" using assms(1) wf_list_cong [of "switch_state e s st" st] by (simp add: wf_rm_def)
  with assms show ?thesis
    using switch_state_probes [of st e s] by (auto simp: wf_rm_def)
qed

lemma wf_list_add_path:
  assumes "wf_list st" "add_path e (Some p) d st = (r, st')" "NUL \<notin> set p" "forbitten_path st (Some p) = 0"
  shows "wf_list st'"
  using assms(2)
proof (cases rule: add_path_cases)
  case (added i)
  with assms show ?thesis by (intro wf_list_push [of st st' p]) simp_all
qed (use assms in simp)

lemma wf_list_del_path:
  assumes "wf_list st" "del_path e (Some p) st = (r, st')"
  shows "wf_list st'"
  using assms wf_list_subseq del_path_subseq del_path_frame(5) by metis

lemma wf_rm_change_path:
  assumes "wf_rm st" "do_change_path e st pw pb op = Some (r, st')"
  shows "wf_rm st'"
proof (cases "st' = st")
  case False
  with assms(2) obtain b d where b: "forbitten_path st (Some (cstr b)) = 0"
    and st': "op = ADD_PATH \<and> add_path e (Some (cstr b)) d st = (r, st') \<or>
              op = REMOVE_PATH \<and> del_path e (Some (cstr b)) st = (r, st')"
    by (auto elim!: do_change_path_Some)
  from st' b assms(1) have "wf_list st'"
    by (auto simp: wf_rm_def intro: wf_list_add_path wf_list_del_path)
  moreover from st' have "probes st' = probes st" "current_state st' = current_state st"
    by (auto simp: rm_frame)
  ultimately show ?thesis by (rule wf_rm_cong [OF assms(1)])
qed (use assms in simp)

lemma wf_rm_change_state:
  assumes "wf_rm st" "do_change_state e st pw s = Some (r, st')"
  shows "wf_rm st'"
proof (cases "check_pwd e st pw")
  case None
  with assms show ?thesis by (auto simp: do_change_state_def split: if_splits)
next
  case (Some c)
  with assms show ?thesis
    using wf_rm_switch [OF assms(1), of s e] by (auto simp: do_change_state_eq split: if_splits)
qed

lemma wf_rm_change_password:
  assumes "wf_rm st" "do_change_password e st old new = Some (r, st')"
  shows "wf_rm st'"
proof -
  from assms(2) have "\<exists>d. st' = st\<lparr>pwd := d\<rparr> \<or> st' = st"
    by (auto simp: do_change_password_def
        split: if_splits option.split_asm sum.split_asm Option.bind_split_asm)
  then have same: "restrict_path_list st' = restrict_path_list st" "single_file_name st' = single_file_name st"
    "probes st' = probes st" "current_state st' = current_state st"
    by auto
  then have "wf_list st'" using assms(1) wf_list_cong [OF same(1,2)] by (simp add: wf_rm_def)
  from wf_rm_cong [OF assms(1) this same(3,4)] show ?thesis .
qed

lemmas wf_rm_requests = wf_rm_change_state wf_rm_change_path wf_rm_change_password

lemma perform_wf: "wf_rm st \<Longrightarrow> perform e q st = Some (r, st') \<Longrightarrow> wf_rm st'"
  by (cases q) (auto intro: wf_rm_requests)

section \<open>Properties\<close>

text \<open>
  C11: \<open>do_change_state\<close> on a monitor whose password is \<open>p\<close>, called with \<open>q\<close> and not interrupted, when the
  allocator hands out zeroed memory and neither an allocation nor the hash transform fails (without
  that even the right password can be refused, see \<open>salt_text_stale\<close>): it succeeds
  exactly for the administrator, a state of the specification other than the current one and a \<open>q\<close>
  with the digest of \<open>p\<close>. Then the state is the requested one, all probes are armed in ON and REC-ON and
  disarmed (with the inodes restored) in OFF and REC-OFF, and list, password and administrator
  are as before. Every refusal leaves the whole monitor unchanged.
\<close>

theorem change_state_correct:
  assumes "crypto_env e" "stored e st p" "NUL \<notin> set q" "length (probes st) = HOOKS_SIZE"
  shows "\<exists>r st'. do_change_state e st (Some q) s = Some (r, st') \<and>
    (r = 0) = (euid e = admin st \<and> is_rm_state s \<and> current_state st \<noteq> word_of_int s \<and>
               digest e (salt st) q = digest e (salt st) p) \<and>
    (if r = 0
     then current_state st' = word_of_int s \<and> (\<forall>pr \<in> set (probes st'). enabled pr = enabling s) \<and>
          restrict_path_list st' = restrict_path_list st \<and> pwd st' = pwd st \<and> admin st' = admin st \<and>
          inodes st' = (if enabling s then inodes st else inodes (snd (restore_black_list_entries e st)))
     else st' = st \<and> r \<in> {- EPERM, - EINVAL, - EACCES, - ECANCELED})"
proof -
  obtain c where c: "check_pwd e st (Some q) = Some c"
    and c0: "(c = 0) = (digest e (salt st) q = digest e (salt st) p)"
    using check_pwd_eq [OF assms(1-3)] by blast
  show ?thesis
    using c0 switch_state_probes [OF assms(4), of e s]
    by (simp add: do_change_state_eq [OF c] switch_state_inodes)
qed

theorem change_state_correct_witness:
  "\<exists>st'. do_change_state sample_env sample_state (Some ''RefMonitorPwd'') ON = Some (0, st') \<and>
     current_state st' = 1 \<and> (\<forall>pr \<in> set (probes st'). enabled pr)"
  using change_state_correct [of sample_env sample_state "''RefMonitorPwd''" "''RefMonitorPwd''" ON]
    sample_env_ok
  by (auto simp: crypto_env_def stored_def is_rm_state_def enabling_def HOOKS_SIZE_def)

text \<open>
  \<open>-EPERM\<close> for everybody else: whatever sequence of requests threads without the administrator's
  effective user id make, each is refused with \<open>-EPERM\<close> and the monitor stays as it was; a run that
  has any effect contains a request of the administrator.
\<close>

theorem unprivileged_requests_denied:
  assumes "\<forall>x \<in> set reqs. euid (fst x) \<noteq> admin st"
  shows "run_requests perform reqs st = Some (replicate (length reqs) (- EPERM), st)"
  using assms by (intro requests.run_denied) (simp add: is_admin_def)

theorem unprivileged_requests_denied_witness:
  "run_requests perform
     [(sample_env\<lparr>euid := 1000\<rparr>, ChangeState (Some ''RefMonitorPwd'') OFF),
      (sample_env\<lparr>euid := 1001\<rparr>, ChangePassword (Some ''RefMonitorPwd'') (Some ''a longer one''))] sample_state =
     Some ([- EPERM, - EPERM], sample_state)"
  using unprivileged_requests_denied [of "[(sample_env\<lparr>euid := 1000\<rparr>, ChangeState (Some ''RefMonitorPwd'') OFF),
      (sample_env\<lparr>euid := 1001\<rparr>, ChangePassword (Some ''RefMonitorPwd'') (Some ''a longer one''))]" sample_state]
  by (simp del: run_requests.simps)

text \<open>
  C13: who may edit the list, for a call that runs without interruption by another: if a request to
  change paths succeeds or changes anything, the caller is the administrator, the password check
  accepted the password (so that its digest is that of the stored one, when memory is handed out
  zeroed and allocation and hashing work), the monitor is in REC-ON or REC-OFF when the call starts,
  and what is added or deleted is the resolved name, which exists and is not forbidden.
\<close>

theorem change_path_authorised:
  assumes "vfs_ok e" "do_change_path e st pw pb op = Some (r, st')" "r = 0 \<or> st' \<noteq> st"
  shows "euid e = admin st \<and> check_pwd e st pw = Some 0 \<and>
    (\<forall>p q. crypto_env e \<and> stored e st p \<and> pw = Some q \<and> NUL \<notin> set q \<longrightarrow> digest e (salt st) q = digest e (salt st) p) \<and>
    (current_state st = word_of_int REC_ON \<or> current_state st = word_of_int REC_OFF) \<and>
    (\<exists>b d. fill_absolute_path e pb = Some (0, b) \<and> kern_path e (cstr b) = Inr d \<and>
       forbitten_path st (Some (cstr b)) = 0 \<and>
       (op = ADD_PATH \<and> add_path e (Some (cstr b)) d st = (r, st') \<or>
        op = REMOVE_PATH \<and> del_path e (Some (cstr b)) st = (r, st')))"
proof -
  from assms have "vfs_ok e \<and> r = 0 \<or> st' \<noteq> st" by blast
  note granted = do_change_path_Some [OF assms(2) this]
  then have "check_pwd e st pw = Some 0" by metis
  then have "\<forall>p q. crypto_env e \<and> stored e st p \<and> pw = Some q \<and> NUL \<notin> set q \<longrightarrow> digest e (salt st) q = digest e (salt st) p"
    using check_pwd_eq [of e st] by fastforce
  with granted show ?thesis by metis
qed

lemma sample_add:
  obtains st' where "do_change_path sample_env sample_state (Some ''RefMonitorPwd'')
    (Some (clean_buf ''/home/u/secret'')) ADD_PATH = Some (0, st')"
proof -
  have pw: "check_pwd sample_env sample_state (Some ''RefMonitorPwd'') = Some 0"
    by (rule check_pwd_correct_pwd [OF sample_crypto]) simp
  have "do_change_path sample_env sample_state (Some ''RefMonitorPwd'')
      (Some (clean_buf ''/home/u/secret'')) ADD_PATH = Some (add_path sample_env (Some ''/home/u/secret'') 1 sample_state)"
    using sample_env_ok pw sample_clean
    by (intro do_change_path_granted(1) [of _ _ _ _ "''/home/u/secret''" 1])
       (simp_all add: lookup_name_def sample_forbitten)
  moreover have "fst (add_path sample_env (Some ''/home/u/secret'') 1 sample_state) = 0"
    using sample_env_ok by (simp add: add_path_def is_path_in_def)
  ultimately show thesis using that by (metis prod.collapse)
qed

theorem change_path_authorised_witness:
  "\<exists>st'. do_change_path sample_env sample_state (Some ''RefMonitorPwd'') (Some (clean_buf ''/home/u/secret'')) ADD_PATH = Some (0, st') \<and>
     euid sample_env = admin sample_state \<and> check_pwd sample_env sample_state (Some ''RefMonitorPwd'') = Some 0 \<and>
     current_state sample_state = word_of_int REC_OFF"
proof -
  obtain st' where st': "do_change_path sample_env sample_state (Some ''RefMonitorPwd'')
      (Some (clean_buf ''/home/u/secret'')) ADD_PATH = Some (0, st')" by (rule sample_add)
  from change_path_authorised [OF sample_env_ok(4) st'] show ?thesis using st' by simp
qed

text \<open>
  C12: adding and removing a path. The administrator, with the password \<open>p\<close> and under reconfiguration,
  adds an existing path that is neither listed nor forbidden, given in a buffer with a clear tail in
  any form that leads to it, with memory handed out zeroed and no allocation failing. Both
  operations test an unassigned local: where it is not zero the addition returns its value, and
  the removal \<open>-ENOENT\<close>, without effect. Otherwise the addition succeeds, the kernel's name of the file is
  listed and found from then on, and removing it again succeeds and gives back the list as it was,
  with the inode's mode and flags restored to what they were when it was added.
\<close>

theorem change_path_add_remove:
  assumes "crypto_env e" "vfs_ok e" "stored e st p" "NUL \<notin> set p" "euid e = admin st" "wf_list st"
    and "current_state st = word_of_int REC_ON \<or> current_state st = word_of_int REC_OFF"
    and "clean b" "lookup_name e (cstr b) = Some q" "kern_path e q = Inr d0"
    and "dentry_path_raw e d0 PATH_MAX = Inr full" "kern_path e full = Inr d" "d_inode e d = Some i"
    and "forbitten_path st (Some full) = 0" "full \<notin> set (restricted st)"
  shows "if uninit e V_add_path_err \<noteq> 0
    then do_change_path e st (Some p) (Some b) ADD_PATH = Some (uninit e V_add_path_err, st)
    else \<exists>st1. do_change_path e st (Some p) (Some b) ADD_PATH = Some (0, st1) \<and>
      restricted st1 = full # restricted st \<and> check_black_list e st1 (Some full) False = Some 0 \<and>
      (if uninit e V_del_path_err \<noteq> 0
       then do_change_path e (st1\<lparr>inodes := ino\<rparr>) (Some p) (Some b) REMOVE_PATH = Some (- ENOENT, st1\<lparr>inodes := ino\<rparr>)
       else \<exists>st2. do_change_path e (st1\<lparr>inodes := ino\<rparr>) (Some p) (Some b) REMOVE_PATH = Some (0, st2) \<and>
         restrict_path_list st2 = restrict_path_list st \<and>
         i_mode (inodes st2 i) = i_mode (inodes st i) \<and> i_flags (inodes st2 i) = i_flags (inodes st i))"
proof -
  have env: "mem_ok e" using assms(1) by (simp add: crypto_env_def)
  have full: "NUL \<notin> set full" using vfs_ok_rawD [OF assms(2,11)] by simp
  let ?entry = "\<lparr>entry_path = full, entry_i_ino = i_ino (inodes st i),
    o_mode = ucast (i_mode (inodes st i)), o_flags = i_flags (inodes st i)\<rparr>"
  let ?st1 = "st\<lparr>restrict_path_list := ?entry # restrict_path_list st\<rparr>"
  have pw: "check_pwd e s (Some p) = Some 0" if "pwd s = pwd st" "salt s = salt st" for s
    using assms(3) that by (intro check_pwd_correct_pwd [OF assms(1) _ assms(4)]) (simp add: stored_def)
  have out: "is_path_in st (Some full) = 1"
    using path_in_loop_eq [OF full wf_list_no_NUL [OF assms(6)]] assms(15) by (simp add: is_path_in_def)
  have add: "do_change_path e st (Some p) (Some b) ADD_PATH = Some (add_path e (Some full) d st)"
    using do_change_path_granted(1) [OF assms(2) env assms(5) pw assms(7-11,14,12)] by simp
  have del: "do_change_path e (?st1\<lparr>inodes := ino\<rparr>) (Some p) (Some b) REMOVE_PATH =
      Some (del_path e (Some full) (?st1\<lparr>inodes := ino\<rparr>))"
    using assms(5,7,14) forbitten_path_cong [of "?st1\<lparr>inodes := ino\<rparr>" st "Some full"]
    by (intro do_change_path_granted(2) [OF assms(2) env _ pw _ assms(8-11) _ assms(12)]) simp_all
  show ?thesis
  proof (cases "uninit e V_add_path_err = 0")
    case False
    with add out show ?thesis by (simp add: add_path_def)
  next
    case True
    then have added: "add_path e (Some full) d st = (0, ?st1)"
      using env out assms(13) by (simp add: add_path_def)
    moreover have "check_black_list e ?st1 (Some full) False = Some 0"
      using check_black_list_eq [OF assms(2) wf_list_add_path [OF assms(6) added full assms(14)] full, of False] by simp
    moreover have "del_path e (Some full) (?st1\<lparr>inodes := ino\<rparr>) =
        (if uninit e V_del_path_err \<noteq> 0 then (- ENOENT, ?st1\<lparr>inodes := ino\<rparr>)
         else (0, st\<lparr>inodes := ino(i := restore_inode ?entry (current_time e i) (ino i))\<rparr>))"
      using full assms(12,13) by (simp add: del_path_def strncmp_strlen_prefix cstr_id)
    moreover have "ucast (ucast (i_mode (inodes st i)) :: 32 word) = i_mode (inodes st i)"
      by (simp add: ucast_up_ucast_id is_up)
    ultimately show ?thesis using True add del by (simp add: restore_inode_def mark_inode_dirty_def)
  qed
qed

theorem change_path_add_remove_witness:
  "\<exists>st1 st2. do_change_path sample_env sample_state (Some ''RefMonitorPwd'')
       (Some (clean_buf ''/home/u/secret'')) ADD_PATH = Some (0, st1) \<and>
     restricted st1 = [''/home/u/secret''] \<and>
     do_change_path sample_env (st1\<lparr>inodes := sample_inodes\<rparr>) (Some ''RefMonitorPwd'')
       (Some (clean_buf ''/home/u/secret'')) REMOVE_PATH = Some (0, st2) \<and> restrict_path_list st2 = []"
  using change_path_add_remove [of sample_env sample_state "''RefMonitorPwd''" "clean_buf ''/home/u/secret''"
      "''/home/u/secret''" 1 "''/home/u/secret''" 1 11 sample_inodes] sample_wf_list
  by (simp add: sample_crypto sample_env_ok sample_clean sample_forbitten lookup_name_def)
     (elim exE conjE, intro exI conjI, assumption+)

text \<open>
  Every request keeps the invariant of the monitor, whatever its arguments, its environment and
  its outcome.
\<close>

theorem requests_keep_invariant:
  assumes "wf_rm st" "perform e q st = Some (r, st')"
  shows "wf_rm st'"
  using assms by (rule perform_wf)

theorem requests_keep_invariant_witness:
  "\<exists>st'. perform sample_env (ChangePassword None None) sample_state = Some (- EINVAL, st') \<and> wf_rm st'"
proof -
  have "perform sample_env (ChangePassword None None) sample_state = Some (- EINVAL, sample_state)"
    by (simp add: do_change_password_def)
  then show ?thesis
    using requests_keep_invariant [of sample_state sample_env "ChangePassword None None"] sample_wf_rm by blast
qed

text \<open>
  After a successful change of password the new password is accepted, and an older one is
  accepted only if it has the same digest; a password of at most eight bytes, the old password
  itself and a wrong old password are refused with \<open>-EINVAL\<close> and change nothing.
\<close>

theorem change_password_correct:
  assumes "crypto_env e" "stored e st p" "NUL \<notin> set old" "NUL \<notin> set new" "euid e = admin st"
  shows "(if length new \<le> 8 \<or> old = new \<or> digest e (salt st) old \<noteq> digest e (salt st) p
          then do_change_password e st (Some old) (Some new) = Some (- EINVAL, st)
          else \<exists>st'. do_change_password e st (Some old) (Some new) = Some (0, st') \<and>
                 stored e st' new \<and> check_pwd e st' (Some new) = Some 0 \<and>
                 (check_pwd e st' (Some old) = Some 0) = (digest e (salt st) old = digest e (salt st) new) \<and>
                 st' = st\<lparr>pwd := pwd st'\<rparr>)"
proof -
  let ?st' = "st\<lparr>pwd := digest_string e (salt st) new\<rparr>"
  have s: "stored e ?st' new" by (simp add: stored_def)
  obtain r where "check_pwd e ?st' (Some old) = Some r"
    and "(r = 0) = (digest e (salt st) old = digest e (salt st) new)"
    using check_pwd_eq [OF assms(1) s assms(3)] by auto
  then show ?thesis
    using assms(5) s check_pwd_correct_pwd [OF assms(1) s assms(4)]
    by (simp add: do_change_password_eq [OF assms(1-4)])
qed

theorem change_password_correct_witness:
  "\<exists>st'. do_change_password sample_env sample_state (Some ''RefMonitorPwd'') (Some ''BrandNewPwd'') = Some (0, st') \<and>
     check_pwd sample_env st' (Some ''BrandNewPwd'') = Some 0"
  using change_password_correct [of sample_env sample_state "''RefMonitorPwd''" "''RefMonitorPwd''" "''BrandNewPwd''"]
    sample_env_ok
  by (auto simp: crypto_env_def stored_def)

text \<open>
  The system call wrapper passes on what the user wrote: if a terminator is among the first 256
  bytes, the request is the one for the string before it; a NULL password is \<open>-EINVAL\<close>.
\<close>

theorem sys_change_state_passes_string:
  assumes "NUL \<in> set (take MAX_FROM_USER m)"
  shows "sys_change_state e st (Some m) s = do_change_state e st (Some (cstr m)) s \<and>
         sys_change_state e st None s = Some (- EINVAL, st)"
proof -
  have "NUL \<in> set (snd (copy_from_user m MAX_FROM_USER))"
    using assms by (simp add: copy_from_user_def)
  then show ?thesis
    using cstr_copy_from_user [OF assms]
    by (cases "copy_from_user m MAX_FROM_USER") (simp add: sys_change_state_def user_bytes_def cstr_append_NUL)
qed

theorem sys_change_state_passes_string_witness:
  "sys_change_state sample_env sample_state (Some (''pw'' @ [NUL] @ ''junk'')) ON =
     do_change_state sample_env sample_state (Some ''pw'') ON"
  using sys_change_state_passes_string [of "''pw'' @ [NUL] @ ''junk''" sample_env sample_state ON]
  by (simp add: MAX_FROM_USER_eq)

end
