(* ===== verification/Append_Log.thy ===== *)
theory Append_Log
  imports RM_Prelude
begin

text \<open>
  The interface between the deferred work of the monitor and the file system that keeps its log:
  a file that only grows, for writes of at most \<open>limit\<close> bytes. The provider is the single-file file system, the client the work queue.
\<close>

locale append_log =
  fixes limit :: nat
    and invar :: "'fs \<Rightarrow> bool"
    and content :: "'fs \<Rightarrow> char list"
    and log_append :: "char list \<Rightarrow> 'fs \<Rightarrow> (int \<times> 'fs) option"
  assumes append_total: "invar fs \<Longrightarrow> length d \<le> limit \<Longrightarrow> \<exists>r fs'. log_append d fs = Some (r, fs')"
    and append_ok: "invar fs \<Longrightarrow> length d \<le> limit \<Longrightarrow> log_append d fs = Some (r, fs') \<Longrightarrow> r \<ge> 0 \<Longrightarrow>
            r = int (length d) \<and> content fs' = content fs @ d"
    and append_fail: "invar fs \<Longrightarrow> length d \<le> limit \<Longrightarrow> log_append d fs = Some (r, fs') \<Longrightarrow> r < 0 \<Longrightarrow> content fs' = content fs"
    and append_invar: "invar fs \<Longrightarrow> length d \<le> limit \<Longrightarrow> log_append d fs = Some (r, fs') \<Longrightarrow> invar fs'"
begin

lemma append_content:
  "invar fs \<Longrightarrow> length d \<le> limit \<Longrightarrow> log_append d fs = Some (r, fs') \<Longrightarrow>
     content fs' = content fs @ (if r \<ge> 0 then d else [])"
  using append_ok [of fs d r fs'] append_fail [of fs d r fs'] by simp

lemma append_prefix:
  "invar fs \<Longrightarrow> length d \<le> limit \<Longrightarrow> log_append d fs = Some (r, fs') \<Longrightarrow> prefix (content fs) (content fs')"
  by (simp add: append_content)

end

text \<open>A log that is known to take what fits: \<open>room\<close> bounds the bytes it accepts from below.\<close>

locale roomy_log = append_log +
  fixes room :: "'a \<Rightarrow> nat"
  assumes room_ok: "invar fs \<Longrightarrow> d \<noteq> [] \<Longrightarrow> length d \<le> limit \<Longrightarrow> length d \<le> room fs \<Longrightarrow>
            \<exists>fs'. log_append d fs = Some (int (length d), fs') \<and> room fs \<le> room fs' + length d"

end
