(* ===== verification/Singlefile_FS.thy ===== *)
theory Singlefile_FS
  imports Append_Log "HOL-Library.Signed_Division"
begin

text \<open>
  \<^verbatim>\<open>singlefile-FS\<close>: the file system of one file that keeps the log of the monitor
  (\<^verbatim>\<open>file.c\<close>, \<^verbatim>\<open>dir.c\<close>, \<^verbatim>\<open>singlefilefs_src.c\<close>, \<^verbatim>\<open>singlefilefs.h\<close>) and its formatting tool
  (\<^verbatim>\<open>singlefilemakefs.c\<close>). The device is a list of bytes: block 0 is the superblock, block 1 the
  inode of the file, the data start at block 2. The block layer is the argument \<open>io\<close>, which says
  which blocks can be read; a block outside the device never can. The block size of the mounted
  device is that of the code, 4096: the code never sets it, and relies on a device whose own block
  size this is, as that of a loop device on a file system with such blocks. A last block that is not
  whole counts as outside the device. \<open>loff_t\<close> values are integers with the wrap-around of their
  conversions written out; \<open>None\<close> is an access outside the block's buffer.
\<close>

section \<open>Definitions\<close>

abbreviation (input) DEFAULT_BLOCK_SIZE :: nat where "DEFAULT_BLOCK_SIZE \<equiv> 4096"
abbreviation (input) O_TRUNC_FLAG :: "32 word" where "O_TRUNC_FLAG \<equiv> 0x200"

definition MAGIC :: int where "MAGIC = 0x42424242"
definition UNIQUE_FILE_NAME :: string where "UNIQUE_FILE_NAME = ''the-file''"
definition FILENAME_MAXLEN :: nat where "FILENAME_MAXLEN = 255"
definition SINGLEFILEFS_ROOT_INODE_NUMBER :: nat where "SINGLEFILEFS_ROOT_INODE_NUMBER = 10"
definition SINGLEFILEFS_FILE_INODE_NUMBER :: nat where "SINGLEFILEFS_FILE_INODE_NUMBER = 1"
definition SINGLEFILEFS_INODES_BLOCK_NUMBER :: int where "SINGLEFILEFS_INODES_BLOCK_NUMBER = 1"
definition SB_BLOCK_NUMBER :: int where "SB_BLOCK_NUMBER = 0"

text \<open>A mounted device; \<open>i_size\<close> and \<open>cached\<close> describe inode 1 in the inode cache.\<close>

record sfs =
  device :: "char list"
  cached :: bool
  i_size :: int

definition sb_bread :: "(nat \<Rightarrow> bool) \<Rightarrow> char list \<Rightarrow> int \<Rightarrow> cbuf option" where
  "sb_bread io dev n =
     (if 0 \<le> n \<and> (nat n + 1) * DEFAULT_BLOCK_SIZE \<le> length dev \<and> io (nat n)
      then Some (take DEFAULT_BLOCK_SIZE (drop (nat n * DEFAULT_BLOCK_SIZE) dev)) else None)"

subsection \<open>\<^verbatim>\<open>file.c\<close>\<close>

definition onefilefs_open :: "32 word \<Rightarrow> int" where
  "onefilefs_open f_flags = (if f_flags AND O_TRUNC_FLAG \<noteq> 0 then - EINVAL else 0)"

definition onefilefs_release :: int where
  "onefilefs_release = 0"

text \<open>
  \<open>onefilefs_read\<close>: the result, the new offset and the bytes stored in the user's buffer, of which
  \<open>writable\<close> bytes can be written.
\<close>

definition onefilefs_read ::
    "(nat \<Rightarrow> bool) \<Rightarrow> sfs \<Rightarrow> nat \<Rightarrow> nat \<Rightarrow> int \<Rightarrow> (int \<times> int \<times> char list) option" where
  "onefilefs_read io fs writable len0 off =
     (let file_size = c_ulong (i_size fs) in
      if file_size = 0 then Some (0, off, [])
      else if c_ulong off \<ge> file_size then Some (0, off, [])
      else
        let len1 = (if c_ulong (off + int len0) > file_size then c_ulong (file_size - off) else int len0);
            offset = off smod int DEFAULT_BLOCK_SIZE;
            len = (if c_ulong (offset + len1) > int DEFAULT_BLOCK_SIZE
                   then c_ulong (int DEFAULT_BLOCK_SIZE - offset) else len1);
            block_to_read = c_int (off sdiv int DEFAULT_BLOCK_SIZE + 2)
        in case sb_bread io (device fs) block_to_read of
             None \<Rightarrow> Some (- EIO, off, [])
           | Some bh \<Rightarrow>
               if offset < 0 \<or> offset + len > int DEFAULT_BLOCK_SIZE then None
               else
                 let data = take (nat len) (drop (nat offset) bh) in
                 if int writable < len then Some (- EFAULT, off, take writable data)
                 else Some (c_long len, c_long (off + len), data))"

text \<open>
  The loop of \<open>onefilefs_write\<close>: result, device, position and number of bytes written. A failed copy
  has overwritten the rest of the chunk with NUL bytes.
\<close>

lemma smod_less: "x smod 4096 < (4096 :: int)"
  by (cases "0 \<le> x") (simp_all add: signed_modulo_int_def signed_divide_int_def sgn_if minus_div_mult_eq_mod)

function write_loop ::
    "(nat \<Rightarrow> bool) \<Rightarrow> char list \<Rightarrow> char list \<Rightarrow> int \<Rightarrow> nat \<Rightarrow> nat \<Rightarrow> (int \<times> char list \<times> int \<times> nat) option" where
  "write_loop io buf dev pos to_write written =
     (if to_write = 0 then Some (0, dev, pos, written)
      else
        let block_number = c_int (pos sdiv int DEFAULT_BLOCK_SIZE + 2);
            offset = pos smod int DEFAULT_BLOCK_SIZE
        in case sb_bread io dev block_number of
             None \<Rightarrow> Some (- EIO, dev, pos, written)
           | Some bh \<Rightarrow>
               if offset < 0 then None
               else
                 let write_len = min to_write (nat (int DEFAULT_BLOCK_SIZE - offset));
                     (ret, chunk) = copy_from_user (drop written buf) write_len;
                     dev' = splice (nat block_number * DEFAULT_BLOCK_SIZE + nat offset) chunk dev
                 in if ret \<noteq> 0 then Some (- EFAULT, dev', pos, written)
                    else write_loop io buf dev' (c_long (pos + int write_len))
                           (to_write - write_len) (written + write_len))"
  by pat_completeness auto
termination
  by (relation "measure (\<lambda>(io, buf, dev, pos, to_write, written). to_write)") (use smod_less in auto)

declare write_loop.simps [simp del]

definition onefilefs_write ::
    "(nat \<Rightarrow> bool) \<Rightarrow> nat \<Rightarrow> sfs \<Rightarrow> char list \<Rightarrow> nat \<Rightarrow> int \<Rightarrow> (int \<times> sfs \<times> int) option" where
  "onefilefs_write io max_file_size fs buf len off =
     (if c_ulong (i_size fs + int len) \<ge> int max_file_size then Some (- EFBIG, fs, off)
      else do {
        (res, dev, pos, written) \<leftarrow> write_loop io buf (device fs) (i_size fs) len 0;
        (if res \<noteq> 0 then Some (res, fs\<lparr>device := dev\<rparr>, off)
         else Some (c_long (int written), fs\<lparr>device := dev, i_size := max pos (i_size fs)\<rparr>, pos))
      })"

definition onefilefs_llseek :: "int \<Rightarrow> int \<Rightarrow> int \<Rightarrow> int" where
  "onefilefs_llseek f_pos offset whence = f_pos"

text \<open>Little-endian 64-bit fields of the structures on the device.\<close>

fun le_value :: "char list \<Rightarrow> int" where
  "le_value [] = 0"
| "le_value (c # cs) = of_char c + 256 * le_value cs"

definition le64 :: "cbuf \<Rightarrow> nat \<Rightarrow> int" where
  "le64 b i = le_value (take 8 (drop i b))"

fun le_bytes :: "nat \<Rightarrow> nat \<Rightarrow> char list" where
  "le_bytes 0 v = []"
| "le_bytes (Suc n) v = char_of (v mod 256) # le_bytes n (v div 256)"

datatype lookup_result = L_null | L_err int | L_entry

text \<open>\<open>onefilefs_lookup\<close>; \<open>iget_ok\<close> says that \<open>iget_locked\<close> gives an inode.\<close>

definition onefilefs_lookup ::
    "(nat \<Rightarrow> bool) \<Rightarrow> bool \<Rightarrow> sfs \<Rightarrow> string \<Rightarrow> lookup_result \<times> sfs" where
  "onefilefs_lookup io iget_ok fs name =
     (if strcmp name UNIQUE_FILE_NAME = 0 then
        if \<not> iget_ok then (L_err (- ENOMEM), fs)
        else if cached fs then (L_entry, fs)
        else (case sb_bread io (device fs) SINGLEFILEFS_INODES_BLOCK_NUMBER of
                None \<Rightarrow> (L_err (- EIO), fs)
              | Some bh \<Rightarrow> (L_entry, fs\<lparr>cached := True, i_size := c_long (le64 bh 24)\<rparr>))
      else (L_null, fs))"

subsection \<open>\<^verbatim>\<open>dir.c\<close>\<close>

text \<open>
  \<open>onefilefs_iterate\<close>: the new position and the entries handed to \<open>dir_emit\<close> that it took, each
  with the length the call states and its inode number. \<open>emit\<close> says whether \<open>dir_emit\<close> takes an entry.
\<close>

definition onefilefs_iterate :: "(string \<Rightarrow> bool) \<Rightarrow> int \<Rightarrow> int \<times> int \<times> (string \<times> nat \<times> nat) list" where
  "onefilefs_iterate emit pos0 =
     (if pos0 \<ge> 2 + 1 then (0, pos0, [])
      else if pos0 = 0 \<and> \<not> emit ''.'' then (0, pos0, [])
      else
        let (pos1, es1) = (if pos0 = 0
               then (pos0 + 1, [(''.'', FILENAME_MAXLEN, SINGLEFILEFS_ROOT_INODE_NUMBER)]) else (pos0, []))
        in if pos1 = 1 \<and> \<not> emit ''..'' then (0, pos1, es1)
           else
             let (pos2, es2) = (if pos1 = 1 then (pos1 + 1, es1 @ [(''..'', FILENAME_MAXLEN, 1)]) else (pos1, es1))
             in if pos2 = 2 \<and> \<not> emit UNIQUE_FILE_NAME then (0, pos2, es2)
                else if pos2 = 2
                then (0, pos2 + 1, es2 @ [(UNIQUE_FILE_NAME, FILENAME_MAXLEN, SINGLEFILEFS_FILE_INODE_NUMBER)])
                else (0, pos2, es2))"

subsection \<open>\<^verbatim>\<open>singlefilefs_src.c\<close>\<close>

text \<open>
  Mounting starts with an empty inode cache. \<open>iget_ok\<close> and \<open>root_ok\<close>: \<open>iget_locked\<close> and \<open>d_make_root\<close>
  succeed.
\<close>

definition singlefilefs_fill_super ::
    "(nat \<Rightarrow> bool) \<Rightarrow> bool \<Rightarrow> bool \<Rightarrow> char list \<Rightarrow> int + sfs" where
  "singlefilefs_fill_super io iget_ok root_ok dev =
     (case sb_bread io dev SB_BLOCK_NUMBER of
        None \<Rightarrow> Inl (- EIO)
      | Some bh \<Rightarrow>
          if le64 bh 8 \<noteq> MAGIC then Inl (- EBADF)
          else if \<not> iget_ok then Inl (- ENOMEM)
          else if \<not> root_ok then Inl (- ENOMEM)
          else Inr \<lparr>device = dev, cached = False, i_size = 0\<rparr>)"

definition singlefilefs_init :: "nat \<Rightarrow> int \<Rightarrow> int" where
  "singlefilefs_init max_file_size register_ret =
     (if max_file_size \<le> 0 then - EINVAL else register_ret)"

subsection \<open>\<^verbatim>\<open>singlefilemakefs.c\<close>\<close>

definition file_body :: string where
  "file_body = ''TGID,PID,UID,EUID,PATH,HASH'' @ [CHR 0x0A]"

text \<open>
  The formatting tool. \<open>wr k n\<close> is what the \<open>k\<close>-th call of \<open>write\<close> returns for \<open>n\<close> bytes; the stack
  garbage in the structures the tool leaves uninitialised is \<open>junk\<close>.
\<close>

definition dev_write :: "int \<Rightarrow> nat \<Rightarrow> char list \<Rightarrow> char list \<Rightarrow> char list" where
  "dev_write ret at bytes dev = splice at (take (nat ret) bytes) dev"

definition sb_bytes :: "(nat \<Rightarrow> char list) \<Rightarrow> char list" where
  "sb_bytes junk = le_bytes 8 1 @ le_bytes 8 (nat MAGIC) @ le_bytes 8 DEFAULT_BLOCK_SIZE @ take (4096 - 24) (junk 4096)"

definition inode_bytes :: "(nat \<Rightarrow> char list) \<Rightarrow> char list" where
  "inode_bytes junk = le_bytes 4 0x8000 @ take 4 (junk 4) @ le_bytes 8 SINGLEFILEFS_FILE_INODE_NUMBER @
     take 8 (junk 8) @ le_bytes 8 (length file_body)"

definition makefs ::
    "(nat \<Rightarrow> nat \<Rightarrow> int) \<Rightarrow> (nat \<Rightarrow> char list) \<Rightarrow> bool \<Rightarrow> bool \<Rightarrow> bool \<Rightarrow> char list \<Rightarrow> int \<times> char list" where
  "makefs wr junk argc_is_2 open_ok malloc_ok dev =
     (if \<not> argc_is_2 then (-1, dev)
      else if \<not> open_ok then (-1, dev)
      else
        let ret0 = wr 0 4096; dev0 = dev_write ret0 0 (sb_bytes junk) dev in
        if ret0 \<noteq> int DEFAULT_BLOCK_SIZE then (ret0, dev0)
        else
          let ret1 = wr 1 32; dev1 = dev_write ret1 4096 (inode_bytes junk) dev0 in
          if ret1 \<noteq> 32 then (-1, dev1)
          else if \<not> malloc_ok then (-1, dev1)
          else
            let nbytes = DEFAULT_BLOCK_SIZE - 32; ret2 = wr 2 nbytes;
                dev2 = dev_write ret2 4128 (replicate nbytes NUL) dev1 in
            if ret2 \<noteq> int nbytes then (-1, dev2)
            else
              let nbytes = length file_body; ret3 = wr 3 nbytes;
                  dev3 = dev_write ret3 8192 file_body dev2 in
              if ret3 \<noteq> int nbytes then (-1, dev3) else (0, dev3))"

section \<open>Positions and blocks\<close>

lemma sdiv_smod_nat:
  "int p sdiv 4096 = int (p div 4096)" "int p smod 4096 = int (p mod 4096)"
proof -
  show "int p sdiv 4096 = int (p div 4096)" by (simp add: signed_divide_int_def sgn_if zdiv_int)
  then show "int p smod 4096 = int (p mod 4096)"
    by (auto simp: signed_modulo_int_def zmod_int zdiv_int minus_div_mult_eq_mod)
qed

text \<open>The bytes of the data blocks, all but a rest that does not fill a block.\<close>

definition capacity :: "char list \<Rightarrow> nat" where
  "capacity dev = (length dev div 4096 - 2) * 4096"

lemma capacity_le: "8192 \<le> length dev \<Longrightarrow> 8192 + capacity dev \<le> length dev"
proof -
  assume "8192 \<le> length dev"
  then have "2 \<le> length dev div 4096" by linarith
  then have "8192 + capacity dev = length dev div 4096 * 4096" by (simp add: capacity_def algebra_simps)
  then show ?thesis by simp
qed

lemma below_capacity: "p < capacity dev \<longleftrightarrow> (p div 4096 + 3) * 4096 \<le> length dev"
proof -
  have "p < (length dev div 4096 - 2) * 4096 \<longleftrightarrow> p div 4096 < length dev div 4096 - 2"
    by (simp add: div_less_iff_less_mult)
  also have "\<dots> \<longleftrightarrow> p div 4096 + 3 \<le> length dev div 4096" by linarith
  also have "\<dots> \<longleftrightarrow> (p div 4096 + 3) * 4096 \<le> length dev" by (rule less_eq_div_iff_mult_less_eq) simp
  finally show ?thesis by (simp add: capacity_def)
qed

lemma block_split: "p = q * 4096 + r \<Longrightarrow> r < 4096 \<Longrightarrow> p + (4096 - r) = (q + 1) * (4096 :: nat)"
  by simp

lemma block_end: "p < capacity dev \<Longrightarrow> p + (4096 - p mod 4096) \<le> capacity dev"
proof -
  assume "p < capacity dev"
  then have "p div 4096 < length dev div 4096 - 2"
    by (simp add: capacity_def div_less_iff_less_mult)
  then have "(p div 4096 + 1) * 4096 \<le> capacity dev" by (simp add: capacity_def)
  moreover have "p + (4096 - p mod 4096) = (p div 4096 + 1) * 4096"
    by (rule block_split [OF div_mult_mod_eq [symmetric]]) simp
  ultimately show ?thesis by simp
qed

lemma data_block:
  assumes "p < 2 ^ 42"
  shows "sb_bread io dev (c_int (int p sdiv 4096 + 2)) =
     (if p < capacity dev \<and> io (p div 4096 + 2) then Some (take 4096 (drop (8192 + p div 4096 * 4096) dev))
      else None)"
    and "nat (c_int (int p sdiv 4096 + 2)) * 4096 + nat (int p smod 4096) = 8192 + p"
proof -
  have "p div 4096 < 2 ^ 30" using assms by (simp add: div_less_iff_less_mult)
  then have "int (p div 4096) < int (2 ^ 30)" by (simp only: of_nat_less_iff)
  then have b: "c_int (int p sdiv 4096 + 2) = int (p div 4096 + 2)"
    by (simp add: sdiv_smod_nat c_int_id)
  show "sb_bread io dev (c_int (int p sdiv 4096 + 2)) =
     (if p < capacity dev \<and> io (p div 4096 + 2) then Some (take 4096 (drop (8192 + p div 4096 * 4096) dev))
      else None)"
    unfolding b by (simp add: sb_bread_def below_capacity nat_add_distrib algebra_simps)
  show "nat (c_int (int p sdiv 4096 + 2)) * 4096 + nat (int p smod 4096) = 8192 + p"
    unfolding b using div_mult_mod_eq [of p 4096]
    by (simp add: sdiv_smod_nat nat_add_distrib zmod_int nat_mod_distrib algebra_simps)
qed

section \<open>The write loop\<close>

lemma copy_from_user_chunk:
  "fst (copy_from_user s m) = m - length s" "length s \<ge> m \<Longrightarrow> snd (copy_from_user s m) = take m s"
  by (simp_all add: copy_from_user_def)

lemma write_loop_0: "write_loop io buf dev pos 0 w = Some (0, dev, pos, w)"
  by (subst write_loop.simps) simp

lemma write_loop_step:
  assumes "0 < n" "p < 2 ^ 42"
  shows "write_loop io buf dev (int p) n w =
     (if p < capacity dev \<and> io (p div 4096 + 2) then
        let m = min n (4096 - p mod 4096);
            dev' = splice (8192 + p) (snd (copy_from_user (drop w buf) m)) dev
        in if length buf - w < m then Some (- EFAULT, dev', int p, w)
           else write_loop io buf dev' (int (p + m)) (n - m) (w + m)
      else Some (- EIO, dev, int p, w))"
proof -
  have m: "nat (4096 - int p smod 4096) = 4096 - p mod 4096" by (simp add: sdiv_smod_nat nat_diff_distrib)
  have off: "\<not> int p smod 4096 < 0" by (simp add: sdiv_smod_nat)
  have "c_long (int p + int (min n (4096 - p mod 4096))) = int (p + min n (4096 - p mod 4096))"
    using assms(2) by (subst c_long_id) auto
  then show ?thesis
    using assms
    by (subst write_loop.simps)
       (simp add: data_block [OF assms(2)] m off Let_def copy_from_user_chunk split_beta)
qed

text \<open>What the loop does to the device, whether it completes or fails.\<close>

definition loop_spec :: "char list \<Rightarrow> char list \<Rightarrow> nat \<Rightarrow> nat \<Rightarrow> nat \<Rightarrow> int \<times> char list \<times> int \<times> nat \<Rightarrow> bool" where
  "loop_spec buf dev p n w out = (case out of (res, dev', pos, w') \<Rightarrow>
     length dev' = length dev \<and> take (8192 + p) dev' = take (8192 + p) dev \<and>
     (res = 0 \<and> dev' = splice (8192 + p) (take n (drop w buf)) dev \<and> pos = int (p + n) \<and> w' = w + n \<and>
        p + n \<le> capacity dev \<and> w + n \<le> length buf \<or> res = - EIO \<or> res = - EFAULT))"

lemma capacity_cong: "length dev' = length dev \<Longrightarrow> capacity dev' = capacity dev"
  by (simp add: capacity_def)

lemma splice_take_append:
  "w + m \<le> length buf \<Longrightarrow> p + m \<le> length dev \<Longrightarrow> m \<le> n \<Longrightarrow>
     splice (p + m) (take (n - m) (drop (w + m) buf)) (splice p (take m (drop w buf)) dev) =
     splice p (take n (drop w buf)) dev"
proof -
  assume a: "w + m \<le> length buf" "p + m \<le> length dev" "m \<le> n"
  have "take n (drop w buf) = take m (drop w buf) @ take (n - m) (drop (w + m) buf)"
    using a(3) take_add [of m "n - m" "drop w buf"] by (simp add: add.commute)
  with a splice_splice [of p "take m (drop w buf)" dev "take (n - m) (drop (w + m) buf)"]
  show ?thesis by simp
qed

lemma loop_spec_step:
  assumes "loop_spec buf (splice (8192 + p) (take m (drop w buf)) dev) (p + m) (n - m) (w + m) out"
    and "m \<le> n" "w + m \<le> length buf" "8192 + p + m \<le> length dev"
  shows "loop_spec buf dev p n w out"
proof -
  obtain res dev' pos w' where out: "out = (res, dev', pos, w')" by (cases out)
  let ?d = "splice (8192 + p) (take m (drop w buf)) dev"
  have len: "length ?d = length dev" using assms(3,4) by (intro length_splice) simp
  have "take (8192 + p) dev' = take (8192 + p) (take (8192 + (p + m)) dev')" by (simp add: min_def)
  also have "\<dots> = take (8192 + p) (take (8192 + (p + m)) ?d)"
    using assms(1) by (simp add: loop_spec_def out)
  also have "\<dots> = take (8192 + p) ?d" by (simp add: min_def)
  also have "\<dots> = take (8192 + p) dev" using assms(4) by (intro take_splice) simp_all
  finally have "take (8192 + p) dev' = take (8192 + p) dev" .
  then show ?thesis
    using assms len capacity_cong [OF len] splice_take_append [of w m buf "8192 + p" dev n]
    by (auto simp: loop_spec_def out add.assoc)
qed

lemma write_loop_spec:
  assumes "8192 \<le> length dev" "length dev < 2 ^ 42" "p \<le> capacity dev" "w \<le> length buf"
  shows "\<exists>out. write_loop io buf dev (int p) n w = Some out \<and> loop_spec buf dev p n w out"
  using assms
proof (induction n arbitrary: dev p w rule: less_induct)
  case (less n)
  have cap: "8192 + capacity dev \<le> length dev" using capacity_le [OF less.prems(1)] .
  with less.prems(2,3) have p: "p < 2 ^ 42" by linarith
  let ?m = "min n (4096 - p mod 4096)"
  let ?d = "splice (8192 + p) (snd (copy_from_user (drop w buf) ?m)) dev"
  consider (stop) "n = 0" | (eio) "0 < n" "\<not> (p < capacity dev \<and> io (p div 4096 + 2))"
    | (fault) "0 < n" "p < capacity dev" "io (p div 4096 + 2)" "length buf - w < ?m"
    | (step) "0 < n" "p < capacity dev" "io (p div 4096 + 2)" "?m \<le> length buf - w"
    by linarith
  then show ?case
  proof cases
    case stop
    with less.prems(3,4) show ?thesis by (simp add: write_loop_0 loop_spec_def)
  next
    case eio
    have "write_loop io buf dev (int p) n w = Some (- EIO, dev, int p, w)"
      using write_loop_step [OF eio(1) p] by (simp only: eio(2) if_False)
    then show ?thesis by (simp add: loop_spec_def)
  next
    case fault
    have "8192 + p + ?m \<le> length dev" using block_end [OF fault(2)] cap by linarith
    then have "length ?d = length dev" "take (8192 + p) ?d = take (8192 + p) dev"
      by (simp_all add: length_splice take_splice)
    with fault show ?thesis using write_loop_step [OF fault(1) p] by (simp add: loop_spec_def Let_def)
  next
    case step
    define m where "m = ?m"
    let ?d = "splice (8192 + p) (take m (drop w buf)) dev"
    have m: "0 < m" "m \<le> n" "w + m \<le> length buf" "p + m \<le> capacity dev"
      using step(1,4) less.prems(4) block_end [OF step(2)] by (auto simp: m_def min_def)
    have chunk: "snd (copy_from_user (drop w buf) m) = take m (drop w buf)"
      using m(3) by (intro copy_from_user_chunk(2)) simp
    have len: "length ?d = length dev" using m(3,4) cap by (intro length_splice) simp
    have "\<exists>out. write_loop io buf ?d (int (p + m)) (n - m) (w + m) = Some out \<and>
        loop_spec buf ?d (p + m) (n - m) (w + m) out"
      using m less.prems(1,2) len capacity_cong [OF len] by (intro less.IH) simp_all
    moreover have "write_loop io buf dev (int p) n w = write_loop io buf ?d (int (p + m)) (n - m) (w + m)"
      using write_loop_step [OF step(1) p, of io buf dev w] step(2-4) chunk
      by (simp add: Let_def m_def [symmetric] del: of_nat_add)
    moreover have "loop_spec buf dev p n w out" if "loop_spec buf ?d (p + m) (n - m) (w + m) out" for out
      using loop_spec_step [OF that m(2,3)] m(4) cap by simp
    ultimately show ?thesis by metis
  qed
qed

lemma write_loop_room:
  assumes "\<forall>k. io k" "8192 \<le> length dev" "length dev < 2 ^ 42" "w + n \<le> length buf" "p + n \<le> capacity dev"
  shows "\<exists>dev' pos w'. write_loop io buf dev (int p) n w = Some (0, dev', pos, w')"
  using assms(2-)
proof (induction n arbitrary: dev p w rule: less_induct)
  case (less n)
  have cap: "8192 + capacity dev \<le> length dev" using capacity_le [OF less.prems(1)] .
  show ?case
  proof (cases "n = 0")
    case True
    then show ?thesis by (simp add: write_loop_0)
  next
    case False
    define m where "m = min n (4096 - p mod 4096)"
    let ?d = "splice (8192 + p) (take m (drop w buf)) dev"
    have m: "0 < m" "m \<le> n" using False by (auto simp: m_def)
    have chunk: "snd (copy_from_user (drop w buf) m) = take m (drop w buf)"
      using m(2) less.prems(3) by (intro copy_from_user_chunk(2)) simp
    have len: "length ?d = length dev" using less.prems(3,4) m(2) cap by (intro length_splice) simp
    have "p < 2 ^ 42" "p < capacity dev" using cap less.prems(2,4) False by linarith+
    moreover have "\<not> length buf - w < m" using less.prems(3) m(2) by linarith
    ultimately have "write_loop io buf dev (int p) n w = write_loop io buf ?d (int (p + m)) (n - m) (w + m)"
      using write_loop_step [of n p io buf dev w] False assms(1) chunk
      by (simp add: Let_def m_def [symmetric] del: of_nat_add)
    then show ?thesis
      using less.IH [of "n - m" ?d "w + m" "p + m"] m less.prems len capacity_cong [OF len] by simp
  qed
qed

lemma write_loop_readable:
  assumes "\<forall>k. io k" "8192 \<le> length dev" "length dev < 2 ^ 42" "p \<le> capacity dev" "w + n \<le> length buf"
    and "write_loop io buf dev (int p) n w = Some (res, dev', pos, w')"
  shows "res \<noteq> - EFAULT"
  using assms(2-)
proof (induction n arbitrary: dev p w rule: less_induct)
  case (less n)
  have cap: "8192 + capacity dev \<le> length dev" using capacity_le [OF less.prems(1)] .
  show ?case
  proof (cases "n = 0 \<or> capacity dev \<le> p")
    case True
    with less.prems show ?thesis
      using write_loop_step [of n p io buf dev w] cap by (cases "n = 0") (auto simp: write_loop_0)
  next
    case False
    define m where "m = min n (4096 - p mod 4096)"
    let ?d = "splice (8192 + p) (take m (drop w buf)) dev"
    have m: "0 < m" "m \<le> n" "p + m \<le> capacity dev" using False block_end [of p dev] by (auto simp: m_def)
    have chunk: "snd (copy_from_user (drop w buf) m) = take m (drop w buf)"
      using m(2) less.prems(4) by (intro copy_from_user_chunk(2)) simp
    have len: "length ?d = length dev" using less.prems(4) m cap by (intro length_splice) simp
    have "p < 2 ^ 42" using cap less.prems(2,3) by linarith
    moreover have "\<not> length buf - w < m" using less.prems(4) m(2) by linarith
    ultimately have "write_loop io buf ?d (int (p + m)) (n - m) (w + m) = Some (res, dev', pos, w')"
      using write_loop_step [of n p io buf dev w] False assms(1) chunk less.prems(5)
      by (simp add: Let_def m_def [symmetric] del: of_nat_add)
    then show ?thesis
      using less.IH [of "n - m" ?d "p + m" "w + m"] m less.prems(1,2,4) len capacity_cong [OF len] by simp
  qed
qed

section \<open>The file as a growing string\<close>

text \<open>
  A mounted device in order: the size of the file is within the data blocks of a device of less
  than four terabytes, so that the numbers of its blocks fit the \<open>int\<close> they are computed in.
\<close>

definition wf_sfs :: "sfs \<Rightarrow> bool" where
  "wf_sfs fs = (8192 \<le> length (device fs) \<and> length (device fs) < 2 ^ 42 \<and>
     0 \<le> i_size fs \<and> nat (i_size fs) \<le> capacity (device fs))"

definition content :: "sfs \<Rightarrow> char list" where
  "content fs = take (nat (i_size fs)) (drop 8192 (device fs))"

lemma wf_sfs_size: "wf_sfs fs \<Longrightarrow> \<exists>p. i_size fs = int p \<and> p < 2 ^ 42 \<and> p \<le> capacity (device fs)"
  using capacity_le [of "device fs"] by (intro exI [of _ "nat (i_size fs)"]) (auto simp: wf_sfs_def)

lemma length_content: "wf_sfs fs \<Longrightarrow> length (content fs) = nat (i_size fs)"
  using capacity_le [of "device fs"] by (auto simp: content_def wf_sfs_def min_def)

lemma take_drop_cong: "take (a + n) x = take (a + n) y \<Longrightarrow> take n (drop a x) = take n (drop a y)"
  by (simp add: take_drop add.commute)

text \<open>
  One append, by cases: the size limit, a failure in the loop, or completion. \<open>len\<close> is a size that the
  virtual file system lets through, so that the sum in the test does not wrap.
\<close>

lemma onefilefs_write_cases:
  assumes "wf_sfs fs" "len < 2 ^ 62"
  obtains (big) "onefilefs_write io mx fs buf len off = Some (- EFBIG, fs, off)" "int mx \<le> i_size fs + int len"
    | (failed) res dev where "onefilefs_write io mx fs buf len off = Some (res, fs\<lparr>device := dev\<rparr>, off)"
        "res = - EIO \<or> res = - EFAULT" "i_size fs + int len < int mx"
        "wf_sfs (fs\<lparr>device := dev\<rparr>)" "content (fs\<lparr>device := dev\<rparr>) = content fs"
        "(\<forall>k. io k) \<and> len \<le> length buf \<longrightarrow> res = - EIO \<and> capacity (device fs) < nat (i_size fs) + len"
    | (completed) fs' where "onefilefs_write io mx fs buf len off = Some (int len, fs', i_size fs + int len)"
        "i_size fs + int len < int mx" "wf_sfs fs'" "content fs' = content fs @ take len buf"
        "i_size fs' = i_size fs + int len" "len \<le> length buf" "nat (i_size fs) + len \<le> capacity (device fs)"
        "take 8192 (device fs') = take 8192 (device fs)" "length (device fs') = length (device fs)"
proof -
  from wf_sfs_size [OF assms(1)] obtain p where p: "i_size fs = int p" "p < 2 ^ 42" "p \<le> capacity (device fs)"
    by blast
  have dev: "8192 \<le> length (device fs)" "length (device fs) < 2 ^ 42" using assms(1) by (auto simp: wf_sfs_def)
  have sum: "c_ulong (int p + int len) = int p + int len"
    using p(2) assms(2) by (intro c_ulong_id) auto
  obtain res dev' pos w where loop: "write_loop io buf (device fs) (int p) len 0 = Some (res, dev', pos, w)"
    and spec: "loop_spec buf (device fs) p len 0 (res, dev', pos, w)"
    using write_loop_spec [OF dev p(3), of 0 buf io len] by auto
  have same: "length dev' = length (device fs)" "take (8192 + p) dev' = take (8192 + p) (device fs)"
    using spec by (simp_all add: loop_spec_def)
  have keep: "wf_sfs (fs\<lparr>device := dev'\<rparr>)" "content (fs\<lparr>device := dev'\<rparr>) = content fs"
    using assms(1) same capacity_cong [OF same(1)] take_drop_cong [OF same(2)] p(1)
    by (simp_all add: wf_sfs_def content_def)
  consider "int mx \<le> int p + int len" | "int p + int len < int mx" "res \<noteq> 0" | "int p + int len < int mx" "res = 0"
    by linarith
  then show thesis
  proof cases
    case 1
    then show thesis by (intro big) (simp_all add: onefilefs_write_def p(1) sum)
  next
    case 2
    have "res \<noteq> - EFAULT \<and> \<not> p + len \<le> capacity (device fs)" if "\<forall>k. io k" "len \<le> length buf"
      using write_loop_readable [OF that(1) dev p(3) _ loop] write_loop_room [OF that(1) dev, of 0 len buf p]
        that(2) loop 2 by auto
    then show thesis
      using 2 spec keep by (intro failed [of res dev']) (auto simp: onefilefs_write_def p(1) sum loop loop_spec_def)
  next
    case 3
    then have *: "dev' = splice (8192 + p) (take len buf) (device fs)" "pos = int (p + len)" "w = len"
      "p + len \<le> capacity (device fs)" "len \<le> length buf"
      using spec by (auto simp: loop_spec_def)
    let ?fs' = "fs\<lparr>device := dev', i_size := int (p + len)\<rparr>"
    have "c_long (int len) = int len" using assms(2) by (intro c_long_id) auto
    then have "onefilefs_write io mx fs buf len off = Some (int len, ?fs', i_size fs + int len)"
      using 3 * by (simp add: onefilefs_write_def p(1) sum loop max_def)
    moreover have "wf_sfs ?fs'" using assms(1) same(1) capacity_cong [OF same(1)] *(4) by (simp add: wf_sfs_def)
    moreover have "content ?fs' = content fs @ take len buf"
    proof -
      have "drop 8192 dev' = splice p (take len buf) (drop 8192 (device fs))"
        using capacity_le [OF dev(1)] p(3) by (simp add: *(1) drop_splice_before)
      then show ?thesis
        using *(4,5) capacity_le [OF dev(1)] by (simp add: content_def p(1) splice_def nat_add_distrib)
    qed
    moreover have "take 8192 dev' = take 8192 (device fs)"
      using same(2) by (metis le_add1 min.absorb1 take_take)
    ultimately show thesis using 3 * p(1) same(1) by (intro completed [of ?fs']) simp_all
  qed
qed

section \<open>Reading\<close>

lemma onefilefs_read_eq:
  assumes "wf_sfs fs" "\<forall>k. io k" "len < 2 ^ 62" "q < 2 ^ 62" "len \<le> writable"
  shows "onefilefs_read io fs writable len (int q) =
    (if int q \<ge> i_size fs then Some (0, int q, [])
     else let n = min (min len (nat (i_size fs) - q)) (4096 - q mod 4096)
          in Some (int n, int (q + n), take n (drop q (content fs))))"
proof -
  from wf_sfs_size [OF assms(1)] obtain p where p: "i_size fs = int p" "p < 2 ^ 42" "p \<le> capacity (device fs)"
    by blast
  have u: "c_ulong (int p) = int p" "c_ulong (int q) = int q" "c_ulong (int q + int len) = int q + int len"
    using p(2) assms(3,4) by (intro c_ulong_id; simp)+
  show ?thesis
  proof (cases "p \<le> q")
    case True
    then show ?thesis by (simp add: onefilefs_read_def p(1) u Let_def)
  next
    case False
    define l1 where "l1 = min len (p - q)"
    define n where "n = min l1 (4096 - q mod 4096)"
    have l1: "(if int p < int q + int len then c_ulong (int p - int q) else int len) = int l1"
      using False p(2) c_ulong_id [of "int p - int q"] by (auto simp: l1_def min_def of_nat_diff)
    have l1b: "l1 < 2 ^ 42" using p(2) by (simp add: l1_def)
    have n: "(if 4096 < c_ulong (int (q mod 4096) + int l1) then c_ulong (4096 - int (q mod 4096)) else int l1) = int n"
    proof -
      have "q mod 4096 < 4096" by simp
      then show ?thesis using l1b
        by (subst (1 2) c_ulong_id) (auto simp: n_def min_def of_nat_diff)
    qed
    have q: "q < 2 ^ 42" "q < capacity (device fs)" using False p by simp_all
    have n_le: "n \<le> 4096 - q mod 4096" "n \<le> p - q" "n \<le> len" by (simp_all add: n_def l1_def)
    have "q div 4096 * 4096 + q mod 4096 = q" by (rule div_mult_mod_eq)
    then have "drop (q mod 4096) (drop (8192 + q div 4096 * 4096) (device fs)) = drop (8192 + q) (device fs)"
      by (simp add: add.commute add.left_commute)
    then have data: "take n (drop (q mod 4096) (take 4096 (drop (8192 + q div 4096 * 4096) (device fs)))) =
        take n (drop q (content fs))"
      using n_le(1,2) False by (simp add: content_def p(1) drop_take min_absorb1 add.commute)
    have "c_long (int n) = int n" "c_long (int q + int n) = int q + int n"
      using n_le(3) assms(3,4) by (intro c_long_id; simp)+
    moreover obtain r where r: "q mod 4096 = r" "r < 4096" by simp
    moreover have "\<not> 4096 < int r + int n" "\<not> int r < 0" using n_le(1) r by auto
    moreover have "min (min len (nat (int p) - q)) (4096 - r) = n" using r(1) by (simp add: n_def l1_def)
    moreover have "\<not> int writable < int n" using n_le(3) assms(5) by simp
    ultimately show ?thesis
      unfolding onefilefs_read_def Let_def p(1) u of_nat_numeral l1 sdiv_smod_nat(2) n data_block(1) [OF q(1)]
      using False assms(2) data q(2) by (simp del: min_less_iff_conj)
  qed
qed
text \<open>A reader that calls \<open>read\<close> with a buffer of \<open>len\<close> bytes until it returns 0, at most \<open>fuel\<close> times.\<close>

fun read_seq :: "(nat \<Rightarrow> bool) \<Rightarrow> sfs \<Rightarrow> nat \<Rightarrow> nat \<Rightarrow> int \<Rightarrow> char list option" where
  "read_seq io fs len 0 off = None"
| "read_seq io fs len (Suc fuel) off =
     (case onefilefs_read io fs len len off of
        None \<Rightarrow> None
      | Some (r, off', data) \<Rightarrow>
          if r < 0 then None
          else if r = 0 then Some []
          else map_option (append data) (read_seq io fs len fuel off'))"

lemma read_seq_from:
  assumes "wf_sfs fs" "\<forall>k. io k" "0 < len" "len < 2 ^ 62"
  shows "q \<le> length (content fs) \<Longrightarrow> length (content fs) - q < fuel \<Longrightarrow>
           read_seq io fs len fuel (int q) = Some (drop q (content fs))"
proof (induction fuel arbitrary: q)
  case (Suc fuel)
  have size: "nat (i_size fs) = length (content fs)" "0 \<le> i_size fs" "length (content fs) < 2 ^ 42"
    using length_content [OF assms(1)] capacity_le [of "device fs"] assms(1) by (auto simp: wf_sfs_def)
  have "q < 2 ^ 62" using Suc.prems(1) size(3) by simp
  note eq = onefilefs_read_eq [OF assms(1,2,4) this order_refl]
  show ?case
  proof (cases "q = length (content fs)")
    case True
    then have "onefilefs_read io fs len len (int q) = Some (0, int q, [])" using size by (subst eq) simp
    with True show ?thesis by simp
  next
    case False
    define n where "n = min (min len (nat (i_size fs) - q)) (4096 - q mod 4096)"
    have n: "0 < n" "q + n \<le> length (content fs)" using False Suc.prems(1) assms(3) size(1) by (auto simp: n_def)
    have "\<not> i_size fs \<le> int q" using False Suc.prems(1) size by linarith
    then have "onefilefs_read io fs len len (int q) = Some (int n, int (q + n), take n (drop q (content fs)))"
      by (simp add: eq Let_def n_def [symmetric] del: min_less_iff_conj)
    moreover have "read_seq io fs len fuel (int (q + n)) = Some (drop (q + n) (content fs))"
      using n Suc.prems by (intro Suc.IH) simp_all
    ultimately show ?thesis
      using n(1) append_take_drop_id [of n "drop q (content fs)"] by (simp add: add.commute del: append_take_drop_id)
  qed
qed simp

section \<open>Formatting and mounting\<close>

lemma length_le_bytes [simp]: "length (le_bytes n v) = n"
  by (induction n arbitrary: v) simp_all

lemma le_value_bytes: "le_value (le_bytes n v) = int (v mod 256 ^ n)"
proof (induction n arbitrary: v)
  case (Suc n)
  have "int (v mod 256) + 256 * int ((v div 256) mod 256 ^ n) = int (v mod (256 * 256 ^ n))"
    by (simp add: mod_mult2_eq flip: of_nat_add of_nat_mult)
  moreover have "of_char (char_of v :: char) = int (v mod 256)"
    using of_nat_of_char [of "char_of v", where 'a = int] by (simp del: of_nat_of_char)
  ultimately show ?case using Suc by simp
qed simp

definition junk_ok :: "(nat \<Rightarrow> char list) \<Rightarrow> bool" where
  "junk_ok junk = (\<forall>n. length (junk n) = n)"

definition fs_image :: "(nat \<Rightarrow> char list) \<Rightarrow> char list" where
  "fs_image junk = sb_bytes junk @ inode_bytes junk @ replicate 4064 NUL @ file_body"

lemma image_parts:
  assumes "junk_ok junk"
  shows "length (sb_bytes junk) = 4096" "length (inode_bytes junk) = 32" "length file_body = 28"
    "length (fs_image junk) = 8220"
  using assms by (simp_all add: fs_image_def sb_bytes_def inode_bytes_def junk_ok_def file_body_def)

lemma makefs_image:
  assumes "junk_ok junk" "8220 \<le> length dev"
  shows "makefs (\<lambda>_ n. int n) junk True True True dev = (0, fs_image junk @ drop 8220 dev)"
proof -
  note l = image_parts [OF assms(1)]
  have "splice 0 (fs_image junk) dev = fs_image junk @ drop 8220 dev"
    by (simp add: splice_def fs_image_def l)
  moreover have "splice 4096 (inode_bytes junk) (splice 0 (sb_bytes junk) dev) =
      splice 0 (sb_bytes junk @ inode_bytes junk) dev"
    using splice_splice [of 0 "sb_bytes junk" dev "inode_bytes junk"] assms(2) l by simp
  moreover have "splice 4128 (replicate 4064 NUL) (splice 0 (sb_bytes junk @ inode_bytes junk) dev) =
      splice 0 ((sb_bytes junk @ inode_bytes junk) @ replicate 4064 NUL) dev"
    using splice_splice [of 0 "sb_bytes junk @ inode_bytes junk" dev "replicate 4064 NUL"] assms(2) l by simp
  moreover have "splice 8192 file_body (splice 0 ((sb_bytes junk @ inode_bytes junk) @ replicate 4064 NUL) dev) =
      splice 0 (((sb_bytes junk @ inode_bytes junk) @ replicate 4064 NUL) @ file_body) dev"
    using splice_splice [of 0 "(sb_bytes junk @ inode_bytes junk) @ replicate 4064 NUL" dev file_body] assms(2) l
    by simp
  ultimately show ?thesis
    using l by (simp add: makefs_def dev_write_def fs_image_def Let_def del: replicate.simps)
qed

text \<open>Mounting a device and looking the file up.\<close>

definition mount_file :: "(nat \<Rightarrow> bool) \<Rightarrow> char list \<Rightarrow> sfs option" where
  "mount_file io dev =
     (case singlefilefs_fill_super io True True dev of
        Inl _ \<Rightarrow> None
      | Inr fs \<Rightarrow> (case onefilefs_lookup io True fs UNIQUE_FILE_NAME of
                     (L_entry, fs') \<Rightarrow> Some fs' | _ \<Rightarrow> None))"

lemma mount_file_eq:
  assumes "\<forall>k. io k" "8192 \<le> length dev"
  shows "mount_file io dev =
     (if le64 dev 8 = MAGIC then Some \<lparr>device = dev, cached = True, i_size = c_long (le64 dev 4120)\<rparr> else None)"
proof -
  have "take 8 (drop 8 (take 4096 dev)) = take 8 (drop 8 dev)"
    "take 8 (drop 24 (take 4096 (drop 4096 dev))) = take 8 (drop 4120 dev)"
    by (simp_all add: drop_take add.commute)
  then show ?thesis using assms
    by (simp add: mount_file_def singlefilefs_fill_super_def onefilefs_lookup_def sb_bread_def SB_BLOCK_NUMBER_def
        SINGLEFILEFS_INODES_BLOCK_NUMBER_def strcmp_eq_0 le64_def)
qed

lemma le64_prefix: "take n x = take n y \<Longrightarrow> i + 8 \<le> n \<Longrightarrow> le64 x i = le64 y i"
proof -
  assume a: "take n x = take n y" "i + 8 \<le> n"
  have "take (i + 8) x = take (i + 8) y" using a by (metis min.absorb1 take_take)
  then have "take 8 (drop i x) = take 8 (drop i y)" by (rule take_drop_cong)
  then show ?thesis by (simp add: le64_def)
qed

lemma image_mounts:
  assumes "junk_ok junk" "4068 \<le> length rest" "length rest < 2 ^ 41" "\<forall>k. io k"
  shows "\<exists>fs. mount_file io (fs_image junk @ rest) = Some fs \<and> wf_sfs fs \<and> content fs = file_body"
proof -
  note l = image_parts [OF assms(1)]
  let ?dev = "fs_image junk @ rest"
  let ?fs = "\<lparr>device = ?dev, cached = True, i_size = 28\<rparr>"
  have "le64 ?dev 8 = MAGIC"
    by (simp add: le64_def fs_image_def sb_bytes_def le_value_bytes MAGIC_def)
  moreover have "le64 ?dev 4120 = 28"
  proof -
    have "drop 4120 ?dev = le_bytes 8 (length file_body) @ replicate 4064 NUL @ file_body @ rest"
      using assms(1) l(1) by (simp add: fs_image_def inode_bytes_def junk_ok_def)
    then show ?thesis by (simp add: le64_def le_value_bytes l(3))
  qed
  ultimately have "mount_file io ?dev = Some ?fs"
    using mount_file_eq [OF assms(4), of ?dev] l(4) by (simp add: c_long_id)
  moreover have "28 \<le> capacity ?dev"
  proof -
    have "3 \<le> length ?dev div 4096" using assms(2) l(4) by simp
    then show ?thesis unfolding capacity_def by simp
  qed
  moreover have "take 28 (drop 8192 ?dev) = file_body" using l by (simp add: fs_image_def)
  ultimately show ?thesis using assms(3) l by (intro exI [of _ ?fs]) (simp add: wf_sfs_def content_def)
qed

section \<open>The file as the monitor's log\<close>

text \<open>\<open>kernel_write\<close> of a whole buffer to the open file.\<close>

definition kernel_write :: "(nat \<Rightarrow> bool) \<Rightarrow> nat \<Rightarrow> char list \<Rightarrow> sfs \<Rightarrow> (int \<times> sfs) option" where
  "kernel_write io mx d fs = map_option (\<lambda>(r, fs', off). (r, fs')) (onefilefs_write io mx fs d (length d) 0)"

lemma kernel_write_cases:
  assumes "wf_sfs fs" "length d < 2 ^ 62"
  shows "\<exists>r fs'. kernel_write io mx d fs = Some (r, fs') \<and> wf_sfs fs' \<and>
           (if r \<ge> 0 then r = int (length d) \<and> content fs' = content fs @ d else content fs' = content fs)"
  using assms
proof (cases rule: onefilefs_write_cases [where io = io and mx = mx and buf = d and off = 0])
  case big
  with assms(1) show ?thesis by (simp add: kernel_write_def)
next
  case (failed res dev)
  then show ?thesis by (auto simp: kernel_write_def)
next
  case (completed fs')
  then show ?thesis by (simp add: kernel_write_def)
qed

interpretation sfs_log: append_log "2 ^ 61" wf_sfs content "kernel_write io mx" for io mx
proof unfold_locales
  fix fs :: sfs and d :: "char list"
  assume a: "wf_sfs fs" "length d \<le> 2 ^ 61"
  then have "length d < 2 ^ 62" by simp
  from kernel_write_cases [OF a(1) this, of io mx] obtain r0 fs0 where
    kw: "kernel_write io mx d fs = Some (r0, fs0)" "wf_sfs fs0"
      "if r0 \<ge> 0 then r0 = int (length d) \<and> content fs0 = content fs @ d else content fs0 = content fs"
    by blast
  show "\<exists>r fs'. kernel_write io mx d fs = Some (r, fs')" using kw(1) by blast
  fix r fs'
  assume "kernel_write io mx d fs = Some (r, fs')"
  with kw show "wf_sfs fs'" "r \<ge> 0 \<Longrightarrow> r = int (length d) \<and> content fs' = content fs @ d"
    "r < 0 \<Longrightarrow> content fs' = content fs"
    by auto
qed

text \<open>The bytes the file still takes, for a readable device.\<close>

definition log_room :: "nat \<Rightarrow> sfs \<Rightarrow> nat" where
  "log_room mx fs = min (capacity (device fs)) (mx - 1) - nat (i_size fs)"

interpretation sfs_room: roomy_log "2 ^ 61" wf_sfs content "kernel_write (\<lambda>_. True) mx" "log_room mx" for mx
proof unfold_locales
  fix fs :: sfs and d :: "char list"
  assume a: "wf_sfs fs" "length d \<le> 2 ^ 61" "length d \<le> log_room mx fs" and "d \<noteq> []"
  then have "0 < length d" by simp
  have l: "length d < 2 ^ 62" using a(2) by simp
  show "\<exists>fs'. kernel_write (\<lambda>_. True) mx d fs = Some (int (length d), fs') \<and>
      log_room mx fs \<le> log_room mx fs' + length d"
    using a(1) l
  proof (cases rule: onefilefs_write_cases [where io = "\<lambda>_. True" and mx = mx and buf = d and off = 0])
    case big
    have "0 \<le> i_size fs" using a(1) by (simp add: wf_sfs_def)
    moreover have "nat (i_size fs) + length d \<le> mx - 1"
      using a(3) \<open>0 < length d\<close> unfolding log_room_def by linarith
    ultimately have "i_size fs + int (length d) < int mx" using \<open>0 < length d\<close> by linarith
    with big(2) show ?thesis by linarith
  next
    case (failed res dev)
    then show ?thesis using a(1,3) \<open>0 < length d\<close> by (auto simp: log_room_def wf_sfs_def)
  next
    case (completed fs')
    then show ?thesis using a(1) capacity_cong [OF completed(9)]
      by (auto simp: kernel_write_def log_room_def wf_sfs_def nat_add_distrib)
  qed
qed

text \<open>A device of three blocks with 28 bytes of data, and one completed write to it.\<close>

definition sample_fs :: sfs where
  "sample_fs = \<lparr>device = replicate 12288 CHR ''a'', cached = True, i_size = 28\<rparr>"

lemma sample_fs_facts: "wf_sfs sample_fs" "capacity (device sample_fs) = 4096" "i_size sample_fs = 28"
  by (simp_all add: sample_fs_def wf_sfs_def capacity_def)

lemma write_completes:
  assumes "wf_sfs fs" "len < 2 ^ 62" "len \<le> length buf" "nat (i_size fs) + len \<le> capacity (device fs)"
    and "i_size fs + int len < int mx"
  shows "\<exists>fs'. onefilefs_write (\<lambda>_. True) mx fs buf len off = Some (int len, fs', i_size fs + int len)"
  using assms(1,2)
proof (cases rule: onefilefs_write_cases [where io = "\<lambda>_. True" and mx = mx and buf = buf and off = off])
  case (failed res dev)
  with assms(3,4) show ?thesis by simp
qed (use assms(5) in auto)

lemma image_capacity:
  "junk_ok junk \<Longrightarrow> length rest = 4068 \<Longrightarrow> capacity (fs_image junk @ rest) = 4096"
  by (simp add: capacity_def image_parts)

section \<open>Properties\<close>

text \<open>
  C14: the file grows and nothing else. Whatever the device answers and however much of the buffer can
  be read, a write to a mounted device in order returns; it either stores all \<open>len\<close> bytes, and the
  file is the old one followed by them, or returns \<open>-EFBIG\<close>, \<open>-EIO\<close> or \<open>-EFAULT\<close> and the file is
  the old one. The superblock and the inode block are never touched by a completed write.
\<close>

theorem onefilefs_write_refines_append:
  assumes "wf_sfs fs" "len < 2 ^ 62"
  shows "\<exists>r fs' off'. onefilefs_write io mx fs buf len off = Some (r, fs', off') \<and> wf_sfs fs' \<and>
    (r = int len \<and> content fs' = content fs @ take len buf \<and> len \<le> length buf \<and>
       take 8192 (device fs') = take 8192 (device fs) \<and> i_size fs + int len < int mx \<or>
     r \<in> {- EFBIG, - EIO, - EFAULT} \<and> content fs' = content fs \<and> i_size fs' = i_size fs)"
  using assms
proof (cases rule: onefilefs_write_cases [where io = io and mx = mx and buf = buf and off = off])
  case big
  with assms(1) show ?thesis by simp
next
  case (failed res dev)
  then show ?thesis by auto
next
  case (completed fs')
  then show ?thesis by auto
qed

theorem onefilefs_write_refines_append_witness:
  "\<exists>r fs' off'. onefilefs_write (\<lambda>k. k = 2) 10000 sample_fs ''xyz'' 3 0 = Some (r, fs', off') \<and> wf_sfs fs'"
  using onefilefs_write_refines_append [of sample_fs 3 "\<lambda>k. k = 2" 10000 "''xyz''" 0] sample_fs_facts(1) by auto

text \<open>
  When the write succeeds. With a device that can be read and a readable buffer, a write is refused
  with \<open>-EFBIG\<close> exactly when the file would reach the maximal size, fails with \<open>-EIO\<close> exactly when the
  bytes do not fit the data blocks, and otherwise stores all bytes.
\<close>

theorem onefilefs_write_outcome:
  assumes "wf_sfs fs" "\<forall>k. io k" "len \<le> length buf" "0 < len" "len < 2 ^ 62"
  shows "\<exists>fs' off'. onefilefs_write io mx fs buf len off =
    Some (if int mx \<le> i_size fs + int len then - EFBIG
          else if capacity (device fs) < nat (i_size fs) + len then - EIO else int len, fs', off')"
  using assms(1,5)
proof (cases rule: onefilefs_write_cases [where io = io and mx = mx and buf = buf and off = off])
  case (failed res dev)
  with assms(2,3) show ?thesis by simp
next
  case big
  then show ?thesis by simp
next
  case (completed fs')
  then show ?thesis by simp
qed

theorem onefilefs_write_outcome_witness:
  "(\<exists>fs' off'. onefilefs_write (\<lambda>_. True) 10000 sample_fs ''xyz'' 3 0 = Some (3, fs', off')) \<and>
   (\<exists>fs' off'. onefilefs_write (\<lambda>_. True) 10000 sample_fs (replicate 5000 CHR ''x'') 5000 0 = Some (- EIO, fs', off'))"
  using onefilefs_write_outcome [of sample_fs "\<lambda>_. True" 3 "''xyz''" 10000 0]
    onefilefs_write_outcome [of sample_fs "\<lambda>_. True" 5000 "replicate 5000 CHR ''x''" 10000 0]
  by (simp add: sample_fs_facts)

text \<open>
  C15: what was written can be read. After a write that returned \<open>len\<close>, a reader with a buffer of any
  size that starts at offset 0 and reads until the end gets the old file followed by the new bytes.
\<close>

theorem write_then_read:
  assumes "wf_sfs fs" "\<forall>k. io k" "len < 2 ^ 62" "onefilefs_write io mx fs buf len off = Some (int len, fs', off')"
    and "0 < bufsize" "bufsize < 2 ^ 62" "nat (i_size fs) + len < fuel"
  shows "read_seq io fs' bufsize fuel 0 = Some (content fs @ take len buf)"
  using assms(1,3)
proof (cases rule: onefilefs_write_cases [where io = io and mx = mx and buf = buf and off = off])
  case (completed fs'')
  then have "fs'' = fs'" using assms(4) by simp
  with completed assms(1,7) have "wf_sfs fs'" "content fs' = content fs @ take len buf" "length (content fs') < fuel"
    by (simp_all add: length_content)
  then show ?thesis using read_seq_from [OF _ assms(2,5,6), of fs' 0 fuel] by simp
qed (use assms(4) in auto)

theorem write_then_read_witness:
  "\<exists>fs' off'. onefilefs_write (\<lambda>_. True) 10000 sample_fs ''xyz'' 3 0 = Some (3, fs', off') \<and>
     read_seq (\<lambda>_. True) fs' 100 50 0 = Some (content sample_fs @ ''xyz'')"
proof -
  obtain fs' where w: "onefilefs_write (\<lambda>_. True) 10000 sample_fs ''xyz'' 3 0 = Some (int 3, fs', 31)"
    using write_completes [of sample_fs 3 "''xyz''" 10000 0] by (auto simp: sample_fs_facts)
  from write_then_read [OF sample_fs_facts(1) _ _ w, of 100 50] show ?thesis
    using w by (simp add: sample_fs_facts)
qed

text \<open>
  C16: the formatting tool makes a mountable device. Run on a device of at least three blocks, it leaves
  an image that mounts, in which the file exists and holds the header line, whatever the
  uninitialised fields of its structures contained.
\<close>

theorem makefs_mounts:
  assumes "junk_ok junk" "12288 \<le> length dev" "length dev < 2 ^ 41" "\<forall>k. io k"
  shows "\<exists>dev' fs. makefs (\<lambda>_ n. int n) junk True True True dev = (0, dev') \<and>
    mount_file io dev' = Some fs \<and> wf_sfs fs \<and> content fs = file_body"
  using makefs_image [OF assms(1), of dev] image_mounts [OF assms(1), of "drop 8220 dev" io] assms(2-4)
  by (auto simp: image_parts(4))

theorem makefs_mounts_witness:
  "\<exists>dev' fs. makefs (\<lambda>_ n. int n) (\<lambda>n. replicate n CHR ''?'') True True True (replicate 12288 NUL) = (0, dev') \<and>
     mount_file (\<lambda>_. True) dev' = Some fs \<and> content fs = file_body"
  using makefs_mounts [of "\<lambda>n. replicate n CHR ''?''" "replicate 12288 NUL" "\<lambda>_. True"]
  by (auto simp: junk_ok_def)

text \<open>
  The log does not survive a remount. The size in the inode block is read at lookup and never
  written: after the file was mounted, a write was completed and the device is mounted again,
  the file is what it was at the first mount.
\<close>

theorem remount_loses_appended:
  assumes "\<forall>k. io k" "mount_file io dev = Some fs" "wf_sfs fs" "len < 2 ^ 62"
    and "onefilefs_write io mx fs buf len off = Some (int len, fs', off')"
  shows "\<exists>fs''. mount_file io (device fs') = Some fs'' \<and> content fs'' = content fs"
  using assms(3,4)
proof (cases rule: onefilefs_write_cases [where io = io and mx = mx and buf = buf and off = off])
  case (completed fs1)
  then have fs1: "fs1 = fs'" using assms(5) by simp
  have dl: "8192 \<le> length dev"
    using assms(2) by (auto simp: mount_file_def singlefilefs_fill_super_def onefilefs_lookup_def sb_bread_def
        SINGLEFILEFS_INODES_BLOCK_NUMBER_def strcmp_eq_0 split: sum.splits if_splits option.splits)
  then have fs: "le64 dev 8 = MAGIC" "fs = \<lparr>device = dev, cached = True, i_size = c_long (le64 dev 4120)\<rparr>"
    using assms(1,2) by (simp_all add: mount_file_eq split: if_splits)
  have "take 8192 (device fs') = take 8192 dev" using completed(8) fs1 fs(2) by simp
  from le64_prefix [OF this, of 8] le64_prefix [OF this, of 4120]
  have le: "le64 (device fs') 8 = MAGIC" "le64 (device fs') 4120 = le64 dev 4120" using fs(1) by simp_all
  have "8192 \<le> length (device fs')" using completed(3) fs1 by (simp add: wf_sfs_def)
  then have "mount_file io (device fs') = Some \<lparr>device = device fs', cached = True, i_size = i_size fs\<rparr>"
    using assms(1) le fs(2) by (simp add: mount_file_eq)
  moreover have "content \<lparr>device = device fs', cached = True, i_size = i_size fs\<rparr> = content fs"
  proof -
    have "content \<lparr>device = device fs', cached = True, i_size = i_size fs\<rparr> =
        take (nat (i_size fs)) (content fs')"
      using completed(5) assms(3) fs1 by (simp add: content_def wf_sfs_def min_def)
    also have "\<dots> = content fs"
      using completed(4) fs1 length_content [OF assms(3)] by simp
    finally show ?thesis .
  qed
  ultimately show ?thesis by blast
qed (use assms(5) in auto)

theorem remount_loses_appended_witness:
  "\<exists>dev fs fs' off' fs''. mount_file (\<lambda>_. True) dev = Some fs \<and>
     onefilefs_write (\<lambda>_. True) 10000 fs ''xyz'' 3 0 = Some (3, fs', off') \<and>
     mount_file (\<lambda>_. True) (device fs') = Some fs'' \<and> content fs'' = content fs"
proof -
  let ?dev = "fs_image (\<lambda>n. replicate n NUL) @ replicate 4068 NUL"
  have j: "junk_ok (\<lambda>n. replicate n NUL)" by (simp add: junk_ok_def)
  obtain fs where fs: "mount_file (\<lambda>_. True) ?dev = Some fs" "wf_sfs fs" "content fs = file_body"
    using image_mounts [OF j, of "replicate 4068 NUL" "\<lambda>_. True"] by auto
  have dev: "device fs = ?dev"
    using fs(1) mount_file_eq [of "\<lambda>_. True" ?dev] image_parts [OF j] by (auto split: if_splits)
  moreover have "i_size fs = 28"
    using length_content [OF fs(2)] fs(2,3) image_parts [OF j] by (simp add: wf_sfs_def)
  ultimately obtain fs' where w: "onefilefs_write (\<lambda>_. True) 10000 fs ''xyz'' 3 0 = Some (int 3, fs', i_size fs + 3)"
    using write_completes [OF fs(2), of 3 "''xyz''" 10000 0] image_capacity [OF j, of "replicate 4068 NUL"] by auto
  from remount_loses_appended [OF _ fs(1,2) _ w] obtain fs'' where
    "mount_file (\<lambda>_. True) (device fs') = Some fs''" "content fs'' = content fs" by auto
  with fs(1) w show ?thesis by (metis of_nat_numeral)
qed

text \<open>
  The entries of the directory. Successive calls of \<open>onefilefs_iterate\<close> hand out the three entries
  in order, each exactly once, whichever of them the caller has no room for at first; each is
  announced with a name of 255 bytes, whatever the length of its name.
\<close>

theorem onefilefs_iterate_in_order:
  assumes "0 \<le> pos" "pos \<le> 3" "onefilefs_iterate emit pos = (r, pos', es)"
  shows "r = 0 \<and> pos \<le> pos' \<and> pos' \<le> 3 \<and>
         es = take (nat (pos' - pos))
                (drop (nat pos) [(''.'', 255, 10), (''..'', 255, 1), (''the-file'', 255, 1)]) \<and>
         (emit ''.'' \<and> emit ''..'' \<and> emit ''the-file'' \<longrightarrow> pos' = 3)"
proof -
  from assms(1,2) have "pos = 0 \<or> pos = 1 \<or> pos = 2 \<or> pos = 3" by auto
  then show ?thesis
    using assms(3)
    by (elim disjE) (auto simp: onefilefs_iterate_def UNIQUE_FILE_NAME_def FILENAME_MAXLEN_def
        SINGLEFILEFS_ROOT_INODE_NUMBER_def SINGLEFILEFS_FILE_INODE_NUMBER_def split: if_splits)
qed

theorem onefilefs_iterate_in_order_witness:
  "fst (onefilefs_iterate (\<lambda>n. n \<noteq> ''the-file'') 1) = 0 \<and>
   1 \<le> fst (snd (onefilefs_iterate (\<lambda>n. n \<noteq> ''the-file'') 1))"
proof -
  obtain r pos' es where it: "onefilefs_iterate (\<lambda>n. n \<noteq> ''the-file'') 1 = (r, pos', es)"
    by (metis prod_cases3)
  from onefilefs_iterate_in_order [OF _ _ it] show ?thesis by (simp add: it)
qed

end
