(* ===== verification/Ref_Defer.thy ===== *)
theory Ref_Defer
  imports Monitor_State Singlefile_FS
begin

text \<open>
  \<^verbatim>\<open>reference-monitor/lib/reference_defer.c\<close>: the record of a denied attempt. \<open>defer_top_half\<close> runs in
  the thread that was denied and queues a work item; \<open>defer_bottom_half\<close> runs in the worker, reads
  and hashes the program file and appends one line to the log. Opening and reading the program
  file and opening the log are the kernel's and come as the record \<open>io_env\<close>; the write to the log
  goes to the mounted file system and is the argument \<open>log_append\<close>.
\<close>

section \<open>Definitions\<close>

definition defer_top_half :: "kenv \<Rightarrow> rm_state \<Rightarrow> rm_state option" where
  "defer_top_half e st =
     (if \<not> alloc_ok e A_work_data then Some st
      else if \<not> task_mm e then Some st
      else case exe_file e of
             None \<Rightarrow> Some st
           | Some f \<Rightarrow>
               (case dentry_path_raw e f MAX_FILE_NAME of
                  Inl _ \<Rightarrow> None
                | Inr name \<Rightarrow>
                    let path_len = min (length (cstr name)) MAX_FILE_NAME in
                    if \<not> alloc_ok e A_work_path then Some st
                    else
                      let data = \<lparr>w_tgid = tgid e, w_tid = pid e, w_uid = uid e, w_euid = euid e,
                                  path_name = take path_len (cstr name)\<rparr>
                      in Some (st\<lparr>deferred_queue := deferred_queue st @ [data]\<rparr>)))"

record io_env =
  exe_open :: "string \<Rightarrow> int + char list"  \<comment> \<open>\<open>filp_open\<close>: the contents of the file, \<open>i_size\<close> bytes\<close>
  exe_read :: "string \<Rightarrow> int"              \<comment> \<open>result of \<open>kernel_read\<close>: bytes read or an error\<close>
  log_open :: "string \<Rightarrow> int"              \<comment> \<open>0 or an error\<close>

text \<open>
  \<open>sprintf(buffer, "%d,%d,%d,%d,%s,%s\n", ...)\<close>; the user ids are unsigned and printed as signed.
\<close>

definition log_line :: "work_data \<Rightarrow> string \<Rightarrow> string" where
  "log_line data ciphertext =
     show_int (w_tgid data) @ '','' @ show_int (w_tid data) @ '','' @
     show_int (sint (w_uid data)) @ '','' @ show_int (sint (w_euid data)) @ '','' @
     path_name data @ '','' @ ciphertext @ [CHR 0x0A]"

text \<open>
  \<open>file_contents\<close> after \<open>kernel_read\<close> and the store of the terminator at index \<open>i_size\<close>.
\<close>

definition file_block :: "kenv \<Rightarrow> char list \<Rightarrow> int \<Rightarrow> cbuf" where
  "file_block e file ret =
     (take (nat ret) file @ drop (nat ret) (fresh_mem e A_file_contents (length file + 1)))[length file := NUL]"

definition defer_bottom_half ::
    "kenv \<Rightarrow> io_env \<Rightarrow> (char list \<Rightarrow> 'fs \<Rightarrow> (int \<times> 'fs) option) \<Rightarrow> rm_state \<Rightarrow> work_data \<Rightarrow> 'fs \<Rightarrow> 'fs option" where
  "defer_bottom_half e io log_append st data fs =
     (if \<not> alloc_ok e A_ciphertext then Some fs
      else case exe_open io (path_name data) of
             Inl _ \<Rightarrow> Some fs
           | Inr file \<Rightarrow>
               if \<not> alloc_ok e A_file_contents then Some fs
               else if exe_read io (path_name data) < 0 then Some fs
               else do {
                 h \<leftarrow> hash_plaintext e (Some (salt st)) (Some (replicate DIGEST_SIZE NUL))
                        (Some (cstr (file_block e file (exe_read io (path_name data)))));
                 (case h of
                    Inl ret \<Rightarrow> Some fs
                  | Inr ciphertext \<Rightarrow>
                      if \<not> alloc_ok e A_log_buffer then Some fs
                      else if log_open io (single_file_name st) < 0 then Some fs
                      else map_option snd (log_append (log_line data (cstr ciphertext)) fs))
               })"

text \<open>The worker of the single-threaded queue: items are taken in the order they were queued.\<close>

fun run_queue ::
    "kenv \<Rightarrow> io_env \<Rightarrow> (char list \<Rightarrow> 'fs \<Rightarrow> (int \<times> 'fs) option) \<Rightarrow> rm_state \<Rightarrow> work_data list \<Rightarrow> 'fs \<Rightarrow> 'fs option" where
  "run_queue e io log_append st [] fs = Some fs"
| "run_queue e io log_append st (w # ws) fs =
     do { fs' \<leftarrow> defer_bottom_half e io log_append st w fs; run_queue e io log_append st ws fs' }"

section \<open>The line that is written\<close>

lemma abs_sint32: "\<bar>sint (w :: 32 word)\<bar> < 10 ^ 10"
  using sint_greater_eq [of w] sint_less [of w] by simp

text \<open>
  A work item as \<open>defer_top_half\<close> builds it: the name of the program fits its array, and the ids are
  32-bit integers.
\<close>

definition wf_work :: "work_data \<Rightarrow> bool" where
  "wf_work w = (length (path_name w) \<le> MAX_FILE_NAME \<and> \<bar>w_tgid w\<bar> < 2 ^ 31 \<and> \<bar>w_tid w\<bar> < 2 ^ 31)"

lemma length_log_line:
  assumes "wf_work w" "length h \<le> SHA512_LENGTH * 2"
  shows "length (log_line w h) \<le> 434"
proof -
  have "length (show_int (w_tgid w)) \<le> 11" "length (show_int (w_tid w)) \<le> 11"
    using assms(1) by (auto simp: wf_work_def intro: length_show_int)
  then show ?thesis
    using assms length_show_int [OF abs_sint32, of "w_uid w"] length_show_int [OF abs_sint32, of "w_euid w"]
    by (simp add: log_line_def wf_work_def MAX_FILE_NAME_def hash_sizes)
qed

lemma hash_plaintext_length:
  assumes "hash_plaintext e sa c p = Some (Inr out)"
  shows "length (cstr out) \<le> SHA512_LENGTH * 2"
  using assms
  by (cases "salt_text e sa p"; cases "the (salt_text e sa p)")
     (auto simp: hash_plaintext_def cstr_strncpy_zeroed simp del: replicate.simps replicate_Suc split: if_splits)

section \<open>One work item\<close>

definition full_read :: "io_env \<Rightarrow> string \<Rightarrow> char list \<Rightarrow> bool" where
  "full_read io p file = (exe_open io p = Inr file \<and> exe_read io p = int (length file))"

lemma file_block_full: "cstr (file_block e file (int (length file))) = cstr file"
proof -
  have "file_block e file (int (length file)) = file @ (drop (length file) (fresh_mem e A_file_contents (length file + 1)))[0 := NUL]"
    by (simp add: file_block_def list_update_append)
  moreover have "cstr (m[0 := NUL]) = []" for m by (cases m) simp_all
  ultimately show ?thesis
    by (cases "NUL \<in> set file") (simp_all add: cstr_append_NUL cstr_append cstr_id)
qed

lemma defer_bottom_half_ok:
  assumes "zeroed e" "mem_ok e" "sha512_ok e" "full_read io (path_name w) file"
    and "log_open io (single_file_name st) = 0"
  shows "defer_bottom_half e io log_append st w fs =
     map_option snd (log_append (log_line w (hex_string (digest e (salt st) (cstr file)))) fs)"
  using assms(4,5) hash_plaintext_zeroed [OF assms(1-3), of "cstr file"] assms(2)
  by (simp add: defer_bottom_half_def full_read_def file_block_full)

lemma defer_bottom_half_cases:
  assumes "defer_bottom_half e io log_append st w fs = Some fs'"
  obtains (silent) "fs' = fs" | (logged) h r where "length h \<le> SHA512_LENGTH * 2" "log_append (log_line w h) fs = Some (r, fs')"
proof (cases "fs' = fs")
  case False
  with assms obtain f c where
    h: "hash_plaintext e (Some (salt st)) (Some (replicate DIGEST_SIZE NUL))
          (Some (cstr (file_block e f (exe_read io (path_name w))))) = Some (Inr c)"
    and a: "map_option snd (log_append (log_line w (cstr c)) fs) = Some fs'"
    by (auto simp: defer_bottom_half_def split: if_splits sum.split_asm Option.bind_split_asm)
  from a obtain r where "log_append (log_line w (cstr c)) fs = Some (r, fs')" by auto
  with hash_plaintext_length [OF h] show thesis by (rule logged)
qed (rule silent)

section \<open>The queue and the log\<close>

context append_log
begin

text \<open>Whatever happens to the individual items, the log grows by lines of queued items, in order.\<close>

lemma run_queue_log:
  assumes "434 \<le> limit" "invar fs" "\<forall>w \<in> set ws. wf_work w" "run_queue e io log_append st ws fs = Some fs'"
  shows "invar fs' \<and> (\<exists>ps. subseq (map fst ps) ws \<and>
           content fs' = content fs @ concat (map (\<lambda>(w, h). log_line w h) ps))"
  using assms(2-)
proof (induction ws arbitrary: fs)
  case Nil
  then show ?case by (auto intro: exI [of _ "[]"])
next
  case (Cons w ws)
  then obtain fs1 where bh: "defer_bottom_half e io log_append st w fs = Some fs1"
    and rest: "run_queue e io log_append st ws fs1 = Some fs'"
    by (auto simp: bind_eq_Some_conv)
  from bh have "invar fs1 \<and> (content fs1 = content fs \<or> (\<exists>h. content fs1 = content fs @ log_line w h))"
  proof (cases rule: defer_bottom_half_cases)
    case silent
    with Cons.prems(1) show ?thesis by simp
  next
    case (logged h r)
    have "length (log_line w h) \<le> limit"
      using length_log_line [OF _ logged(1), of w] Cons.prems(2) assms(1) by simp
    from append_invar [OF Cons.prems(1) this logged(2)] append_content [OF Cons.prems(1) this logged(2)]
    show ?thesis
      by (auto split: if_splits)
  qed
  with Cons.IH [OF _ _ rest] Cons.prems(2) have "invar fs' \<and> (\<exists>ps. subseq (map fst ps) ws \<and>
      content fs' = content fs1 @ concat (map (\<lambda>(w, h). log_line w h) ps))"
    and "content fs1 = content fs \<or> (\<exists>h. content fs1 = content fs @ log_line w h)"
    by auto
  then obtain ps where inv: "invar fs'" and ps: "subseq (map fst ps) ws"
    and c: "content fs' = content fs1 @ concat (map (\<lambda>(w, h). log_line w h) ps)"
    and c1: "content fs1 = content fs \<or> (\<exists>h. content fs1 = content fs @ log_line w h)"
    by blast
  from c1 show ?case
  proof
    assume "content fs1 = content fs"
    with inv ps c show ?thesis by (auto intro: exI [of _ ps])
  next
    assume "\<exists>h. content fs1 = content fs @ log_line w h"
    then obtain h where "content fs1 = content fs @ log_line w h" ..
    with inv ps c show ?thesis by (auto intro: exI [of _ "(w, h) # ps"])
  qed
qed

end

context roomy_log
begin

text \<open>When every file can be read and the log has room, the log gets one line per item.\<close>

lemma run_queue_complete:
  assumes "434 \<le> limit" "zeroed e" "mem_ok e" "sha512_ok e" "log_open io (single_file_name st) = 0"
  shows "invar fs \<Longrightarrow> \<forall>w \<in> set ws. wf_work w \<and> full_read io (path_name w) (files w) \<Longrightarrow>
     434 * length ws \<le> room fs \<Longrightarrow>
     \<exists>fs'. run_queue e io log_append st ws fs = Some fs' \<and> invar fs' \<and>
       content fs' = content fs @
         concat (map (\<lambda>w. log_line w (hex_string (digest e (salt st) (cstr (files w))))) ws)"
proof (induction ws arbitrary: fs)
  case (Cons w ws)
  let ?h = "hex_string (digest e (salt st) (cstr (files w)))"
  have "length ?h \<le> SHA512_LENGTH * 2" using assms(4) by (simp add: digest_def hash_sizes)
  then have len: "length (log_line w ?h) \<le> 434"
    using length_log_line [of w ?h] Cons.prems(2) by simp
  then have lim: "length (log_line w ?h) \<le> limit" "length (log_line w ?h) \<le> room fs"
    using assms(1) Cons.prems(3) by auto
  have "log_line w ?h \<noteq> []" by (simp add: log_line_def)
  from room_ok [OF Cons.prems(1) this lim] obtain fs1 where
    a: "log_append (log_line w ?h) fs = Some (int (length (log_line w ?h)), fs1)"
    and r: "room fs \<le> room fs1 + length (log_line w ?h)"
    by blast
  have c: "content fs1 = content fs @ log_line w ?h" "invar fs1"
    using append_content [OF Cons.prems(1) lim(1) a] append_invar [OF Cons.prems(1) lim(1) a] by simp_all
  have "full_read io (path_name w) (files w)" using Cons.prems(2) by simp
  from defer_bottom_half_ok [OF assms(2-4) this assms(5), of log_append fs]
  have "defer_bottom_half e io log_append st w fs = Some fs1" using a by simp
  moreover have "434 * length ws \<le> room fs1" using r len Cons.prems(3) by simp
  ultimately show ?case using Cons.IH [OF c(2)] Cons.prems(2) c(1) by auto
qed simp

end

end
