(* ===== verification/Ref_Hooks.thy ===== *)
theory Ref_Hooks
  imports Ref_Syscalls Ref_Defer
begin

text \<open>
  \<^verbatim>\<open>reference-monitor/lib/reference_hooks.c\<close>: the handlers that run before \<open>do_filp_open\<close>,
  \<open>vfs_mkdir\<close>, \<open>vfs_rmdir\<close> and \<open>vfs_unlink\<close> and after their return, on x86-64. A handler's result
  is its return value, the field \<open>hook_error\<close> it leaves in the probe instance, whether it replaced
  the first argument register, and the new state of the monitor; \<open>None\<close> is a fault in one of the
  routines it calls.
\<close>

section \<open>Definitions\<close>

record filename =
  fname :: "string option"        \<comment> \<open>\<open>pathname->name\<close>, the kernel's copy\<close>
  uptr :: "char list option"      \<comment> \<open>\<open>pathname->uptr\<close>: what user memory holds there now\<close>

record hook_out =
  h_ret :: int
  hook_error :: int
  di_replaced :: bool

definition pass :: hook_out where
  "pass = \<lparr>h_ret = 0, hook_error = 0, di_replaced = False\<rparr>"

definition WRITE_MASK :: "32 word" where
  "WRITE_MASK = O_RDWR OR O_WRONLY OR O_TRUNC OR O_APPEND"

text \<open>From label \<open>do_filp_open_defer_work\<close> on.\<close>

definition open_denied :: "kenv \<Rightarrow> rm_state \<Rightarrow> (hook_out \<times> rm_state) option" where
  "open_denied e st =
     do {
       st' \<leftarrow> defer_top_half e st;
       Some (\<lparr>h_ret = 0, hook_error = - EACCES, di_replaced = True\<rparr>, st')
     }"

text \<open>Marking the inode of the name in the buffer, then the deferred work; a failed lookup lets go.\<close>

definition mark_and_deny :: "kenv \<Rightarrow> rm_state \<Rightarrow> string \<Rightarrow> (hook_out \<times> rm_state) option" where
  "mark_and_deny e st name =
     do {
       (r, ino) \<leftarrow> mark_inode_read_only_by_pathname e (inodes st) name;
       (if r \<noteq> 0 then Some (pass, st) else open_denied e (st\<lparr>inodes := ino\<rparr>))
     }"

text \<open>The decision, from the call of \<open>check_black_list\<close> on.\<close>

definition open_decide ::
    "kenv \<Rightarrow> rm_state \<Rightarrow> string \<Rightarrow> bool \<Rightarrow> bool \<Rightarrow> 32 word \<Rightarrow> (hook_out \<times> rm_state) option" where
  "open_decide e st name is_dir is_swap flags =
     do {
       ret \<leftarrow> check_black_list e st (Some name) True;
       (if ret = 0 then
          if is_dir \<and> flags AND O_CREAT \<noteq> 0 then mark_and_deny e st name
          else if is_swap then open_denied e st
          else if flags AND WRITE_MASK \<noteq> 0 then mark_and_deny e st name
          else Some (pass, st)
        else Some (pass, st))
     }"

definition pre_do_filp_open_handler ::
    "kenv \<Rightarrow> rm_state \<Rightarrow> filename \<Rightarrow> 32 word \<Rightarrow> (hook_out \<times> rm_state) option" where
  "pre_do_filp_open_handler e st pathname flags =
     (case fname pathname of
        None \<Rightarrow> Some (pass, st)
      | Some filename \<Rightarrow>
          if forbitten_path st (Some filename) \<noteq> 0 then Some (pass, st)
          else case uptr pathname of
            None \<Rightarrow> Some (pass, st)
          | Some user \<Rightarrow>
              if \<not> alloc_ok e A_hook_buffer then Some (pass\<lparr>hook_error := - ENOMEM\<rparr>, st)
              else do {
                let (n, copied) = copy_from_user user PATH_MAX;
                let buffer = (if int n < 0
                              then (strncpy_len (replicate PATH_MAX NUL) filename)[length filename := NUL]
                              else copied);
                _ \<leftarrow> c_string buffer;
                (ret, b) \<leftarrow> fill_with_swap_filter e buffer;
                (if ret < 0 then
                   if ret = - ENOMEM then Some (pass\<lparr>hook_error := - ENOMEM\<rparr>, st)
                   else if ret = - ENOENT then do {
                     let b1 = (case get_parent_path (Some b) of None \<Rightarrow> b | Some b' \<Rightarrow> b');
                     (ret2, b2) \<leftarrow> fill_absolute_path e (Some b1);
                     (if ret2 \<noteq> 0 then
                        Some (if ret2 = - ENOMEM then pass\<lparr>hook_error := - ENOMEM\<rparr> else pass, st)
                      else do {
                        name \<leftarrow> c_string b2;
                        open_decide e st name True False flags
                      })
                   }
                   else do { name \<leftarrow> c_string b; open_decide e st name False False flags }
                 else do { name \<leftarrow> c_string b; open_decide e st name False (ret = 1) flags })
              })"

definition pre_vfs_mk_rmdir_handler ::
    "kenv \<Rightarrow> rm_state \<Rightarrow> dentry_ptr option \<Rightarrow> (hook_out \<times> rm_state) option" where
  "pre_vfs_mk_rmdir_handler e st dentry =
     (if \<not> alloc_ok e A_hook_buffer then Some (pass\<lparr>h_ret := - ENOMEM\<rparr>, st)
      else case dentry of
             None \<Rightarrow> Some (pass, st)
           | Some d \<Rightarrow>
               (case d_parent e d of
                  None \<Rightarrow> Some (pass, st)
                | Some parent \<Rightarrow> do {
                    let (ret, b) = fill_path_by_dentry e (Some parent) (replicate PATH_MAX NUL);
                    chk \<leftarrow> check_black_list e st (Some (cstr b)) False;
                    (if chk = 0 then do {
                       i \<leftarrow> d_inode e parent;
                       st' \<leftarrow> defer_top_half e
                               (st\<lparr>inodes := (inodes st)(i := mark_inode_read_only (inodes st i))\<rparr>);
                       Some (pass\<lparr>hook_error := - EACCES\<rparr>, st')
                     }
                     else Some (pass, st))
                  }))"

text \<open>The immutable flag the unlink handler sets itself before \<open>mark_inode_read_only\<close>.\<close>

definition protect_unlink :: "inode \<Rightarrow> inode" where
  "protect_unlink i = mark_inode_read_only (i\<lparr>i_flags := i_flags i OR S_IMMUTABLE\<rparr>)"

definition pre_vfs_unlink_handler ::
    "kenv \<Rightarrow> rm_state \<Rightarrow> dentry_ptr option \<Rightarrow> (hook_out \<times> rm_state) option" where
  "pre_vfs_unlink_handler e st dentry =
     (if \<not> alloc_ok e A_hook_buffer then Some (pass\<lparr>h_ret := - ENOMEM\<rparr>, st)
      else case dentry of
             None \<Rightarrow> Some (pass, st)
           | Some d \<Rightarrow> do {
               let (ret, b) = fill_path_by_dentry e (Some d) (replicate PATH_MAX NUL);
               chk \<leftarrow> check_black_list e st (Some (cstr b)) False;
               (if chk = 0 then do {
                  i \<leftarrow> d_inode e d;
                  st' \<leftarrow> defer_top_half e (st\<lparr>inodes := (inodes st)(i := protect_unlink (inodes st i))\<rparr>);
                  Some (pass\<lparr>hook_error := - EACCES\<rparr>, st')
                }
                else case d_parent e d of
                       None \<Rightarrow> Some (pass, st)
                     | Some parent \<Rightarrow> do {
                         let (ret, b) = fill_path_by_dentry e (Some parent) (replicate PATH_MAX NUL);
                         chk \<leftarrow> check_black_list e st (Some (cstr b)) False;
                         (if chk = 0 then do {
                            i \<leftarrow> d_inode e parent;
                            st' \<leftarrow> defer_top_half e
                                    (st\<lparr>inodes := (inodes st)(i := mark_inode_dirty (protect_unlink (inodes st i)))\<rparr>);
                            Some (pass\<lparr>hook_error := - EACCES\<rparr>, st')
                          }
                          else Some (pass, st))
                       })
             })"

text \<open>The return handlers: the value left in the result register.\<close>

definition reference_kret_handler :: "int \<Rightarrow> int \<Rightarrow> int" where
  "reference_kret_handler error ax = (if error \<noteq> 0 then error else ax)"

definition post_dir_handler :: "int \<Rightarrow> int \<Rightarrow> int" where
  "post_dir_handler error ax = error"

section \<open>Probed calls\<close>

text \<open>
  A call of a function with a return probe. The mechanism is the kernel's, described by its documentation of
  kretprobes; the handlers and the numbers of the probes are wired as \<open>reference_monitor_init\<close> does: with the probe
  disabled the function runs alone; otherwise the entry handler runs first, the function runs
  (\<open>orig\<close>, its own result, may depend on the replaced register and on the inodes the handler
  left), and its result goes through the return handler unless the entry handler returned
  non-zero, in which case the kernel skips the return handler.
\<close>

definition probed_call ::
    "rm_state \<Rightarrow> nat \<Rightarrow> (hook_out \<times> rm_state) option \<Rightarrow> (int \<Rightarrow> int \<Rightarrow> int) \<Rightarrow>
     (bool \<Rightarrow> inode_table \<Rightarrow> int) \<Rightarrow> (int \<times> rm_state) option" where
  "probed_call st k pre post orig =
     (if k < length (probes st) \<and> enabled (probes st ! k) then
        do {
          (out, st') \<leftarrow> pre;
          let ax = orig (di_replaced out) (inodes st');
          Some (if h_ret out \<noteq> 0 then ax else post (hook_error out) ax, st')
        }
      else Some (orig False (inodes st), st))"

definition hooked_open ::
    "kenv \<Rightarrow> rm_state \<Rightarrow> filename \<Rightarrow> 32 word \<Rightarrow> (bool \<Rightarrow> inode_table \<Rightarrow> int) \<Rightarrow> (int \<times> rm_state) option" where
  "hooked_open e st f flags = probed_call st 0 (pre_do_filp_open_handler e st f flags) reference_kret_handler"

definition hooked_mkdir ::
    "kenv \<Rightarrow> rm_state \<Rightarrow> dentry_ptr option \<Rightarrow> (bool \<Rightarrow> inode_table \<Rightarrow> int) \<Rightarrow> (int \<times> rm_state) option" where
  "hooked_mkdir e st d = probed_call st 1 (pre_vfs_mk_rmdir_handler e st d) post_dir_handler"

definition hooked_rmdir ::
    "kenv \<Rightarrow> rm_state \<Rightarrow> dentry_ptr option \<Rightarrow> (bool \<Rightarrow> inode_table \<Rightarrow> int) \<Rightarrow> (int \<times> rm_state) option" where
  "hooked_rmdir e st d = probed_call st 2 (pre_vfs_mk_rmdir_handler e st d) post_dir_handler"

definition hooked_unlink ::
    "kenv \<Rightarrow> rm_state \<Rightarrow> dentry_ptr option \<Rightarrow> (bool \<Rightarrow> inode_table \<Rightarrow> int) \<Rightarrow> (int \<times> rm_state) option" where
  "hooked_unlink e st d = probed_call st 3 (pre_vfs_unlink_handler e st d) post_dir_handler"

section \<open>What the handlers may change\<close>

text \<open>
  A handler changes inodes and queues records of the calling thread, and nothing else.
\<close>

definition own_record :: "kenv \<Rightarrow> work_data \<Rightarrow> bool" where
  "own_record e w = (w_tgid w = tgid e \<and> w_tid w = pid e \<and> w_uid w = uid e \<and> w_euid w = euid e \<and>
     length (path_name w) \<le> MAX_FILE_NAME)"

definition hook_effect :: "kenv \<Rightarrow> rm_state \<Rightarrow> rm_state \<Rightarrow> bool" where
  "hook_effect e st st' = (\<exists>ino q. st' = st\<lparr>inodes := ino, deferred_queue := deferred_queue st @ q\<rparr> \<and>
     (\<forall>w \<in> set q. own_record e w))"

lemma hook_effect_refl [simp]: "hook_effect e st st"
  unfolding hook_effect_def by (intro exI [of _ "inodes st"] exI [of _ "[]"]) simp

lemma hook_effect_inodes [simp]: "hook_effect e (st\<lparr>inodes := ino\<rparr>) st' \<Longrightarrow> hook_effect e st st'"
  by (auto simp: hook_effect_def)

lemma hook_effect_queue [simp]: "own_record e w \<Longrightarrow> hook_effect e st (st\<lparr>deferred_queue := deferred_queue st @ [w]\<rparr>)"
  unfolding hook_effect_def by (intro exI [of _ "inodes st"] exI [of _ "[w]"]) simp

lemma defer_top_half_effect: "defer_top_half e st = Some st' \<Longrightarrow> hook_effect e st st'"
  by (auto simp: defer_top_half_def Let_def own_record_def split: if_splits option.split_asm sum.split_asm)

lemma open_denied_effect: "open_denied e st = Some (out, st') \<Longrightarrow> hook_effect e st st'"
  by (auto simp: open_denied_def bind_eq_Some_conv dest: defer_top_half_effect)

lemma mark_and_deny_effect: "mark_and_deny e st n = Some (out, st') \<Longrightarrow> hook_effect e st st'"
  by (auto simp: mark_and_deny_def bind_eq_Some_conv split: if_splits
      dest!: open_denied_effect)

lemma open_decide_effect: "open_decide e st n d w fl = Some (out, st') \<Longrightarrow> hook_effect e st st'"
  by (auto simp: open_decide_def bind_eq_Some_conv split: if_splits
      dest: open_denied_effect mark_and_deny_effect)

lemma pre_open_effect:
  assumes "pre_do_filp_open_handler e st f fl = Some (out, st')"
  shows "hook_effect e st st'"
  using assms unfolding pre_do_filp_open_handler_def
  by (auto simp: Let_def bind_eq_Some_conv split: option.split_asm if_splits prod.split_asm
      dest: open_decide_effect)

lemma pre_mk_rmdir_effect:
  assumes "pre_vfs_mk_rmdir_handler e st d = Some (out, st')"
  shows "hook_effect e st st'"
  using assms unfolding pre_vfs_mk_rmdir_handler_def
  by (auto simp: Let_def bind_eq_Some_conv split: option.split_asm if_splits prod.split_asm
      dest!: defer_top_half_effect)

lemma pre_unlink_effect:
  assumes "pre_vfs_unlink_handler e st d = Some (out, st')"
  shows "hook_effect e st st'"
  using assms unfolding pre_vfs_unlink_handler_def
  by (auto simp: Let_def bind_eq_Some_conv split: option.split_asm if_splits prod.split_asm
      dest!: defer_top_half_effect)

lemma probed_call_effect:
  assumes "probed_call st k pre post orig = Some (r, st')"
    and "\<And>out s. pre = Some (out, s) \<Longrightarrow> hook_effect e st s"
  shows "hook_effect e st st'"
  using assms by (auto simp: probed_call_def bind_eq_Some_conv Let_def split: if_splits)

lemmas hook_effects = pre_open_effect pre_mk_rmdir_effect pre_unlink_effect

lemma hooked_effects:
  "hooked_open e st f fl orig = Some (r, st') \<Longrightarrow> hook_effect e st st'"
  "hooked_mkdir e st d orig = Some (r, st') \<Longrightarrow> hook_effect e st st'"
  "hooked_rmdir e st d orig = Some (r, st') \<Longrightarrow> hook_effect e st st'"
  "hooked_unlink e st d orig = Some (r, st') \<Longrightarrow> hook_effect e st st'"
  unfolding hooked_open_def hooked_mkdir_def hooked_rmdir_def hooked_unlink_def
  by (erule probed_call_effect, erule hook_effects)+

lemma hook_effect_frame:
  assumes "hook_effect e st st'"
  shows "pwd st' = pwd st" "salt st' = salt st" "admin st' = admin st"
    "current_state st' = current_state st" "single_file_name st' = single_file_name st"
    "restrict_path_list st' = restrict_path_list st" "probes st' = probes st"
    "prefix (deferred_queue st) (deferred_queue st')"
  using assms by (auto simp: hook_effect_def)

lemma hook_effect_wf:
  assumes "hook_effect e st st'" "wf_rm st"
  shows "wf_rm st'"
proof -
  note f = hook_effect_frame [OF assms(1)]
  have "wf_list st'" using assms(2) wf_list_cong [OF f(6,5)] by (simp add: wf_rm_def)
  from wf_rm_cong [OF assms(2) this f(7,4)] show ?thesis .
qed

text \<open>Which probes are armed in a well-formed monitor.\<close>

lemma wf_rm_probe:
  assumes "wf_rm st" "k < HOOKS_SIZE"
  shows "k < length (probes st) \<and>
         enabled (probes st ! k) = (current_state st = word_of_int ON \<or> current_state st = word_of_int REC_ON)"
proof -
  from assms obtain s where s: "is_rm_state s" "current_state st = word_of_int s"
    and p: "\<forall>p \<in> set (probes st). enabled p = enabling s" and "length (probes st) = HOOKS_SIZE"
    by (auto simp: wf_rm_def)
  with assms(2) have "enabled (probes st ! k) = enabling s" by simp
  moreover have "enabling s = (word_of_int s = (word_of_int ON :: 64 word) \<or>
      word_of_int s = (word_of_int REC_ON :: 64 word))"
    using s(1) by (auto simp: is_rm_state_def enabling_def)
  ultimately show ?thesis using s(2) \<open>length (probes st) = HOOKS_SIZE\<close> assms(2) by simp
qed

definition protecting :: "rm_state \<Rightarrow> bool" where
  "protecting st = (current_state st = word_of_int ON \<or> current_state st = word_of_int REC_ON)"

lemma probed_call_on:
  assumes "wf_rm st" "protecting st" "k < HOOKS_SIZE" "pre = Some (out, st')" "h_ret out = 0"
  shows "probed_call st k pre post orig =
     Some (post (hook_error out) (orig (di_replaced out) (inodes st')), st')"
  using assms wf_rm_probe [OF assms(1,3)] by (simp add: probed_call_def protecting_def)

lemma probed_call_off:
  assumes "wf_rm st" "\<not> protecting st" "k < HOOKS_SIZE"
  shows "probed_call st k pre post orig = Some (orig False (inodes st), st)"
  using assms wf_rm_probe [OF assms(1,3)] by (simp add: probed_call_def protecting_def)

section \<open>Names in the hook's buffer\<close>

lemma copy_clean:
  "length p < PATH_MAX \<Longrightarrow> copy_from_user (p @ replicate n NUL) PATH_MAX =
     (PATH_MAX - (length p + n), clean_buf p)"
  by (auto simp: copy_from_user_def clean_buf_def replicate_add [symmetric] min_def)

lemma ends_with_suffix:
  assumes "NUL \<notin> set p" "NUL \<notin> set k" "length k \<le> length p"
  shows "ends_with (clean_buf p) (length p) k = suffix k p"
proof -
  have nd: "NUL \<notin> set (drop n p)" for n using assms(1) by (auto dest: in_set_dropD)
  have "cstr (drop (length p - length k) (clean_buf p)) = drop (length p - length k) p"
    by (simp add: clean_buf_def cstr_append [OF nd])
  then have "ends_with (clean_buf p) (length p) k = prefix k (drop (length p - length k) p)"
    using assms(2) by (simp add: ends_with_def strncmp_const_prefix)
  also have "\<dots> = (drop (length p - length k) p = k)"
  proof
    assume "prefix k (drop (length p - length k) p)"
    then obtain zs where zs: "drop (length p - length k) p = k @ zs" by (auto simp: prefix_def)
    then have "length (drop (length p - length k) p) = length k + length zs" by simp
    then have "length zs = 0" using assms(3) by simp
    with zs show "drop (length p - length k) p = k" by simp
  qed simp
  also have "\<dots> = suffix k p"
    by (metis append_take_drop_id suffix_drop suffix_take suffixI append_eq_conv_conj suffix_def
        length_append add_diff_cancel_right')
  finally show ?thesis .
qed

definition swap_like :: "string \<Rightarrow> bool" where
  "swap_like p = (suffix ''.swp'' p \<or> suffix ''.swpx'' p \<or> suffix ''~'' p)"

lemma is_swap_name_clean:
  "NUL \<notin> set p \<Longrightarrow> 6 \<le> length p \<Longrightarrow> is_swap_name (clean_buf p) (length p) = swap_like p"
  by (simp add: is_swap_name_def swap_like_def ends_with_suffix)

text \<open>
  A call of \<open>open\<close> as the hook sees it: the kernel's copy of the name passes the filter for
  forbidden prefixes, and user memory holds the name \<open>p\<close> followed by NUL bytes only.
\<close>

definition open_call :: "rm_state \<Rightarrow> filename \<Rightarrow> string \<Rightarrow> bool" where
  "open_call st f p = (\<exists>n k. fname f = Some n \<and> forbitten_path st (Some n) = 0 \<and>
     uptr f = Some (p @ replicate k NUL) \<and> NUL \<notin> set p \<and> length p < PATH_MAX)"

lemma filter_found:
  assumes "vfs_ok e" "mem_ok e" "NUL \<notin> set p" "6 \<le> length p" "length p < PATH_MAX" "\<not> swap_like p"
    and "lookup_name e p = Some q" "kern_path e q = Inr d" "dentry_path_raw e d PATH_MAX = Inr full"
  shows "fill_with_swap_filter e (clean_buf p) = Some (0, clean_buf full)"
  using assms fill_absolute_path_found [OF assms(1,2) clean_clean_buf [OF assms(3,5)], of q d full]
  by (simp add: fill_with_swap_filter_def is_swap_name_clean)

lemma filter_missing:
  assumes "vfs_ok e" "mem_ok e" "NUL \<notin> set p" "6 \<le> length p" "length p < PATH_MAX" "\<not> swap_like p"
    and "lookup_name e p = Some q" "kern_path e q = Inl err"
  shows "fill_with_swap_filter e (clean_buf p) = Some (- ENOENT, clean_buf q)"
  using assms fill_absolute_path_missing [OF assms(1,2) clean_clean_buf [OF assms(3,5)], of q err]
  by (simp add: fill_with_swap_filter_def is_swap_name_clean)

lemma pre_open_found:
  assumes "open_call st f p" "mem_ok e" "fill_with_swap_filter e (clean_buf p) = Some (ret, b)" "0 \<le> ret"
    and "NUL \<in> set b"
  shows "pre_do_filp_open_handler e st f flags = open_decide e st (cstr b) False (ret = 1) flags"
proof -
  from assms(1) obtain n k where "fname f = Some n" "forbitten_path st (Some n) = 0"
    "uptr f = Some (p @ replicate k NUL)" "length p < PATH_MAX"
    by (auto simp: open_call_def)
  with assms show ?thesis by (simp add: pre_do_filp_open_handler_def copy_clean c_string_def)
qed

lemma pre_open_missing:
  assumes "open_call st f p" "mem_ok e" "fill_with_swap_filter e (clean_buf p) = Some (- ENOENT, b)"
    and "get_parent_path (Some b) = Some b1" "fill_absolute_path e (Some b1) = Some (0, b2)"
    and "NUL \<in> set b2"
  shows "pre_do_filp_open_handler e st f flags = open_decide e st (cstr b2) True False flags"
proof -
  from assms(1) obtain n k where "fname f = Some n" "forbitten_path st (Some n) = 0"
    "uptr f = Some (p @ replicate k NUL)" "length p < PATH_MAX"
    by (auto simp: open_call_def)
  with assms show ?thesis by (simp add: pre_do_filp_open_handler_def copy_clean c_string_def)
qed

text \<open>The same with arbitrary bytes behind the name: they stay in the buffer.\<close>

lemma filter_dirty:
  assumes "mem_ok e" "NUL \<notin> set p" "6 \<le> length p" "length p < PATH_MAX"
    and "take 1 p = ''/''" "\<not> swap_like p" "kern_path e p = Inr d" "dentry_path_raw e d PATH_MAX = Inr full"
  shows "snd (copy_from_user (p @ NUL # rest) PATH_MAX) =
           p @ NUL # take (PATH_MAX - length p - 1) rest @ replicate (PATH_MAX - length (p @ NUL # rest)) NUL"
    and "fill_with_swap_filter e (snd (copy_from_user (p @ NUL # rest) PATH_MAX)) =
           Some (0, strncpy_len (memset0 (length p) (snd (copy_from_user (p @ NUL # rest) PATH_MAX))) full)"
proof -
  let ?b = "snd (copy_from_user (p @ NUL # rest) PATH_MAX)"
  have tk: "take PATH_MAX (p @ NUL # rest) = p @ NUL # take (PATH_MAX - length p - 1) rest"
    using assms(4) by (cases "PATH_MAX - length p") auto
  show b: "?b = p @ NUL # take (PATH_MAX - length p - 1) rest @ replicate (PATH_MAX - length (p @ NUL # rest)) NUL"
    by (simp only: copy_from_user_def snd_conv tk append.simps append_assoc)
  then obtain r where r: "?b = p @ NUL # r" by blast
  have cb: "cstr ?b = p" using assms(2) by (simp add: r cstr_append)
  have nul: "NUL \<in> set ?b" by (simp add: r)
  have "ends_with ?b (length p) k = ends_with (clean_buf p) (length p) k" for k
    using assms(2,4) by (simp add: ends_with_def r clean_buf_def strncmp_eq_0 cstr_drop_append del: drop_append)
  then have "\<not> is_swap_name ?b (length p)"
    using assms(2,3,6) is_swap_name_clean [of p] by (simp add: is_swap_name_def)
  then show "fill_with_swap_filter e ?b = Some (0, strncpy_len (memset0 (length p) ?b) full)"
    using assms(3) fill_absolute_path_dirty [OF assms(1) nul, of d full] assms(5,7,8)
    by (simp add: fill_with_swap_filter_def cb)
qed

lemma pre_open_canonical:
  assumes "vfs_ok e" "mem_ok e" "fname f = Some n" "forbitten_path st (Some n) = 0"
    and "uptr f = Some (p @ NUL # rest)" "NUL \<notin> set p" "6 \<le> length p" "length p < PATH_MAX"
    and "take 1 p = ''/''" "\<not> swap_like p" "kern_path e p = Inr d" "dentry_path_raw e d PATH_MAX = Inr p"
  shows "pre_do_filp_open_handler e st f flags = open_decide e st p False False flags"
proof -
  let ?b = "snd (copy_from_user (p @ NUL # rest) PATH_MAX)"
  note dirty = filter_dirty [OF assms(2,6-12), of rest]
  then obtain r where r: "?b = p @ NUL # r" by blast
  then have "strncpy_len (memset0 (length p) ?b) p = ?b" by (simp add: strncpy_len_def memset0_def)
  with dirty(2) have "fill_with_swap_filter e ?b = Some (0, ?b)" by (simp only:)
  moreover have "NUL \<in> set ?b" "cstr ?b = p" using assms(6) by (simp_all add: r cstr_append)
  ultimately show ?thesis
    using assms(2-5) by (simp add: pre_do_filp_open_handler_def split_beta Let_def c_string_def)
qed

text \<open>The record of the current task, and the state after a denial that marks inode \<open>i\<close>.\<close>

definition task_record :: "kenv \<Rightarrow> string \<Rightarrow> work_data" where
  "task_record e exe = \<lparr>w_tgid = tgid e, w_tid = pid e, w_uid = uid e, w_euid = euid e, path_name = exe\<rparr>"

definition exe_known :: "kenv \<Rightarrow> string \<Rightarrow> bool" where
  "exe_known e exe = (task_mm e \<and> (\<exists>f. exe_file e = Some f \<and> dentry_path_raw e f MAX_FILE_NAME = Inr exe))"

lemma defer_top_half_queues:
  assumes "vfs_ok e" "mem_ok e" "exe_known e exe"
  shows "defer_top_half e st = Some (st\<lparr>deferred_queue := deferred_queue st @ [task_record e exe]\<rparr>)"
proof -
  from assms(3) obtain f where f: "task_mm e" "exe_file e = Some f"
    "dentry_path_raw e f MAX_FILE_NAME = Inr exe"
    by (auto simp: exe_known_def)
  moreover from vfs_ok_rawD [OF assms(1) f(3)] have "NUL \<notin> set exe" "length exe < MAX_FILE_NAME" by auto
  ultimately show ?thesis
    using assms(2) by (simp add: defer_top_half_def task_record_def cstr_id min_def)
qed

definition after_denial :: "kenv \<Rightarrow> string \<Rightarrow> inode_ptr \<Rightarrow> rm_state \<Rightarrow> rm_state" where
  "after_denial e exe i st =
     st\<lparr>inodes := (inodes st)(i := mark_inode_read_only (inodes st i)),
        deferred_queue := deferred_queue st @ [task_record e exe]\<rparr>"

lemma mark_and_deny_eq:
  assumes "vfs_ok e" "mem_ok e" "exe_known e exe" "kern_path e name = Inr d" "d_inode e d = Some i"
  shows "mark_and_deny e st name =
     Some (\<lparr>h_ret = 0, hook_error = - EACCES, di_replaced = True\<rparr>, after_denial e exe i st)"
  using assms
  by (simp add: mark_and_deny_def mark_inode_read_only_by_pathname_def open_denied_def
      defer_top_half_queues after_denial_def)

lemma listed_found:
  assumes "vfs_ok e" "wf_list st" "name \<in> set (restricted st)"
  shows "check_black_list e st (Some name) is_open = Some 0"
proof -
  from assms wf_list_no_NUL have "NUL \<notin> set name" by blast
  from check_black_list_eq [OF assms(1,2) this] assms(3) show ?thesis by simp
qed

lemma pre_open_resolved:
  assumes "vfs_ok e" "mem_ok e" "open_call st f p" "6 \<le> length p" "\<not> swap_like p"
    and "lookup_name e p = Some q" "kern_path e q = Inr d" "dentry_path_raw e d PATH_MAX = Inr full"
  shows "pre_do_filp_open_handler e st f flags = open_decide e st full False False flags"
    and "NUL \<notin> set full"
proof -
  have p: "NUL \<notin> set p" "length p < PATH_MAX" using assms(3) by (auto simp: open_call_def)
  have full: "length full < PATH_MAX" "NUL \<notin> set full" using vfs_ok_rawD [OF assms(1,8)] by auto
  then show "NUL \<notin> set full" by simp
  moreover have "fill_with_swap_filter e (clean_buf p) = Some (0, clean_buf full)"
    using filter_found [OF assms(1,2) p(1) assms(4) p(2) assms(5-8)] .
  ultimately show "pre_do_filp_open_handler e st f flags = open_decide e st full False False flags"
    using pre_open_found [OF assms(3,2), of 0 "clean_buf full"] full by simp
qed

lemma hooked_open_pass:
  assumes "wf_rm st" "pre_do_filp_open_handler e st f flags = Some (pass, st)"
  shows "hooked_open e st f flags orig = Some (orig False (inodes st), st)"
  using assms probed_call_on [OF assms(1), of 0] probed_call_off [OF assms(1), of 0]
  by (cases "protecting st") (simp_all add: hooked_open_def HOOKS_SIZE_def reference_kret_handler_def pass_def)

text \<open>Creation of a file: the buffer after the lookup has failed and the name was cut at its last slash.\<close>

lemma parent_cut:
  assumes "x \<noteq> []" "CHR ''/'' \<notin> set n" "NUL \<notin> set (x @ ''/'' @ n)" "length (x @ ''/'' @ n) < PATH_MAX"
  shows "get_parent_path (Some (clean_buf (x @ ''/'' @ n))) =
           Some (x @ NUL # n @ replicate (PATH_MAX - length (x @ ''/'' @ n)) NUL)"
proof -
  obtain k where k: "PATH_MAX - length (x @ ''/'' @ n) = Suc k"
    using assms(4) by (metis Suc_diff_Suc)
  then have "clean_buf (x @ ''/'' @ n) = x @ CHR ''/'' # n @ NUL # replicate k NUL"
    by (simp add: clean_buf_def)
  then show ?thesis using get_parent_path_cut [of n x "replicate k NUL"] assms(1-3) k by simp
qed

lemma pre_open_create:
  assumes "vfs_ok e" "mem_ok e" "open_call st f p" "6 \<le> length p" "\<not> swap_like p"
    and "lookup_name e p = Some (x @ ''/'' @ n)" "take 1 x = ''/''" "CHR ''/'' \<notin> set n"
    and "kern_path e (x @ ''/'' @ n) = Inl err"
    and "kern_path e x = Inr d" "dentry_path_raw e d PATH_MAX = Inr full"
  shows "pre_do_filp_open_handler e st f flags =
     open_decide e st
       (if length full \<le> length x then full else full @ drop (length full - length x - 1) n) True False flags"
proof -
  let ?q = "x @ ''/'' @ n"
  have p: "NUL \<notin> set p" "length p < PATH_MAX" using assms(3) by (auto simp: open_call_def)
  have "lookup_name e (cstr (clean_buf p)) = Some ?q" using p assms(6) by simp
  from lookup_name_step [OF assms(1,2) clean_clean_buf [OF p] this]
  have q: "clean (clean_buf ?q)" and "cstr (clean_buf ?q) = ?q" by auto
  then have nq: "NUL \<notin> set ?q" "length ?q < PATH_MAX" by (metis cstr_no_NUL, metis cleanD)
  let ?b = "x @ NUL # n @ replicate (PATH_MAX - length ?q) NUL"
  have cb: "cstr ?b = x" using nq by (simp add: cstr_append)
  have full: "NUL \<notin> set full" "length full < PATH_MAX" using vfs_ok_rawD [OF assms(1,11)] by simp_all
  have "path_buf ?b" using nq(2) by (simp add: path_buf_def)
  then have "path_buf (strncpy_len (memset0 (length x) ?b) full)"
    using full(2) nq(2) by (intro path_buf_strncpy_len path_buf_memset0) simp_all
  note ended = path_buf_terminated [OF this]
  have b2: "fill_absolute_path e (Some ?b) = Some (0, strncpy_len (memset0 (length x) ?b) full)"
    using fill_absolute_path_dirty [OF assms(2), of ?b d full] assms(7,10,11) cb by simp
  have "NUL \<notin> set (drop m n)" for m using nq by (auto dest: in_set_dropD)
  then have "cstr (strncpy_len (memset0 (length x) ?b) full) =
      (if length full \<le> length x then full else full @ drop (length full - length x - 1) n)"
    using full by (cases "length full - length x") (simp_all add: strncpy_len_def memset0_def cstr_append)
  moreover have "get_parent_path (Some (clean_buf ?q)) = Some ?b"
    using assms(7,8) nq by (intro parent_cut) auto
  ultimately show ?thesis
    using pre_open_missing [OF assms(3,2) filter_missing [OF assms(1,2) p(1) assms(4) p(2) assms(5,6,9)] _ b2 ended] by simp
qed

text \<open>The name of an entry in a cleared buffer, and the handlers for directories and removal by it.\<close>

lemma dentry_name:
  assumes "vfs_ok e" "mem_ok e" "dentry_path_raw e d PATH_MAX = Inr name"
  shows "fill_path_by_dentry e (Some d) (replicate PATH_MAX NUL) = (0, clean_buf name)"
    and "cstr (clean_buf name) = name" and "NUL \<notin> set name"
  using assms vfs_ok_rawD [OF assms(1,3)]
  by (simp_all add: fill_path_by_dentry_def memset0_all strncpy_len_zero clean_buf_def [symmetric])

lemma black_list_closed:
  assumes "vfs_ok e" "wf_list st" "NUL \<notin> set name"
  shows "check_black_list e st (Some name) False =
     Some (if name \<in> set (restricted st) then 0 else - EEXIST)"
  using check_black_list_eq [OF assms, of False] by simp

lemma pre_mk_rmdir_eq:
  assumes "vfs_ok e" "mem_ok e" "wf_list st" "exe_known e exe"
    and "d_parent e d = Some parent" "dentry_path_raw e parent PATH_MAX = Inr dir" "d_inode e parent = Some i"
  shows "pre_vfs_mk_rmdir_handler e st (Some d) =
     Some (if dir \<in> set (restricted st) then (pass\<lparr>hook_error := - EACCES\<rparr>, after_denial e exe i st) else (pass, st))"
  using assms black_list_closed [OF assms(1,3) dentry_name(3) [OF assms(1,2,6)]] dentry_name [OF assms(1,2,6)]
  by (simp add: pre_vfs_mk_rmdir_handler_def defer_top_half_queues after_denial_def)

lemma mark_protect_unlink: "protect_unlink i = mark_inode_read_only i"
  by (simp add: protect_unlink_def mark_inode_read_only_def mark_inode_dirty_def or.assoc)

lemma mark_inode_dirty_marked: "mark_inode_dirty (mark_inode_read_only i) = mark_inode_read_only i"
  by (simp add: mark_inode_read_only_def mark_inode_dirty_def)

lemma pre_unlink_listed:
  assumes "vfs_ok e" "mem_ok e" "wf_list st" "exe_known e exe"
    and "dentry_path_raw e d PATH_MAX = Inr name" "d_inode e d = Some j" "name \<in> set (restricted st)"
  shows "pre_vfs_unlink_handler e st (Some d) = Some (pass\<lparr>hook_error := - EACCES\<rparr>, after_denial e exe j st)"
  using assms black_list_closed [OF assms(1,3) dentry_name(3) [OF assms(1,2,5)]] dentry_name [OF assms(1,2,5)]
  by (simp add: pre_vfs_unlink_handler_def defer_top_half_queues after_denial_def mark_protect_unlink)

lemma pre_unlink_unlisted:
  assumes "vfs_ok e" "mem_ok e" "wf_list st" "exe_known e exe"
    and "dentry_path_raw e d PATH_MAX = Inr name" "name \<notin> set (restricted st)"
    and "d_parent e d = Some parent" "dentry_path_raw e parent PATH_MAX = Inr dir" "d_inode e parent = Some i"
  shows "pre_vfs_unlink_handler e st (Some d) =
     Some (if dir \<in> set (restricted st) then (pass\<lparr>hook_error := - EACCES\<rparr>, after_denial e exe i st)
           else (pass, st))"
  using assms black_list_closed [OF assms(1,3) dentry_name(3) [OF assms(1,2,8)]] dentry_name [OF assms(1,2,8)]
    black_list_closed [OF assms(1,3) dentry_name(3) [OF assms(1,2,5)]] dentry_name [OF assms(1,2,5)]
  by (simp add: pre_vfs_unlink_handler_def defer_top_half_queues after_denial_def mark_protect_unlink
      mark_inode_dirty_marked)

text \<open>
  The concrete monitors of the witnesses, protecting \<open>/home/u/secret\<close> or the directory \<open>/home/u\<close>.
\<close>

definition sample_protecting :: "rcu_restrict \<Rightarrow> rm_state" where
  "sample_protecting entry = set_probes True (sample_state\<lparr>current_state := 1, restrict_path_list := [entry]\<rparr>)"

definition sample_open :: "string \<Rightarrow> filename" where
  "sample_open p = \<lparr>fname = Some p, uptr = Some (p @ [NUL])\<rparr>"

abbreviation sample_on :: rm_state where
  "sample_on \<equiv> sample_protecting sample_entry"

abbreviation sample_dir_on :: rm_state where
  "sample_dir_on \<equiv> sample_protecting sample_dir_entry"

lemma sample_protecting_simps [simp]:
  "restrict_path_list (sample_protecting x) = [x]" "inodes (sample_protecting x) = sample_inodes"
  "deferred_queue (sample_protecting x) = []" "current_state (sample_protecting x) = 1"
  "protecting (sample_protecting x)"
  by (simp_all add: sample_protecting_def protecting_def)

lemma sample_protecting_forbitten:
  "forbitten_path (sample_protecting x) p = forbitten_path sample_state p"
  by (rule forbitten_path_cong) (simp add: sample_protecting_def)

lemma sample_protecting_wf:
  assumes "NUL \<notin> set (entry_path x)" "forbitten_path sample_state (Some (entry_path x)) = 0"
  shows "wf_rm (sample_protecting x)"
proof -
  have "wf_list (sample_protecting x)" using assms by (simp add: wf_list_def sample_protecting_forbitten)
  moreover have "is_rm_state ON \<and> current_state (sample_protecting x) = word_of_int ON \<and>
      (\<forall>p \<in> set (probes (sample_protecting x)). enabled p = enabling ON)"
    by (simp add: is_rm_state_def enabling_def sample_protecting_def set_probes_def HOOKS_SIZE_def)
  moreover have "length (probes (sample_protecting x)) = HOOKS_SIZE"
    by (simp add: sample_protecting_def HOOKS_SIZE_def)
  ultimately show ?thesis unfolding wf_rm_def by blast
qed

lemma sample_on_wf: "wf_rm sample_on" "wf_rm sample_dir_on"
  by (rule sample_protecting_wf; simp add: forbitten_path_eq forbidden_prefixes_def cstr_id)+

lemma sample_exe: "exe_known sample_env ''/bin/cat''"
  by (simp add: exe_known_def MAX_FILE_NAME_def)

lemma sample_open_call:
  assumes "NUL \<notin> set p" "length p < PATH_MAX" "forbitten_path sample_state (Some p) = 0"
  shows "open_call (sample_protecting x) (sample_open p) p"
  unfolding open_call_def using assms
  by (intro exI [of _ p], intro exI [of _ 1]) (simp add: sample_open_def sample_protecting_forbitten)

lemma sample_open_calls:
  "open_call (sample_protecting x) (sample_open ''/home/u/secret'') ''/home/u/secret''"
  "open_call (sample_protecting x) (sample_open ''/home/u/fresh'') ''/home/u/fresh''"
  "open_call (sample_protecting x) (sample_open ''/d/fresh'') ''/d/fresh''"
  "open_call (sample_protecting x) (sample_open ''a.txt'') ''a.txt''"
  by (rule sample_open_call; simp add: PATH_MAX_def forbitten_path_eq forbidden_prefixes_def cstr_id)+

lemma sample_not_swap:
  "\<not> swap_like ''/home/u/secret''" "\<not> swap_like ''/home/u/fresh''" "\<not> swap_like ''/d/fresh''"
  by (simp_all add: swap_like_def suffix_to_prefix)

lemmas sample_on_facts = sample_on_wf sample_env_ok sample_exe sample_open_calls sample_not_swap

text \<open>An open for writing of a restricted path by the kernel's own name for it.\<close>

lemma canonical_open_eq:
  assumes "wf_rm st" "protecting st" "vfs_ok e" "mem_ok e" "exe_known e exe"
    and "fname f = Some p" "uptr f = Some (p @ NUL # rest)" "6 \<le> length p" "length p < PATH_MAX"
    and "take 1 p = ''/''" "\<not> swap_like p" "kern_path e p = Inr d" "dentry_path_raw e d PATH_MAX = Inr p"
    and "p \<in> set (restricted st)" "d_inode e d = Some i" "flags AND WRITE_MASK \<noteq> 0"
  shows "hooked_open e st f flags orig = Some (- EACCES, after_denial e exe i st)"
proof -
  have wf: "wf_list st" using assms(1) by (simp add: wf_rm_def)
  then have p: "NUL \<notin> set p" "forbitten_path st (Some p) = 0"
    using assms(14) by (auto simp: wf_list_def)
  have "pre_do_filp_open_handler e st f flags = open_decide e st p False False flags"
    using pre_open_canonical [OF assms(3,4,6) p(2) assms(7) p(1) assms(8-13)] .
  also have "\<dots> = Some (\<lparr>h_ret = 0, hook_error = - EACCES, di_replaced = True\<rparr>, after_denial e exe i st)"
    using assms(16) listed_found [OF assms(3) wf assms(14)] mark_and_deny_eq [OF assms(3-5,12,15)]
    by (simp add: open_decide_def)
  finally show ?thesis
    using probed_call_on [OF assms(1,2), of 0]
    by (simp add: hooked_open_def HOOKS_SIZE_def reference_kret_handler_def)
qed

section \<open>Properties\<close>

text \<open>
  C8: the protection itself. While the monitor is in ON or REC-ON, an \<open>open\<close> that asks for writing,
  truncation or appending of an existing file whose resolved name is restricted returns
  \<open>-EACCES\<close>, whoever makes it and whatever the open itself would have returned; the inode has lost its
  write permissions and is immutable, and the attempt is queued for the log with the
  credentials of the thread. This holds for every name that leads to the file, relative or through
  links, of at least six bytes that does not end like a swap file, provided that the kernel's
  copy of it is not under a forbidden prefix, that user memory holds only NUL bytes behind it, that
  memory is available and that the program of the thread has a name. What happens to other names is
  shown by \<open>short_name_creation_missed\<close> and \<open>open_reads_past_buffer\<close>.
\<close>

theorem open_for_writing_denied:
  assumes "wf_rm st" "protecting st" "vfs_ok e" "mem_ok e" "exe_known e exe"
    and "open_call st f p" "6 \<le> length p" "\<not> swap_like p"
    and "lookup_name e p = Some q" "kern_path e q = Inr d" "dentry_path_raw e d PATH_MAX = Inr full"
    and "full \<in> set (restricted st)" "kern_path e full = Inr d'" "d_inode e d' = Some i"
    and "flags AND WRITE_MASK \<noteq> 0"
  shows "\<exists>st'. hooked_open e st f flags orig = Some (- EACCES, st') \<and>
           write_protected (inodes st' i) \<and>
           deferred_queue st' = deferred_queue st @ [task_record e exe] \<and>
           restrict_path_list st' = restrict_path_list st"
proof -
  have "pre_do_filp_open_handler e st f flags = open_decide e st full False False flags"
    using pre_open_resolved(1) [OF assms(3,4,6-11)] .
  also have "\<dots> = Some (\<lparr>h_ret = 0, hook_error = - EACCES, di_replaced = True\<rparr>, after_denial e exe i st)"
    using assms(1,15) listed_found [OF assms(3) _ assms(12)] mark_and_deny_eq [OF assms(3-5,13,14)]
    by (simp add: open_decide_def wf_rm_def)
  finally show ?thesis
    using probed_call_on [OF assms(1,2), of 0]
    by (simp add: hooked_open_def HOOKS_SIZE_def reference_kret_handler_def after_denial_def)
qed

theorem open_for_writing_denied_witness:
  "\<exists>st'. hooked_open sample_env sample_on (sample_open ''/home/u/secret'') O_RDWR (\<lambda>_ _. 3) = Some (- EACCES, st') \<and>
     write_protected (inodes st' 11) \<and> deferred_queue st' = [task_record sample_env ''/bin/cat'']"
  using open_for_writing_denied [of sample_on sample_env "''/bin/cat''" "sample_open ''/home/u/secret''"
      "''/home/u/secret''" "''/home/u/secret''" 1 "''/home/u/secret''" 1 11 O_RDWR "\<lambda>_ _. 3"] sample_on_facts
  by (simp add: lookup_name_def WRITE_MASK_def) blast

text \<open>
  The same protection for the kernel's own name of the file, whatever bytes the caller left behind
  the name in its memory: a restricted path that is opened for writing by its own name is denied,
  protected and queued for the log.
\<close>

theorem open_canonical_denied:
  assumes "wf_rm st" "protecting st" "vfs_ok e" "mem_ok e" "exe_known e exe"
    and "fname f = Some p" "uptr f = Some (p @ NUL # rest)" "6 \<le> length p" "length p < PATH_MAX"
    and "take 1 p = ''/''" "\<not> swap_like p" "kern_path e p = Inr d" "dentry_path_raw e d PATH_MAX = Inr p"
    and "p \<in> set (restricted st)" "d_inode e d = Some i" "flags AND WRITE_MASK \<noteq> 0"
  shows "\<exists>st'. hooked_open e st f flags orig = Some (- EACCES, st') \<and>
           write_protected (inodes st' i) \<and>
           deferred_queue st' = deferred_queue st @ [task_record e exe]"
  using canonical_open_eq [OF assms] by (simp add: after_denial_def)

theorem open_canonical_denied_witness:
  "\<exists>st'. hooked_open sample_env sample_on
      \<lparr>fname = Some ''/home/u/secret'', uptr = Some (''/home/u/secret'' @ NUL # ''leftover bytes'')\<rparr> O_WRONLY (\<lambda>_ _. 3) =
      Some (- EACCES, st')"
  using open_canonical_denied [of sample_on sample_env "''/bin/cat''"
      "\<lparr>fname = Some ''/home/u/secret'', uptr = Some (''/home/u/secret'' @ NUL # ''leftover bytes'')\<rparr>"
      "''/home/u/secret''" "''leftover bytes''" 1 11 O_WRONLY "\<lambda>_ _. 3"] sample_on_facts
  by (simp add: WRITE_MASK_def PATH_MAX_def) blast

text \<open>
  C20: reading stays free. An \<open>open\<close> with none of the flags for writing of a file that exists, restricted
  or not, is passed through: its own result is returned and the monitor does not change. The name
  has at least six bytes and does not end like a swap file (a swap file of a restricted file is denied
  for reading too), the kernel's copy of it is not under a forbidden prefix, only NUL bytes stand
  behind it in user memory and memory is available.
\<close>

theorem open_for_reading_passes:
  assumes "wf_rm st" "vfs_ok e" "mem_ok e" "open_call st f p" "6 \<le> length p" "\<not> swap_like p"
    and "lookup_name e p = Some q" "kern_path e q = Inr d" "dentry_path_raw e d PATH_MAX = Inr full"
    and "flags AND WRITE_MASK = 0"
  shows "hooked_open e st f flags orig = Some (orig False (inodes st), st)"
proof (rule hooked_open_pass [OF assms(1)])
  note r = pre_open_resolved [OF assms(2-9)]
  show "pre_do_filp_open_handler e st f flags = Some (pass, st)"
    using assms(1,10) check_black_list_eq [OF assms(2) _ r(2), of st True]
    by (simp add: r(1) open_decide_def wf_rm_def)
qed

theorem open_for_reading_passes_witness:
  "hooked_open sample_env sample_on (sample_open ''/home/u/secret'') 0 (\<lambda>_ _. 3) = Some (3, sample_on)"
  using open_for_reading_passes [of sample_on sample_env "sample_open ''/home/u/secret''"
      "''/home/u/secret''" "''/home/u/secret''" 1 "''/home/u/secret''" 0 "\<lambda>_ _. 3"] sample_on_facts
  by (simp add: lookup_name_def)

text \<open>
  A name that leads to a file that is neither restricted nor has the inode number of a restricted one is
  passed through for every mode of opening, under the same conditions.
\<close>

theorem open_unrestricted_passes:
  assumes "wf_rm st" "vfs_ok e" "mem_ok e" "open_call st f p" "6 \<le> length p" "\<not> swap_like p"
    and "lookup_name e p = Some q" "kern_path e q = Inr d" "dentry_path_raw e d PATH_MAX = Inr full"
    and "full \<notin> set (restricted st)"
    and "\<forall>d' i. kern_path e full = Inr d' \<and> d_inode e d' = Some i \<longrightarrow>
           i_ino (inodes st i) \<notin> entry_i_ino ` set (restrict_path_list st)"
  shows "hooked_open e st f flags orig = Some (orig False (inodes st), st)"
proof (rule hooked_open_pass [OF assms(1)])
  note r = pre_open_resolved [OF assms(2-9)]
  show "pre_do_filp_open_handler e st f flags = Some (pass, st)"
    using assms(1,10,11) check_black_list_eq [OF assms(2) _ r(2), of st True]
    by (auto simp: r(1) open_decide_def wf_rm_def)
qed

theorem open_unrestricted_passes_witness:
  "hooked_open sample_env (sample_on\<lparr>restrict_path_list := []\<rparr>) (sample_open ''/home/u/secret'') O_RDWR (\<lambda>_ _. 3) =
     Some (3, sample_on\<lparr>restrict_path_list := []\<rparr>)"
proof -
  let ?st = "sample_on\<lparr>restrict_path_list := []\<rparr>"
  have "wf_rm ?st" by (rule wf_rm_cong [OF sample_on_wf(1)]) (simp_all add: wf_list_def)
  moreover have "open_call ?st (sample_open ''/home/u/secret'') ''/home/u/secret''"
    using sample_open_calls(1) [of sample_entry] forbitten_path_cong [of ?st sample_on] by (simp add: open_call_def)
  ultimately show ?thesis
    using open_unrestricted_passes [of ?st sample_env "sample_open ''/home/u/secret''"
      "''/home/u/secret''" "''/home/u/secret''" 1 "''/home/u/secret''" O_RDWR "\<lambda>_ _. 3"] sample_on_facts
    by (simp add: lookup_name_def)
qed

text \<open>
  C9: creating a file in a protected directory. While the monitor is in ON or REC-ON an \<open>open\<close> with
  \<open>O_CREAT\<close> of a name that does not exist, in a restricted directory, returns \<open>-EACCES\<close>, protects the inode
  of the directory and queues the attempt, if the caller names the directory by its own name or by
  one that is not shorter. The given name has at least six bytes, does not end like a swap file and
  is followed by NUL bytes only, the kernel's copy of it is not under a forbidden prefix, memory is
  available and the program of the thread has a name. Creation by other names may be missed:
  \<open>create_through_alias_missed\<close> and \<open>short_name_creation_missed\<close>.
\<close>

theorem create_in_protected_dir_denied:
  assumes "wf_rm st" "protecting st" "vfs_ok e" "mem_ok e" "exe_known e exe"
    and "open_call st f p" "6 \<le> length p" "\<not> swap_like p"
    and "lookup_name e p = Some (x @ ''/'' @ n)" "take 1 x = ''/''" "CHR ''/'' \<notin> set n"
    and "kern_path e (x @ ''/'' @ n) = Inl err"
    and "kern_path e x = Inr d" "dentry_path_raw e d PATH_MAX = Inr dir" "length dir \<le> length x"
    and "dir \<in> set (restricted st)" "kern_path e dir = Inr d'" "d_inode e d' = Some i"
    and "flags AND O_CREAT \<noteq> 0"
  shows "\<exists>st'. hooked_open e st f flags orig = Some (- EACCES, st') \<and>
           write_protected (inodes st' i) \<and>
           deferred_queue st' = deferred_queue st @ [task_record e exe]"
proof -
  have "pre_do_filp_open_handler e st f flags = open_decide e st dir True False flags"
    using pre_open_create [OF assms(3,4,6-14)] assms(15) by simp
  also have "\<dots> = Some (\<lparr>h_ret = 0, hook_error = - EACCES, di_replaced = True\<rparr>, after_denial e exe i st)"
    using assms(1,19) listed_found [OF assms(3) _ assms(16)] mark_and_deny_eq [OF assms(3-5,17,18)]
    by (simp add: open_decide_def wf_rm_def)
  finally show ?thesis
    using probed_call_on [OF assms(1,2), of 0]
    by (simp add: hooked_open_def HOOKS_SIZE_def reference_kret_handler_def after_denial_def)
qed

theorem create_in_protected_dir_denied_witness:
  "\<exists>st'. hooked_open sample_env sample_dir_on (sample_open ''/home/u/fresh'') (O_CREAT OR O_WRONLY) (\<lambda>_ _. 3) =
       Some (- EACCES, st') \<and> write_protected (inodes st' 12)"
  using create_in_protected_dir_denied [of sample_dir_on sample_env "''/bin/cat''" "sample_open ''/home/u/fresh''"
      "''/home/u/fresh''" "''/home/u''" "''fresh''" "- ENOENT" 2 "''/home/u''" 2 12 "O_CREAT OR O_WRONLY" "\<lambda>_ _. 3"]
    sample_on_facts
  by (simp add: lookup_name_def) blast

text \<open>
  Creation through a shorter alias of the directory is missed. When the directory's own name is
  longer than the one the caller used (a symbolic link), the resolved name is completed with
  bytes of the new file's name left in the buffer; if that is the name of nothing and not listed,
  the creation is let through although the directory is restricted.
\<close>

theorem create_through_alias_missed:
  assumes "wf_rm st" "vfs_ok e" "mem_ok e" "open_call st f p" "6 \<le> length p" "\<not> swap_like p"
    and "lookup_name e p = Some (x @ ''/'' @ n)" "take 1 x = ''/''" "CHR ''/'' \<notin> set n" "NUL \<notin> set n"
    and "kern_path e (x @ ''/'' @ n) = Inl err"
    and "kern_path e x = Inr d" "dentry_path_raw e d PATH_MAX = Inr dir" "dir \<in> set (restricted st)"
    and "length x < length dir" "name = dir @ drop (length dir - length x - 1) n"
    and "name \<notin> set (restricted st)" "kern_path e name = Inl err'"
  shows "hooked_open e st f flags orig = Some (orig False (inodes st), st)"
proof (rule hooked_open_pass [OF assms(1)])
  have "NUL \<notin> set name"
    using vfs_ok_rawD [OF assms(2,13)] assms(10) by (auto simp: assms(16) dest: in_set_dropD)
  then have "check_black_list e st (Some name) True = Some (- EEXIST)"
    using check_black_list_eq [OF assms(2)] assms(1,17,18) by (simp add: wf_rm_def)
  then show "pre_do_filp_open_handler e st f flags = Some (pass, st)"
    using pre_open_create [OF assms(2-9,11-13)] assms(15,16) by (simp add: open_decide_def)
qed

theorem create_through_alias_missed_witness:
  "hooked_open sample_env sample_dir_on (sample_open ''/d/fresh'') (O_CREAT OR O_WRONLY) (\<lambda>_ _. 3) =
     Some (3, sample_dir_on)"
  using create_through_alias_missed [of sample_dir_on sample_env "sample_open ''/d/fresh''"
      "''/d/fresh''" "''/d''" "''fresh''" "- ENOENT" 2 "''/home/u''" "''/home/uh''" "- ENOENT"
      "O_CREAT OR O_WRONLY" "\<lambda>_ _. 3"] sample_on_facts
  by (simp add: lookup_name_def)

text \<open>
  C10: directories. While the monitor protects, \<open>mkdir\<close> and \<open>rmdir\<close> of an entry whose parent directory is
  restricted return \<open>-EACCES\<close>, leave the inode of the parent read-only and immutable and queue the
  attempt, and so does \<open>unlink\<close> of a file that is restricted or lies in a restricted directory, for
  the inode of the file or else of the directory. The names fit \<open>PATH_MAX\<close>, memory is available and the
  program of the thread has a name.
\<close>

theorem directory_operations_denied:
  assumes "wf_rm st" "protecting st" "vfs_ok e" "mem_ok e" "exe_known e exe"
    and "dentry_path_raw e d PATH_MAX = Inr name"
    and "d_parent e d = Some parent" "dentry_path_raw e parent PATH_MAX = Inr dir" "d_inode e parent = Some i"
  shows "(dir \<in> set (restricted st) \<longrightarrow>
            hooked_mkdir e st (Some d) orig = Some (- EACCES, after_denial e exe i st) \<and>
            hooked_rmdir e st (Some d) orig = Some (- EACCES, after_denial e exe i st)) \<and>
         (\<forall>j. name \<in> set (restricted st) \<and> d_inode e d = Some j \<longrightarrow>
            hooked_unlink e st (Some d) orig = Some (- EACCES, after_denial e exe j st)) \<and>
         (name \<notin> set (restricted st) \<and> dir \<in> set (restricted st) \<longrightarrow>
            hooked_unlink e st (Some d) orig = Some (- EACCES, after_denial e exe i st)) \<and>
         write_protected (inodes (after_denial e exe i st) i)"
proof -
  have wf: "wf_list st" using assms(1) by (simp add: wf_rm_def)
  show ?thesis
    using probed_call_on [OF assms(1,2), of 1] probed_call_on [OF assms(1,2), of 2]
      probed_call_on [OF assms(1,2), of 3] pre_mk_rmdir_eq [OF assms(3,4) wf assms(5,7-9)]
      pre_unlink_listed [OF assms(3,4) wf assms(5,6)] pre_unlink_unlisted [OF assms(3,4) wf assms(5,6) _ assms(7-9)]
    by (simp add: hooked_mkdir_def hooked_rmdir_def hooked_unlink_def HOOKS_SIZE_def pass_def post_dir_handler_def
        after_denial_def)
qed

theorem directory_operations_denied_witness:
  "hooked_mkdir sample_env sample_dir_on (Some 3) (\<lambda>_ _. 0) =
     Some (- EACCES, after_denial sample_env ''/bin/cat'' 12 sample_dir_on)"
  using directory_operations_denied [of sample_dir_on sample_env "''/bin/cat''" 3 "''/home/u/secret2''" 2
      "''/home/u''" 12 "\<lambda>_ _. 0"] sample_on_facts
  by simp

text \<open>
  Outside restricted directories the return probe still replaces the result: while the monitor
  protects, \<open>mkdir\<close>, \<open>rmdir\<close> and \<open>unlink\<close> of an entry the list does not concern report 0 to the caller
  whatever the operation itself returned, errors included.
\<close>

theorem directory_errors_lost:
  assumes "wf_rm st" "protecting st" "vfs_ok e" "mem_ok e" "exe_known e exe"
    and "dentry_path_raw e d PATH_MAX = Inr name"
    and "d_parent e d = Some parent" "dentry_path_raw e parent PATH_MAX = Inr dir" "d_inode e parent = Some i"
    and "dir \<notin> set (restricted st)" "name \<notin> set (restricted st)"
  shows "hooked_mkdir e st (Some d) orig = Some (0, st) \<and> hooked_rmdir e st (Some d) orig = Some (0, st) \<and>
         hooked_unlink e st (Some d) orig = Some (0, st)"
proof -
  have wf: "wf_list st" using assms(1) by (simp add: wf_rm_def)
  show ?thesis
    using probed_call_on [OF assms(1,2), of 1] probed_call_on [OF assms(1,2), of 2]
      probed_call_on [OF assms(1,2), of 3] pre_mk_rmdir_eq [OF assms(3,4) wf assms(5,7-9)]
      pre_unlink_unlisted [OF assms(3,4) wf assms(5,6,11,7-9)] assms(10)
    by (simp add: hooked_mkdir_def hooked_rmdir_def hooked_unlink_def HOOKS_SIZE_def pass_def post_dir_handler_def)
qed

theorem directory_errors_lost_witness:
  "hooked_rmdir sample_env sample_on (Some 3) (\<lambda>_ _. -39) = Some (0, sample_on)"
  using directory_errors_lost [of sample_on sample_env "''/bin/cat''" 3 "''/home/u/secret2''" 2
      "''/home/u''" 12 "\<lambda>_ _. -39"] sample_on_facts
  by simp

text \<open>
  Short names escape the check for creation. A name of fewer than six bytes is not resolved, so
  creating \<open>a.txt\<close> while the current directory is restricted is let through.
\<close>

theorem short_name_creation_missed:
  assumes "wf_rm st" "vfs_ok e" "mem_ok e" "open_call st f p" "length p < 6"
    and "p \<notin> set (restricted st)" "kern_path e p = Inl err"
  shows "hooked_open e st f flags orig = Some (orig False (inodes st), st)"
proof (rule hooked_open_pass [OF assms(1)])
  have p: "NUL \<notin> set p" "length p < PATH_MAX" using assms(4) by (auto simp: open_call_def)
  then have "fill_with_swap_filter e (clean_buf p) = Some (0, clean_buf p)"
    using assms(5) by (simp add: fill_with_swap_filter_def)
  moreover have "check_black_list e st (Some p) True = Some (- EEXIST)"
    using check_black_list_eq [OF assms(2) _ p(1)] assms(1,6,7) by (simp add: wf_rm_def)
  ultimately show "pre_do_filp_open_handler e st f flags = Some (pass, st)"
    using pre_open_found [OF assms(4,3), of 0 "clean_buf p" flags] p by (simp add: open_decide_def)
qed

theorem short_name_creation_missed_witness:
  "hooked_open sample_env sample_dir_on (sample_open ''a.txt'') (O_CREAT OR O_WRONLY) (\<lambda>_ _. 3) =
     Some (3, sample_dir_on) \<and> dentry_path_raw sample_env (fs_pwd sample_env) PATH_MAX = Inr ''/home/u''"
  using short_name_creation_missed [of sample_dir_on sample_env "sample_open ''a.txt''" "''a.txt''" "- ENOENT"
      "O_CREAT OR O_WRONLY" "\<lambda>_ _. 3"] sample_on_facts
  by simp

text \<open>
  C36: a name that loses its terminator. The handler copies \<open>PATH_MAX\<close> bytes from the user, whatever stands
  behind the name. When the name leads to a file whose own name is longer and the bytes behind it
  are not zero, the longer name overwrites the terminator and the handler goes on to read a string
  that ends only somewhere behind its buffer. Any user can bring this about with a symbolic link.
\<close>

theorem open_reads_past_buffer:
  assumes "vfs_ok e" "mem_ok e" "fname f = Some n" "forbitten_path st (Some n) = 0"
    and "uptr f = Some (p @ NUL # rest)" "NUL \<notin> set (p @ rest)" "6 \<le> length p" "PATH_MAX \<le> length (p @ rest)"
    and "take 1 p = ''/''" "\<not> swap_like p" "kern_path e p = Inr d" "dentry_path_raw e d PATH_MAX = Inr full"
    and "length p < length full"
  shows "pre_do_filp_open_handler e st f flags = None"
proof -
  let ?b = "snd (copy_from_user (p @ NUL # rest) PATH_MAX)"
  have full: "length full < PATH_MAX" "NUL \<notin> set full" using vfs_ok_rawD [OF assms(1,12)] by auto
  have p: "NUL \<notin> set p" "length p < PATH_MAX" using assms(6,13) full by auto
  note dirty = filter_dirty [OF assms(2) p(1) assms(7) p(2) assms(9-12), of rest]
  from dirty(1) assms(8) have b: "?b = p @ NUL # take (PATH_MAX - length p - 1) rest" by simp
  have "NUL \<notin> set (strncpy_len (memset0 (length p) ?b) full)"
    using assms(6,13) full(2) by (cases "length full - length p") (auto simp: strncpy_len_def memset0_def b dest: in_set_dropD in_set_takeD)
  moreover have "NUL \<in> set ?b" by (simp add: b)
  ultimately show ?thesis
    using assms(2-5) dirty(2) by (simp add: pre_do_filp_open_handler_def split_beta Let_def c_string_def)
qed

theorem open_reads_past_buffer_witness:
  "pre_do_filp_open_handler sample_env sample_on
     \<lparr>fname = Some ''/linked'', uptr = Some (''/linked'' @ NUL # replicate PATH_MAX CHR ''x'')\<rparr> 0 = None"
proof -
  have "forbitten_path sample_on (Some ''/linked'') = 0" "\<not> swap_like ''/linked''"
    by (simp_all add: sample_protecting_forbitten forbitten_path_eq forbidden_prefixes_def cstr_id swap_like_def suffix_to_prefix)
  then show ?thesis
    using sample_env_ok
    by (intro open_reads_past_buffer [of _ _ "''/linked''" _ "''/linked''" "replicate PATH_MAX CHR ''x''" 1 "''/home/u/secret''"]) simp_all
qed

end
