(* ===== verification/Monitor_Log.thy ===== *)
theory Monitor_Log
  imports Ref_Hooks
begin

text \<open>
  The record of denied attempts from end to end: the work items the hooks queue
  (\<^verbatim>\<open>reference_defer.c\<close>) written by the worker to the single-file file system. The worker's client
  lemmas are those of the locales \<open>append_log\<close> and \<open>roomy_log\<close>, used here through their
  interpretations on \<open>onefilefs_write\<close>.
\<close>

section \<open>A concrete worker\<close>

definition sample_io :: io_env where
  "sample_io = \<lparr>exe_open = \<lambda>_. Inr ''ELF'', exe_read = \<lambda>_. 3, log_open = \<lambda>_. 0\<rparr>"

definition sample_work :: work_data where
  "sample_work = task_record sample_env ''/bin/cat''"

lemma sample_work_facts: "wf_work sample_work" "full_read sample_io (path_name sample_work) ''ELF''"
  by (simp_all add: sample_work_def task_record_def wf_work_def MAX_FILE_NAME_def full_read_def sample_io_def)

text \<open>The same environment for a program whose name does not fit 256 bytes.\<close>

definition sample_long :: kenv where
  "sample_long = sample_env\<lparr>dentry_path_raw :=
     (\<lambda>d n. if d = 5 then Inl (-36) else dentry_path_raw sample_env d n)\<rparr>"

lemma sample_long_simps [simp]:
  "kern_path sample_long = kern_path sample_env" "d_inode sample_long = d_inode sample_env"
  "task_mm sample_long = task_mm sample_env" "exe_file sample_long = exe_file sample_env"
  "fs_pwd sample_long = fs_pwd sample_env" "alloc_ok sample_long = alloc_ok sample_env"
  "crypto_ok sample_long = crypto_ok sample_env"
  "dentry_path_raw sample_long d n = (if d = 5 then Inl (-36) else dentry_path_raw sample_env d n)"
  by (simp_all add: sample_long_def)

lemma sample_long_ok: "mem_ok sample_long" "vfs_ok sample_long"
  using sample_env_ok(2,4) unfolding mem_ok_def vfs_ok_def by (simp_all del: sample_env_simps)

section \<open>Properties\<close>

text \<open>
  The log only grows, by lines of the queued items and in the order of the queue. Whatever fails
  (reading a program, hashing, the device, the size limit), running the worker on a queue leaves
  the old log as a prefix, and what follows is the concatenation of lines for some of the items,
  in the order in which they were queued.
\<close>

theorem log_grows_in_order:
  assumes "wf_sfs fs" "\<forall>w \<in> set ws. wf_work w"
    and "run_queue e io (kernel_write dev_io mx) st ws fs = Some fs'"
  shows "wf_sfs fs' \<and> (\<exists>ps. subseq (map fst ps) ws \<and>
           content fs' = content fs @ concat (map (\<lambda>(w, h). log_line w h) ps))"
  using sfs_log.run_queue_log [OF _ assms] by simp

theorem log_grows_in_order_witness:
  "\<exists>fs'. run_queue sample_env sample_io (kernel_write (\<lambda>_. False) 10000) sample_state [] sample_fs = Some fs' \<and> wf_sfs fs'"
  using log_grows_in_order [of sample_fs "[]" sample_env sample_io "\<lambda>_. False" 10000 sample_state sample_fs]
    sample_fs_facts(1) by simp

text \<open>
  Every denied attempt is logged. When the queued programs can be read, the log opens and the
  device has room for 434 bytes per item, the worker appends exactly one line per item, with its
  ids, the name of the program and the digest of the program's bytes (up to the first NUL) and
  the salt.
\<close>

theorem every_attempt_logged:
  assumes "crypto_env e" "log_open io (single_file_name st) = 0" "wf_sfs fs"
    and "\<forall>w \<in> set (deferred_queue st). wf_work w \<and> full_read io (path_name w) (files w)"
    and "434 * length (deferred_queue st) \<le> log_room mx fs"
  shows "\<exists>fs'. run_queue e io (kernel_write (\<lambda>_. True) mx) st (deferred_queue st) fs = Some fs' \<and> wf_sfs fs' \<and>
    content fs' = content fs @
      concat (map (\<lambda>w. log_line w (hex_string (digest e (salt st) (cstr (files w))))) (deferred_queue st))"
  using assms(1) by (intro sfs_room.run_queue_complete [OF _ _ _ _ assms(2-5)]) (simp_all add: crypto_env_def)

theorem every_attempt_logged_witness:
  "\<exists>fs'. run_queue sample_env sample_io (kernel_write (\<lambda>_. True) 10000)
       (sample_state\<lparr>deferred_queue := [sample_work]\<rparr>) [sample_work] sample_fs = Some fs' \<and>
     content fs' = content sample_fs @
       log_line sample_work (hex_string (digest sample_env (''0123456789abcdef'' @ [NUL]) ''ELF''))"
  using every_attempt_logged [of sample_env sample_io "sample_state\<lparr>deferred_queue := [sample_work]\<rparr>" sample_fs
      "\<lambda>_. ''ELF''" 10000] sample_work_facts sample_fs_facts sample_crypto(1)
  by (auto simp: sample_io_def log_room_def)

text \<open>
  C24: the line fits its buffer: \<open>sprintf\<close> writes at most 434 bytes and a terminator to the buffer of
  two pages, for every work item \<open>defer_top_half\<close> can queue and every digest.
\<close>

theorem log_line_fits_buffer:
  assumes "vfs_ok e" "\<bar>tgid e\<bar> < 2 ^ 31" "\<bar>pid e\<bar> < 2 ^ 31"
    and "defer_top_half e st = Some st'" "w \<in> set (deferred_queue st')" "w \<notin> set (deferred_queue st)"
    and "hash_plaintext e' sa c p = Some (Inr ciphertext)"
  shows "length (log_line w (cstr ciphertext)) + 1 \<le> 2 * PAGE_SIZE"
proof -
  from assms(1-6) have "wf_work w"
    by (auto simp: defer_top_half_def wf_work_def Let_def split: if_splits option.split_asm sum.split_asm)
  from length_log_line [OF this hash_plaintext_length [OF assms(7)]] show ?thesis by (simp add: PAGE_SIZE_def)
qed

theorem log_line_fits_buffer_witness:
  "length (log_line sample_work (hex_string (digest sample_env (salt sample_state) ''ELF''))) + 1 \<le> 2 * PAGE_SIZE"
proof -
  have "defer_top_half sample_env sample_state = Some (sample_state\<lparr>deferred_queue := [sample_work]\<rparr>)"
    using defer_top_half_queues [OF sample_env_ok(4,2) sample_exe] by (simp add: sample_work_def)
  moreover have "hash_plaintext sample_env (Some (salt sample_state)) (Some []) (Some ''ELF'') =
      Some (Inr (digest_string sample_env (salt sample_state) ''ELF''))"
    by (rule hash_plaintext_zeroed [OF sample_env_ok(3,2,1)]) simp
  ultimately show ?thesis
    using log_line_fits_buffer [OF sample_env_ok(4), of sample_state
        "sample_state\<lparr>deferred_queue := [sample_work]\<rparr>" sample_work sample_env "Some (salt sample_state)"
        "Some []" "Some ''ELF''" "digest_string sample_env (salt sample_state) ''ELF''"] by simp
qed

text \<open>
  The digest in the log covers the program only up to its first NUL byte: two programs that agree
  there get the same line, so an executable (whose header holds NUL bytes) can be changed
  behind it without changing the logged digest.
\<close>

theorem log_digest_covers_prefix_only:
  assumes "crypto_env e" "log_open io (single_file_name st) = 0" "log_open io' (single_file_name st) = 0"
    and "full_read io (path_name w) f" "full_read io' (path_name w) f'" "cstr f = cstr f'"
  shows "defer_bottom_half e io log_append st w fs = defer_bottom_half e io' log_append st w fs"
  using assms(1,6) defer_bottom_half_ok [OF _ _ _ assms(4,2), of e log_append fs]
    defer_bottom_half_ok [OF _ _ _ assms(5,3), of e log_append fs]
  by (simp add: crypto_env_def)

theorem log_digest_covers_prefix_only_witness:
  "defer_bottom_half sample_env \<lparr>exe_open = \<lambda>_. Inr (''EL'' @ NUL # ''good''), exe_read = \<lambda>_. 7, log_open = \<lambda>_. 0\<rparr>
     (kernel_write (\<lambda>_. True) 10000) sample_state sample_work sample_fs =
   defer_bottom_half sample_env \<lparr>exe_open = \<lambda>_. Inr (''EL'' @ NUL # ''evil''), exe_read = \<lambda>_. 7, log_open = \<lambda>_. 0\<rparr>
     (kernel_write (\<lambda>_. True) 10000) sample_state sample_work sample_fs"
  by (rule log_digest_covers_prefix_only [of _ _ _ _ _ "''EL'' @ NUL # ''good''" "''EL'' @ NUL # ''evil''"])
     (simp_all add: sample_crypto full_read_def)

text \<open>
  A denial by a program with a long name faults. The name of the program is fetched into an array
  of 256 bytes and the result is tested for NULL only, so when the name does not fit, the error
  pointer is followed in the hook, and the denied open does not return.
\<close>

theorem long_program_name_faults:
  assumes "wf_rm st" "protecting st" "vfs_ok e" "mem_ok e"
    and "task_mm e" "exe_file e = Some x" "dentry_path_raw e x MAX_FILE_NAME = Inl err"
    and "open_call st f p" "6 \<le> length p" "\<not> swap_like p"
    and "lookup_name e p = Some q" "kern_path e q = Inr d" "dentry_path_raw e d PATH_MAX = Inr full"
    and "full \<in> set (restricted st)" "kern_path e full = Inr d'" "flags AND WRITE_MASK \<noteq> 0"
  shows "hooked_open e st f flags orig = None"
proof -
  obtain i where i: "d_inode e d' = Some i" using vfs_ok_inodeD [OF assms(3,15)] by blast
  have "defer_top_half e s = None" for s
    using assms(4-7) by (simp add: defer_top_half_def)
  then have "mark_and_deny e st full = None"
    using assms(15) i by (simp add: mark_and_deny_def mark_inode_read_only_by_pathname_def open_denied_def)
  then have "pre_do_filp_open_handler e st f flags = None"
    using pre_open_resolved(1) [OF assms(3,4,8-13)] listed_found [OF assms(3) _ assms(14)] assms(1,16)
    by (simp add: open_decide_def wf_rm_def)
  then show ?thesis
    using wf_rm_probe [OF assms(1), of 0] assms(2)
    by (simp add: hooked_open_def probed_call_def HOOKS_SIZE_def protecting_def)
qed

theorem long_program_name_faults_witness:
  "hooked_open sample_long sample_on (sample_open ''/home/u/secret'') O_RDWR (\<lambda>_ _. 3) = None"
  by (rule long_program_name_faults [of _ _ 5 "-36" _ "''/home/u/secret''" "''/home/u/secret''" 1 "''/home/u/secret''" 1])
     (use sample_on_facts sample_long_ok in \<open>simp_all add: lookup_name_def WRITE_MASK_def\<close>)

end
