(* ===== verification/Scth.thy ===== *)
theory Scth
  imports RM_Prelude
begin

text \<open>
  \<^verbatim>\<open>reference-monitor/lib/scth.c\<close>: finding free entries of the system call table and switching the
  write protection of the processor. The table is the list of its entries.
\<close>

section \<open>Definitions\<close>

definition X86_CR0_WP :: "64 word" where "X86_CR0_WP = 0x10000"
definition MAX_ACQUIRES :: nat where "MAX_ACQUIRES = 4"

record cpu =
  cr0_reg :: "64 word"
  cr0 :: "64 word"

definition protect_memory :: "cpu \<Rightarrow> cpu" where
  "protect_memory c = c\<lparr>cr0_reg := cr0 c\<rparr>"

definition unprotect_memory :: "cpu \<Rightarrow> cpu" where
  "unprotect_memory c = c\<lparr>cr0 := cr0_reg c, cr0_reg := cr0_reg c AND NOT X86_CR0_WP\<rparr>"

text \<open>
  \<open>get_entries\<close>: the two nested loops look for the first pair of equal entries, the inner loop then
  collects further entries with the same address. \<open>Inr\<close> the indices and the address.
\<close>

definition equal_pair :: "64 word list \<Rightarrow> (nat \<times> nat) option" where
  "equal_pair p =
     (case find (\<lambda>i. list_ex (\<lambda>z. p ! i = p ! z) [i + 1..<256]) [0..<256] of
        None \<Rightarrow> None
      | Some i \<Rightarrow> map_option (Pair i) (find (\<lambda>z. p ! i = p ! z) [i + 1..<256]))"

definition same_after :: "64 word list \<Rightarrow> nat \<Rightarrow> nat \<Rightarrow> nat list" where
  "same_after p i z = filter (\<lambda>k. p ! i = p ! k) [z + 1..<256]"

definition get_entries :: "int \<Rightarrow> 64 word list \<Rightarrow> int + nat list \<times> 64 word" where
  "get_entries num_acquires p =
     (if num_acquires < 1 then Inl (-1)
      else if num_acquires > int MAX_ACQUIRES then Inl (-1)
      else case equal_pair p of
        None \<Rightarrow> Inl (-1)
      | Some (i, z) \<Rightarrow>
          let restore = take (nat num_acquires) (i # z # same_after p i z)
          in if int (length restore) = num_acquires then Inr (restore, p ! i) else Inl (-1))"

text \<open>Storing addresses in the table: a fault while the write protection of the processor is on.\<close>

fun store_entries :: "cpu \<Rightarrow> (nat \<times> 64 word) list \<Rightarrow> 64 word list \<Rightarrow> 64 word list option" where
  "store_entries c [] p = Some p"
| "store_entries c ((i, v) # es) p =
     (if cr0_reg c AND X86_CR0_WP \<noteq> 0 \<or> i \<ge> length p then None else store_entries c es (p[i := v]))"

section \<open>Entries\<close>

lemma find_upt:
  "find P [a..<b] = Some k \<longleftrightarrow> a \<le> k \<and> k < b \<and> P k \<and> (\<forall>j. a \<le> j \<and> j < k \<longrightarrow> \<not> P j)"
proof
  assume "find P [a..<b] = Some k"
  then obtain i where i: "i < b - a" "P (a + i)" "k = a + i" "\<forall>j < i. \<not> P (a + j)"
    by (auto simp: find_Some_iff)
  have "\<not> P j" if "a \<le> j" "j < k" for j using i(3,4) that by (metis add_diff_inverse_nat leD less_diff_conv2 add.commute)
  with i show "a \<le> k \<and> k < b \<and> P k \<and> (\<forall>j. a \<le> j \<and> j < k \<longrightarrow> \<not> P j)" by auto
next
  assume "a \<le> k \<and> k < b \<and> P k \<and> (\<forall>j. a \<le> j \<and> j < k \<longrightarrow> \<not> P j)"
  then show "find P [a..<b] = Some k"
    unfolding find_Some_iff by (intro exI [of _ "k - a"]) auto
qed

lemma filter_upt_find:
  "filter P [a..<b] = (case find P [a..<b] of None \<Rightarrow> [] | Some k \<Rightarrow> k # filter P [k + 1..<b])"
proof (cases "find P [a..<b]")
  case None
  then have "filter P [a..<b] = []" by (auto simp: find_None_iff filter_empty_conv)
  with None show ?thesis by simp
next
  case (Some k)
  then have k: "a \<le> k" "k < b" "P k" "\<forall>j. a \<le> j \<and> j < k \<longrightarrow> \<not> P j" by (simp_all add: find_upt)
  then have "[a..<b] = [a..<k] @ k # [k + 1..<b]"
    by (metis Suc_eq_plus1 less_imp_le_nat upt_add_eq_append upt_conv_Cons le_add_diff_inverse)
  then have "filter P [a..<b] = filter P [a..<k] @ k # filter P [k + 1..<b]" using k(3) by simp
  moreover have "filter P [a..<k] = []" using k(4) by (simp add: filter_empty_conv)
  ultimately show ?thesis using Some by simp
qed

lemma equal_pair_Some:
  assumes "equal_pair p = Some (i, z)"
  shows "i < z" "z < 256" "p ! i = p ! z"
  using assms by (auto simp: equal_pair_def find_upt split: option.splits)

lemma set_same_after: "k \<in> set (same_after p i z) \<longleftrightarrow> z < k \<and> k < 256 \<and> p ! i = p ! k"
  by (auto simp: same_after_def)

lemma distinct_same_after: "distinct (same_after p i z)"
  by (simp add: same_after_def)

lemma get_entries_Inr:
  assumes "get_entries n p = Inr (es, a)"
  shows "distinct es" "int (length es) = n" "\<forall>k \<in> set es. k < 256 \<and> p ! k = a" "0 < n"
proof -
  have n: "0 < n" and ok: "\<not> n < 1" "\<not> int MAX_ACQUIRES < n"
    using assms by (auto simp: get_entries_def split: if_splits)
  obtain i z where pair: "equal_pair p = Some (i, z)"
    using assms ok by (cases "equal_pair p") (auto simp: get_entries_def)
  from assms have es: "es = take (nat n) (i # z # same_after p i z)" and a: "a = p ! i"
    and len: "int (length es) = n"
    by (auto simp: get_entries_def ok pair Let_def split: if_splits)
  note p = equal_pair_Some [OF pair]
  have "distinct (i # z # same_after p i z)" using p by (auto simp: set_same_after distinct_same_after)
  then show "distinct es" unfolding es by (rule distinct_take)
  show "int (length es) = n" "0 < n" using len n by simp_all
  have "\<forall>k \<in> set (i # z # same_after p i z). k < 256 \<and> p ! k = a"
    using p by (auto simp: a set_same_after)
  then show "\<forall>k \<in> set es. k < 256 \<and> p ! k = a" unfolding es by (meson in_set_takeD)
qed

lemma protect_unprotect [simp]: "protect_memory (unprotect_memory c) = c\<lparr>cr0 := cr0_reg c\<rparr>"
  by (simp add: protect_memory_def unprotect_memory_def)

lemma unprotected [simp]: "cr0_reg (unprotect_memory c) AND X86_CR0_WP = 0"
  by (simp add: unprotect_memory_def and.assoc)

lemma store_entries_eq:
  "cr0_reg c AND X86_CR0_WP = 0 \<Longrightarrow> \<forall>i \<in> set is. i < length p \<Longrightarrow> length vs = length is \<Longrightarrow>
     store_entries c (zip is vs) p = Some (fold (\<lambda>(i, v) q. q[i := v]) (zip is vs) p)"
proof (induction "is" arbitrary: p vs)
  case (Cons i "is")
  then obtain v vs' where "vs = v # vs'" by (cases vs) auto
  with Cons show ?case by simp
qed simp

lemma fold_update_length [simp]: "length (fold (\<lambda>(i, v) q. q[i := v]) es p) = length p"
  by (induction es arbitrary: p) auto

lemma fold_update_other: "k \<notin> fst ` set es \<Longrightarrow> fold (\<lambda>(i, v) q. q[i := v]) es p ! k = p ! k"
  by (induction es arbitrary: p) auto

lemma fold_update_at:
  "distinct is \<Longrightarrow> length vs = length is \<Longrightarrow> \<forall>i \<in> set is. i < length p \<Longrightarrow> j < length is \<Longrightarrow>
     fold (\<lambda>(i, v) q. q[i := v]) (zip is vs) p ! (is ! j) = vs ! j"
proof (induction "is" arbitrary: p vs j)
  case (Cons i "is")
  then obtain v vs' where vs: "vs = v # vs'" "length vs' = length is" by (cases vs) auto
  show ?case
  proof (cases j)
    case 0
    have "i \<notin> fst ` set (zip is vs')" using Cons.prems(1) by (auto dest: set_zip_leftD)
    then show ?thesis using 0 vs Cons.prems(3) by (simp add: fold_update_other)
  next
    case (Suc j')
    then show ?thesis using Cons.IH [of vs' "p[i := v]" j'] Cons.prems vs by simp
  qed
qed simp

text \<open>Writing the old address back to the entries gives the table as it was.\<close>

lemma fold_update_undo:
  assumes "\<forall>i \<in> set is. i < length p \<and> p ! i = a" "length vs = length is" "distinct is"
  shows "fold (\<lambda>(i, v) q. q[i := v]) (zip is (replicate (length is) a))
           (fold (\<lambda>(i, v) q. q[i := v]) (zip is vs) p) = p" (is "?q = p")
proof (rule nth_equalityI)
  show "length ?q = length p" by simp
  fix k assume "k < length ?q"
  show "?q ! k = p ! k"
  proof (cases "k \<in> set is")
    case True
    then obtain j where j: "j < length is" "k = is ! j" by (auto simp: in_set_conv_nth)
    then show ?thesis
      using fold_update_at [of "is" "replicate (length is) a" "fold (\<lambda>(i, v) q. q[i := v]) (zip is vs) p" j]
        assms True by simp
  next
    case False
    then have "k \<notin> fst ` set (zip is w)" for w :: "'a list" by (auto dest: set_zip_leftD)
    then show ?thesis by (simp add: fold_update_other)
  qed
qed

text \<open>
  When a single address is repeated in the table, the entries \<open>get_entries\<close> takes are the first ones
  that hold it.
\<close>

definition only_repeats :: "64 word list \<Rightarrow> 64 word \<Rightarrow> bool" where
  "only_repeats p ni = (\<forall>i z. i < z \<and> z < 256 \<and> p ! i = p ! z \<longrightarrow> p ! i = ni)"

lemma get_entries_first:
  assumes "only_repeats p ni" "filter (\<lambda>k. p ! k = ni) [0..<256] = fs" "int (length fs) \<ge> n" "2 \<le> n" "n \<le> int MAX_ACQUIRES"
  shows "get_entries n p = Inr (take (nat n) fs, ni)"
proof -
  let ?P = "\<lambda>k. p ! k = ni"
  from assms(2-4) obtain i where i: "find ?P [0..<256] = Some i" "fs = i # filter ?P [i + 1..<256]"
    by (auto simp: filter_upt_find [of ?P 0] split: option.splits)
  have "filter ?P [i + 1..<256] \<noteq> []" using assms(3,4) i(2) by auto
  then obtain z where z: "find ?P [i + 1..<256] = Some z" "fs = i # z # filter ?P [z + 1..<256]"
    using i(2) filter_upt_find [of ?P "i + 1" 256] by (cases "find ?P [i + 1..<256]") auto
  have ni: "p ! i = ni" "\<forall>j < i. p ! j \<noteq> ni" "i < z" "z < 256" "p ! z = ni"
    using i(1) z(1) by (auto simp: find_upt)
  have "find (\<lambda>i. list_ex (\<lambda>z. p ! i = p ! z) [i + 1..<256]) [0..<256] = Some i"
    unfolding find_upt list_ex_iff
    using ni assms(1) by (auto simp: only_repeats_def intro!: bexI [of _ z]) (metis Suc_le_eq)+
  moreover have "(\<lambda>z. p ! i = p ! z) = ?P" using ni(1) by auto
  ultimately have "equal_pair p = Some (i, z)" using z(1) by (simp add: equal_pair_def)
  moreover have "same_after p i z = filter ?P [z + 1..<256]"
    unfolding same_after_def using ni(1) by (intro filter_cong) auto
  ultimately show ?thesis
    using assms(3-5) z(2) ni(1) by (simp add: get_entries_def Let_def)
qed

end
