(* ===== verification/Discover.thy ===== *)
theory Discover
  imports Scth
begin

text \<open>
  \<^verbatim>\<open>System_call_discover\<close>: the module that searches kernel memory for the system call table and
  publishes its address and its free entries (\<^verbatim>\<open>usctm.c\<close>), and the walk of the page tables it asks
  before it touches a page (\<^verbatim>\<open>lib/vtpmo.c\<close>). Memory is \<open>mem\<close>, the word at an address, where \<open>None\<close> is a
  page fault; the page tables are \<open>pt\<close>, the entry at an index of the table at a physical address. A
  result \<open>None\<close> is a run that faults. Reads of page tables are total: the kernel maps all physical
  memory, and an entry that leads outside it (as after a mapping of one gigabyte that the walk takes
  for a table, \<open>vtpmo_misreads_gigabyte_page\<close>) is given some contents instead of a fault.
\<close>

type_synonym memory = "64 word \<Rightarrow> 64 word option"
type_synonym page_tables = "64 word \<Rightarrow> nat \<Rightarrow> 64 word"

section \<open>Definitions\<close>

subsection \<open>\<^verbatim>\<open>lib/vtpmo.c\<close>\<close>

definition ADDRESS_MASK :: "64 word" where "ADDRESS_MASK = 0xfffffffffffff000"
definition PT_ADDRESS_MASK :: "64 word" where "PT_ADDRESS_MASK = 0x7ffffffffffff000"
definition VALID :: "64 word" where "VALID = 0x1"
definition LH_MAPPING :: "64 word" where "LH_MAPPING = 0x80"
definition NO_MAP :: int where "NO_MAP = -1"

text \<open>The four macros \<open>PML4\<close>, \<open>PDP\<close>, \<open>PDE\<close> and \<open>PTE\<close> shift the signed address.\<close>

definition pt_index :: "nat \<Rightarrow> 64 word \<Rightarrow> nat" where
  "pt_index shift addr = unat (signed_drop_bit shift addr AND 0x1ff)"

definition sys_vtpmo :: "page_tables \<Rightarrow> 64 word \<Rightarrow> 64 word \<Rightarrow> int" where
  "sys_vtpmo pt cr3 vaddr =
     (let pgd = pt (cr3 AND ADDRESS_MASK) (pt_index 39 vaddr) in
      if pgd AND VALID = 0 then NO_MAP
      else
        let pud = pt (pgd AND PT_ADDRESS_MASK) (pt_index 30 vaddr) in
        if pud AND VALID = 0 then NO_MAP
        else
          let pmd = pt (pud AND PT_ADDRESS_MASK) (pt_index 21 vaddr) in
          if pmd AND VALID = 0 then NO_MAP
          else if pmd AND LH_MAPPING \<noteq> 0 then c_int (uint (drop_bit 12 (pmd AND PT_ADDRESS_MASK)))
          else
            let pte = pt (pmd AND PT_ADDRESS_MASK) (pt_index 12 vaddr) in
            if pte AND VALID = 0 then NO_MAP
            else c_int (uint (drop_bit 12 (pte AND PT_ADDRESS_MASK))))"

subsection \<open>\<^verbatim>\<open>usctm.c\<close>\<close>

definition START :: "64 word" where "START = 0xffffffff00000000"
definition MAX_ADDR :: "64 word" where "MAX_ADDR = 0xfffffffffff00000"
definition FIRST_NI_SYSCALL :: nat where "FIRST_NI_SYSCALL = 134"
definition SECOND_NI_SYSCALL :: nat where "SECOND_NI_SYSCALL = 174"
definition THIRD_NI_SYSCALL :: nat where "THIRD_NI_SYSCALL = 182"
definition FOURTH_NI_SYSCALL :: nat where "FOURTH_NI_SYSCALL = 183"
definition FIFTH_NI_SYSCALL :: nat where "FIFTH_NI_SYSCALL = 214"
definition SIXTH_NI_SYSCALL :: nat where "SIXTH_NI_SYSCALL = 215"
definition SEVENTH_NI_SYSCALL :: nat where "SEVENTH_NI_SYSCALL = 236"
definition ENTRIES_TO_EXPLORE :: nat where "ENTRIES_TO_EXPLORE = 256"
definition MAX_FREE :: nat where "MAX_FREE = 15"

text \<open>\<open>addr[i]\<close> for an array of 64-bit words.\<close>

definition elem :: "memory \<Rightarrow> 64 word \<Rightarrow> nat \<Rightarrow> 64 word option" where
  "elem mem addr i = mem (addr + 8 * of_nat i)"

fun bad_entry :: "memory \<Rightarrow> 64 word \<Rightarrow> nat list \<Rightarrow> bool option" where
  "bad_entry mem addr [] = Some False"
| "bad_entry mem addr (i # is) =
     do {
       v \<leftarrow> elem mem addr i;
       ni \<leftarrow> elem mem addr FIRST_NI_SYSCALL;
       (if v = ni then Some True else bad_entry mem addr is)
     }"

definition good_area :: "memory \<Rightarrow> 64 word \<Rightarrow> bool option" where
  "good_area mem addr = map_option Not (bad_entry mem addr [1..<FIRST_NI_SYSCALL])"

text \<open>The chain of comparisons of \<open>validate_page\<close>, evaluated from left to right.\<close>

fun equal_entries :: "memory \<Rightarrow> 64 word \<Rightarrow> nat list \<Rightarrow> bool option" where
  "equal_entries mem addr [] = Some True"
| "equal_entries mem addr (i # is) =
     do {
       ni \<leftarrow> elem mem addr FIRST_NI_SYSCALL;
       v \<leftarrow> elem mem addr i;
       (if ni = v then equal_entries mem addr is else Some False)
     }"

definition ni_entries :: "nat list" where
  "ni_entries = [SECOND_NI_SYSCALL, THIRD_NI_SYSCALL, FOURTH_NI_SYSCALL, FIFTH_NI_SYSCALL,
                 SIXTH_NI_SYSCALL, SEVENTH_NI_SYSCALL]"

definition table_pattern :: "memory \<Rightarrow> 64 word \<Rightarrow> bool option" where
  "table_pattern mem addr =
     do {
       ni \<leftarrow> elem mem addr FIRST_NI_SYSCALL;
       (if ni AND 0x3 = 0 \<and> ni \<noteq> 0 \<and> ni > 0xffffffff00000000 then
          do {
            eq \<leftarrow> equal_entries mem addr ni_entries;
            (if eq then good_area mem addr else Some False)
          }
        else Some False)
     }"

text \<open>
  \<open>validate_page\<close>: the loop over the words of a page, \<open>i\<close> the offset in bytes. \<open>vtpmo\<close> is the function
  that tells the frame of an address. The result is the address of the table, and the address of
  \<open>sys_ni_syscall\<close> found there.
\<close>

function page_loop :: "memory \<Rightarrow> (64 word \<Rightarrow> int) \<Rightarrow> 64 word \<Rightarrow> nat \<Rightarrow> (64 word \<times> 64 word) option option" where
  "page_loop mem vtpmo page i =
     (if i < 4096 then
        let new_page = page + of_nat i + of_nat (SEVENTH_NI_SYSCALL * 8) in
        if page + 4096 = new_page AND ADDRESS_MASK \<and> vtpmo new_page = NO_MAP then Some None
        else do {
          found \<leftarrow> table_pattern mem (page + of_nat i);
          (if found then
             do { ni \<leftarrow> elem mem (page + of_nat i) FIRST_NI_SYSCALL; Some (Some (page + of_nat i, ni)) }
           else page_loop mem vtpmo page (i + 8))
        }
      else Some None)"
  by pat_completeness auto

termination page_loop
  by (relation "measure (\<lambda>(mem, vtpmo, page, i). 4096 - i)") auto

definition validate_page :: "memory \<Rightarrow> (64 word \<Rightarrow> int) \<Rightarrow> 64 word \<Rightarrow> (64 word \<times> 64 word) option option" where
  "validate_page mem vtpmo addr = page_loop mem vtpmo addr 0"

text \<open>The loop over the pages ends because \<open>MAX_ADDR\<close> is more than a page below the end of memory.\<close>

lemma next_page: "k < MAX_ADDR \<Longrightarrow> unat (k + 4096) = unat k + 4096"
  by (simp add: MAX_ADDR_def unat_word_ariths word_less_nat_alt)

function finder_loop :: "memory \<Rightarrow> (64 word \<Rightarrow> int) \<Rightarrow> 64 word \<Rightarrow> (64 word \<times> 64 word) option option" where
  "finder_loop mem vtpmo k =
     (if k < MAX_ADDR then
        (if vtpmo k \<noteq> NO_MAP then
           do {
             found \<leftarrow> validate_page mem vtpmo k;
             (case found of Some t \<Rightarrow> Some (Some t) | None \<Rightarrow> finder_loop mem vtpmo (k + 4096))
           }
         else finder_loop mem vtpmo (k + 4096))
      else Some None)"
  by pat_completeness auto

termination finder_loop
  by (relation "measure (\<lambda>(mem, vtpmo, k). unat MAX_ADDR - unat k)")
    (auto simp: next_page word_less_nat_alt)

definition syscall_table_finder :: "memory \<Rightarrow> (64 word \<Rightarrow> int) \<Rightarrow> (64 word \<times> 64 word) option option" where
  "syscall_table_finder mem vtpmo = finder_loop mem vtpmo START"

text \<open>The array of free entries, filled from the front.\<close>

fun free_loop :: "memory \<Rightarrow> 64 word \<Rightarrow> 64 word \<Rightarrow> nat list \<Rightarrow> nat list \<Rightarrow> nat list option" where
  "free_loop mem tbl ni [] found = Some found"
| "free_loop mem tbl ni (i # is) found =
     do {
       v \<leftarrow> elem mem tbl i;
       (if v = ni then
          (if length (found @ [i]) \<ge> MAX_FREE then Some (found @ [i]) else free_loop mem tbl ni is (found @ [i]))
        else free_loop mem tbl ni is found)
     }"

definition free_entries :: "memory \<Rightarrow> 64 word \<Rightarrow> 64 word \<Rightarrow> nat list option" where
  "free_entries mem tbl ni =
     map_option (\<lambda>found. found @ replicate (MAX_FREE - length found) 0) (free_loop mem tbl ni [0..<ENTRIES_TO_EXPLORE] [])"

text \<open>\<open>init_module\<close>: what the parameters of the module show afterwards.\<close>

record usctm =
  sys_call_table_address :: "64 word"
  sys_ni_syscall_address :: "64 word"
  free_entries_array :: "nat list"

definition usctm_init :: "memory \<Rightarrow> (64 word \<Rightarrow> int) \<Rightarrow> (int + usctm) option" where
  "usctm_init mem vtpmo =
     do {
       found \<leftarrow> syscall_table_finder mem vtpmo;
       (case found of
          None \<Rightarrow> Some (Inl (-1))
        | Some (tbl, ni) \<Rightarrow>
            do {
              fs \<leftarrow> free_entries mem tbl ni;
              Some (Inr \<lparr>sys_call_table_address = tbl, sys_ni_syscall_address = ni, free_entries_array = fs\<rparr>)
            })
     }"

declare page_loop.simps [simp del] finder_loop.simps [simp del]

section \<open>Pages\<close>

lemma unat_add_small: "unat (a :: 64 word) + n < 2 ^ 64 \<Longrightarrow> unat (a + of_nat n) = unat a + n"
  by (simp add: unat_word_ariths unat_of_nat)

lemma ADDRESS_MASK_eq: "ADDRESS_MASK = NOT (mask 12)"
  by (simp add: ADDRESS_MASK_def mask_eq_exp_minus_1)

lemma unat_page: "unat (a AND ADDRESS_MASK) = unat a div 4096 * 4096"
proof -
  have "a AND ADDRESS_MASK = push_bit 12 (drop_bit 12 a)"
    by (rule bit_word_eqI) (auto simp: ADDRESS_MASK_eq bit_simps)
  moreover have "unat a div 4096 * 4096 < 2 ^ 64"
    using unsigned_less [of a] by (intro order.strict_trans1 [OF div_times_less_eq_dividend]) simp
  ultimately show ?thesis
    by (simp add: push_bit_eq_mult drop_bit_eq_div unat_word_ariths unat_div_distrib)
qed

lemma same_page_iff: "(a AND ADDRESS_MASK = b AND ADDRESS_MASK) = (unat a div 4096 = unat b div 4096)"
  by (simp add: word_eq_iff_unsigned [where 'a=nat] unat_page)

lemma pt_index_eq: "shift \<le> 48 \<Longrightarrow> pt_index shift a = unat a div 2 ^ shift mod 512"
proof -
  assume "shift \<le> 48"
  then have "signed_drop_bit shift a AND mask 9 = take_bit 9 (drop_bit shift a)"
    by (auto intro!: bit_word_eqI simp: bit_simps split: if_splits)
  then have "signed_drop_bit shift a AND 0x1ff = take_bit 9 (drop_bit shift a)"
    by (simp add: mask_eq_exp_minus_1)
  then have "pt_index shift a = take_bit 9 (drop_bit shift (unat a))"
    by (simp only: pt_index_def unsigned_take_bit_eq unat_drop_bit_eq)
  then show ?thesis by (simp add: drop_bit_eq_div take_bit_eq_mod)
qed

lemma pt_index_page:
  assumes "a AND ADDRESS_MASK = b AND ADDRESS_MASK" "12 \<le> shift" "shift \<le> 48"
  shows "pt_index shift a = pt_index shift b"
proof -
  have "(2::nat) ^ shift = 4096 * 2 ^ (shift - 12)"
    using assms(2) power_add [of "2::nat" 12 "shift - 12"] by simp
  then have "unat x div 2 ^ shift = unat x div 4096 div 2 ^ (shift - 12)" for x :: "64 word"
    by (simp add: div_mult2_eq)
  with assms show ?thesis by (simp add: pt_index_eq same_page_iff)
qed

lemma sys_vtpmo_page:
  assumes "a AND ADDRESS_MASK = b AND ADDRESS_MASK"
  shows "sys_vtpmo pt cr3 a = sys_vtpmo pt cr3 b"
  using pt_index_page [OF assms, of 39] pt_index_page [OF assms, of 30]
    pt_index_page [OF assms, of 21] pt_index_page [OF assms, of 12]
  by (simp add: sys_vtpmo_def Let_def)

section \<open>The pattern\<close>

text \<open>The pattern as a predicate on the entries.\<close>

definition matches :: "(nat \<Rightarrow> 64 word) \<Rightarrow> bool" where
  "matches f = (f 134 AND 0x3 = 0 \<and> f 134 \<noteq> 0 \<and> f 134 > 0xffffffff00000000 \<and>
     (\<forall>j \<in> {174, 182, 183, 214, 215, 236}. f j = f 134) \<and> (\<forall>j. 1 \<le> j \<and> j < 134 \<longrightarrow> f j \<noteq> f 134))"

lemma bad_entry_eq:
  assumes "\<forall>j \<in> set is \<union> {134}. elem mem addr j = Some (f j)"
  shows "bad_entry mem addr is = Some (\<exists>j \<in> set is. f j = f 134)"
  using assms by (induction "is") (auto simp: FIRST_NI_SYSCALL_def)

lemma equal_entries_eq:
  assumes "\<forall>j \<in> set is \<union> {134}. elem mem addr j = Some (f j)"
  shows "equal_entries mem addr is = Some (\<forall>j \<in> set is. f j = f 134)"
  using assms by (induction "is") (auto simp: FIRST_NI_SYSCALL_def)

lemma table_pattern_eq:
  assumes "\<forall>j \<le> 236. elem mem addr j = Some (f j)"
  shows "table_pattern mem addr = Some (matches f)"
proof -
  have "bad_entry mem addr [1..<134] = Some (\<exists>j \<in> set [1..<134]. f j = f 134)"
    by (rule bad_entry_eq) (use assms in auto)
  moreover have "equal_entries mem addr ni_entries = Some (\<forall>j \<in> set ni_entries. f j = f 134)"
    by (rule equal_entries_eq)
      (use assms in \<open>auto simp: ni_entries_def SECOND_NI_SYSCALL_def THIRD_NI_SYSCALL_def FOURTH_NI_SYSCALL_def
        FIFTH_NI_SYSCALL_def SIXTH_NI_SYSCALL_def SEVENTH_NI_SYSCALL_def\<close>)
  moreover have "(\<forall>j \<in> set ni_entries. f j = f 134) = (\<forall>j \<in> {174, 182, 183, 214, 215, 236}. f j = f 134)"
    by (simp add: ni_entries_def SECOND_NI_SYSCALL_def THIRD_NI_SYSCALL_def FOURTH_NI_SYSCALL_def
        FIFTH_NI_SYSCALL_def SIXTH_NI_SYSCALL_def SEVENTH_NI_SYSCALL_def)
  moreover have "(\<exists>j \<in> set [1..<134]. f j = f 134) = (\<exists>j. 1 \<le> j \<and> j < 134 \<and> f j = f 134)" by auto
  ultimately show ?thesis
    using assms unfolding table_pattern_def good_area_def FIRST_NI_SYSCALL_def matches_def by auto
qed

section \<open>The search\<close>

text \<open>
  What the search relies on: the oracle \<open>vtpmo\<close> answers for whole pages, and memory can be read where
  the oracle knows a frame.
\<close>

definition backed :: "memory \<Rightarrow> (64 word \<Rightarrow> int) \<Rightarrow> bool" where
  "backed mem vtpmo = (\<forall>a. vtpmo a \<noteq> NO_MAP \<longrightarrow> mem a \<noteq> None)"

text \<open>A table at \<open>t\<close>: both ends of it have a frame, and it matches.\<close>

definition table_at :: "memory \<Rightarrow> (64 word \<Rightarrow> int) \<Rightarrow> 64 word \<Rightarrow> bool" where
  "table_at mem vtpmo t =
     (vtpmo t \<noteq> NO_MAP \<and> vtpmo (t + of_nat 1888) \<noteq> NO_MAP \<and> table_pattern mem t = Some True)"

definition page_start :: "64 word \<Rightarrow> bool" where
  "page_start k = (unat k mod 4096 = 0 \<and> k < MAX_ADDR)"

lemma page_start_next: "page_start k \<Longrightarrow> k + 4096 < MAX_ADDR \<Longrightarrow> page_start (k + 4096)"
  by (simp add: page_start_def next_page)

lemma unat_in_page:
  assumes "page_start page" "n < 8192"
  shows "unat (page + of_nat n) = unat page + n" "unat (page + of_nat n) div 4096 = unat page div 4096 + n div 4096"
proof -
  have "unat page < 0xfffffffffff00000" using assms(1) by (simp add: page_start_def MAX_ADDR_def word_less_nat_alt)
  then show eq: "unat (page + of_nat n) = unat page + n" using assms(2) by (intro unat_add_small) simp
  have "unat page = 4096 * (unat page div 4096)" using assms(1) by (auto simp: page_start_def)
  then show "unat (page + of_nat n) div 4096 = unat page div 4096 + n div 4096"
    unfolding eq by (metis div_mult_self4 zero_neq_numeral add.commute)
qed

text \<open>The test for a table that reaches into the next page.\<close>

lemma crosses_page:
  assumes "page_start page" "i < 4096"
  shows "(page + 4096 = (page + of_nat i + of_nat 1888) AND ADDRESS_MASK) = (4096 \<le> i + 1888)"
proof -
  define x where x: "x = page + of_nat (i + 1888)"
  have "unat x div 4096 = unat page div 4096 + (i + 1888) div 4096"
    unfolding x using assms by (intro unat_in_page) simp_all
  moreover have "unat page = 4096 * (unat page div 4096)" using assms(1) by (auto simp: page_start_def)
  moreover have "unat (page + 4096) = unat page + 4096" using assms(1) by (simp add: page_start_def next_page)
  ultimately have "(page + 4096 = x AND ADDRESS_MASK) = ((i + 1888) div 4096 = 1)"
    by (simp add: word_eq_iff_unsigned [where 'a=nat] unat_page) linarith
  also have "\<dots> = (4096 \<le> i + 1888)" using assms(2) by auto
  finally show ?thesis by (simp add: x add.assoc)
qed

text \<open>
  What a search has to report: from offset \<open>i\<close> of a page on, and from address \<open>k\<close> on, the first
  place where a table is, or that there is none.
\<close>

definition later :: "nat \<Rightarrow> nat \<Rightarrow> bool" where
  "later i i' = (i \<le> i' \<and> i' < 4096 \<and> 8 dvd (i' - i))"

lemma later_step: "i < 4096 \<Longrightarrow> later i i' = (i' = i \<or> later (i + 8) i')"
  unfolding later_def by presburger

definition hit :: "memory \<Rightarrow> 64 word \<Rightarrow> 64 word \<Rightarrow> bool" where
  "hit mem t ni = (table_pattern mem t = Some True \<and> elem mem t 134 = Some ni)"

definition page_result :: "memory \<Rightarrow> (64 word \<Rightarrow> int) \<Rightarrow> 64 word \<Rightarrow> nat \<Rightarrow> (64 word \<times> 64 word) option \<Rightarrow> bool" where
  "page_result mem vtpmo page i r =
     (case r of
        None \<Rightarrow> \<forall>i'. later i i' \<longrightarrow> \<not> table_at mem vtpmo (page + of_nat i')
      | Some (t, ni) \<Rightarrow> hit mem t ni \<and> (\<exists>i'. later i i' \<and> t = page + of_nat i' \<and>
          (\<forall>i''. later i i'' \<and> i'' < i' \<longrightarrow> \<not> table_at mem vtpmo (page + of_nat i''))))"

definition candidate :: "64 word \<Rightarrow> 64 word \<Rightarrow> bool" where
  "candidate k t = (k \<le> t \<and> t < MAX_ADDR \<and> unat t mod 8 = 0)"

definition search_result :: "memory \<Rightarrow> (64 word \<Rightarrow> int) \<Rightarrow> 64 word \<Rightarrow> (64 word \<times> 64 word) option \<Rightarrow> bool" where
  "search_result mem vtpmo k r =
     (case r of
        None \<Rightarrow> \<forall>t. candidate k t \<longrightarrow> \<not> table_at mem vtpmo t
      | Some (t, ni) \<Rightarrow> hit mem t ni \<and> candidate k t \<and>
          (\<forall>t'. candidate k t' \<and> t' < t \<longrightarrow> \<not> table_at mem vtpmo t'))"

text \<open>An address from \<open>k\<close> on is in the page of \<open>k\<close> or behind it.\<close>

lemma candidate_page:
  assumes "page_start k" "candidate k t"
  shows "(\<exists>i. later 0 i \<and> t = k + of_nat i) \<or> (k + 4096 < MAX_ADDR \<and> candidate (k + 4096) t)"
proof (cases "unat t < unat k + 4096")
  case True
  have "unat k \<le> unat t" using assms(2) by (simp add: candidate_def word_le_nat_alt)
  then have "unat (k + of_nat (unat t - unat k)) = unat t"
    using unat_in_page(1) [OF assms(1), of "unat t - unat k"] True by simp
  then have "t = k + of_nat (unat t - unat k)" by (simp add: word_eq_iff_unsigned [where 'a=nat])
  moreover have "8 dvd unat t - unat k"
  proof -
    have "(8::nat) dvd unat k"
      by (rule dvd_trans [of 8 4096]) (use assms(1) in \<open>auto simp: page_start_def\<close>)
    moreover have "8 dvd unat t" using assms(2) by (auto simp: candidate_def)
    ultimately show ?thesis by (rule dvd_diff_nat [rotated])
  qed
  ultimately show ?thesis using True \<open>unat k \<le> unat t\<close> by (intro disjI1 exI [of _ "unat t - unat k"]) (simp add: later_def)
next
  case False
  then show ?thesis
    using assms next_page [of k] by (auto simp: candidate_def page_start_def word_le_nat_alt word_less_nat_alt)
qed

lemma page_candidate:
  assumes "page_start k" "later 0 i"
  shows "candidate k (k + of_nat i)" "unat (k + of_nat i) = unat k + i"
proof -
  have i: "i < 4096" "8 dvd i" using assms(2) by (simp_all add: later_def)
  show u: "unat (k + of_nat i) = unat k + i" using unat_in_page(1) [OF assms(1)] i(1) by simp
  have k: "4096 dvd unat k" "unat k < 4096 * 0xfffffffffff00"
    using assms(1) by (auto simp: page_start_def MAX_ADDR_def word_less_nat_alt)
  have "8 dvd unat k" by (rule dvd_trans [OF _ k(1)]) simp
  moreover have "unat k + i < 4096 * 0xfffffffffff00" using k i(1) by (elim dvdE) simp
  ultimately show "candidate k (k + of_nat i)"
    using u i(2) by (simp add: candidate_def MAX_ADDR_def word_le_nat_alt word_less_nat_alt mod_eq_0_iff_dvd)
qed

locale page_oracle =
  fixes vtpmo :: "64 word \<Rightarrow> int"
  assumes same_page: "a AND ADDRESS_MASK = b AND ADDRESS_MASK \<Longrightarrow> vtpmo a = vtpmo b"
begin

lemma entries_readable:
  assumes "backed mem vtpmo" "page_start page" "i < 4096" "vtpmo page \<noteq> NO_MAP"
    and "4096 \<le> i + 1888 \<Longrightarrow> vtpmo (page + of_nat i + of_nat 1888) \<noteq> NO_MAP" "j \<le> 236"
  shows "\<exists>v. elem mem (page + of_nat i) j = Some v"
proof -
  let ?n = "i + 8 * j"
  have n: "?n < 8192" "?n div 4096 \<le> (i + 1888) div 4096" using assms(3,6) by (auto intro: div_le_mono)
  have "(i + 1888) div 4096 \<le> 1" using assms(3) by simp
  then have "?n div 4096 = 0 \<or> 4096 \<le> i + 1888 \<and> ?n div 4096 = (i + 1888) div 4096"
    using n(2) by (cases "4096 \<le> i + 1888") auto
  then have "vtpmo (page + of_nat ?n) \<noteq> NO_MAP"
  proof
    assume "?n div 4096 = 0"
    then have "vtpmo (page + of_nat ?n) = vtpmo page"
      using unat_in_page [OF assms(2) n(1)] by (intro same_page) (simp add: same_page_iff)
    with assms(4) show ?thesis by simp
  next
    assume c: "4096 \<le> i + 1888 \<and> ?n div 4096 = (i + 1888) div 4096"
    then have "vtpmo (page + of_nat ?n) = vtpmo (page + of_nat (i + 1888))"
      using unat_in_page [OF assms(2) n(1)] unat_in_page [OF assms(2), of "i + 1888"] assms(3)
      by (intro same_page) (simp add: same_page_iff)
    with assms(5) c show ?thesis by (simp add: add.assoc)
  qed
  with assms(1) show ?thesis by (auto simp: backed_def elem_def add.assoc)
qed

lemma pattern_readable:
  assumes "backed mem vtpmo" "page_start page" "i < 4096" "vtpmo page \<noteq> NO_MAP"
    and "4096 \<le> i + 1888 \<Longrightarrow> vtpmo (page + of_nat i + of_nat 1888) \<noteq> NO_MAP"
  obtains b ni where "table_pattern mem (page + of_nat i) = Some b" "elem mem (page + of_nat i) 134 = Some ni"
proof -
  have "\<forall>j \<le> 236. elem mem (page + of_nat i) j = Some (the (elem mem (page + of_nat i) j))"
    using entries_readable [OF assms] by fastforce
  from table_pattern_eq [OF this] entries_readable [OF assms, of 134] show thesis using that by auto
qed

lemma page_loop_spec:
  assumes "backed mem vtpmo" "page_start page" "vtpmo page \<noteq> NO_MAP"
  shows "\<exists>r. page_loop mem vtpmo page i = Some r \<and> page_result mem vtpmo page i r"
proof (induction "4096 - i" arbitrary: i rule: less_induct)
  case less
  let ?new = "page + of_nat i + of_nat 1888"
  consider (over) "4096 \<le> i" | (break) "i < 4096" "4096 \<le> i + 1888" "vtpmo ?new = NO_MAP"
    | (scan) "i < 4096" "4096 \<le> i + 1888 \<Longrightarrow> vtpmo ?new \<noteq> NO_MAP" by linarith
  then show ?case
  proof cases
    case over
    then show ?thesis by (auto simp: page_loop.simps [of mem] page_result_def later_def)
  next
    case break
    have "\<not> table_at mem vtpmo (page + of_nat i')" if "later i i'" for i'
    proof -
      have i': "i \<le> i'" "i' < 4096" using that by (simp_all add: later_def)
      have "(i' + 1888) div 4096 = (i + 1888) div 4096"
      proof -
        have "x div 4096 = 1" if "4096 \<le> x" "x < 8192" for x :: nat using that by auto
        with break(1,2) i' show ?thesis by simp
      qed
      then have "vtpmo (page + of_nat (i' + 1888)) = vtpmo (page + of_nat (i + 1888))"
        using unat_in_page [OF assms(2), of "i + 1888"] unat_in_page [OF assms(2), of "i' + 1888"] i' break(1)
        by (intro same_page) (simp add: same_page_iff)
      with break(3) show ?thesis by (simp add: table_at_def add.assoc)
    qed
    then show ?thesis
      using break crosses_page [OF assms(2) break(1)]
      by (simp add: page_loop.simps [of mem] SEVENTH_NI_SYSCALL_def page_result_def)
  next
    case scan
    obtain b ni where b: "table_pattern mem (page + of_nat i) = Some b" "elem mem (page + of_nat i) 134 = Some ni"
      using pattern_readable [OF assms(1,2) scan(1) assms(3) scan(2)] by blast
    have loop: "page_loop mem vtpmo page i =
        (if b then Some (Some (page + of_nat i, ni)) else page_loop mem vtpmo page (i + 8))"
      using scan b crosses_page [OF assms(2) scan(1)]
      by (subst page_loop.simps) (auto simp: SEVENTH_NI_SYSCALL_def FIRST_NI_SYSCALL_def)
    show ?thesis
    proof (cases b)
      case True
      then show ?thesis using loop b scan(1) by (auto simp: page_result_def hit_def later_def)
    next
      case False
      obtain r where r: "page_loop mem vtpmo page (i + 8) = Some r" "page_result mem vtpmo page (i + 8) r"
        using less.hyps [of "i + 8"] scan(1) by (metis diff_less_mono2 less_add_same_cancel1 zero_less_numeral)
      have no: "\<not> table_at mem vtpmo (page + of_nat i)" using b(1) False by (simp add: table_at_def)
      have "page_result mem vtpmo page i r"
        using r(2) no unfolding page_result_def later_step [OF scan(1)] by (auto split: option.splits)
      with r(1) loop False show ?thesis by simp
    qed
  qed
qed

lemma search_result_step:
  assumes "page_start k" "page_result mem vtpmo k 0 None"
    and "if k + 4096 < MAX_ADDR then search_result mem vtpmo (k + 4096) r else r = None"
  shows "search_result mem vtpmo k r"
proof -
  have here: "\<not> table_at mem vtpmo (k + of_nat i)" if "later 0 i" for i
    using assms(2) that by (simp add: page_result_def)
  have step: "\<not> table_at mem vtpmo t \<or> (k + 4096 < MAX_ADDR \<and> candidate (k + 4096) t)" if "candidate k t" for t
    using candidate_page [OF assms(1) that] here by auto
  have up: "candidate k t" if "candidate (k + 4096) t" for t
    using that next_page [of k] assms(1) by (simp add: candidate_def page_start_def word_le_nat_alt)
  show ?thesis
  proof (cases r)
    case None
    then show ?thesis using assms(3) step by (auto simp: search_result_def split: if_splits)
  next
    case (Some tn)
    then obtain t ni where r: "r = Some (t, ni)" by (cases tn) auto
    with assms(3) have "search_result mem vtpmo (k + 4096) r" by (simp split: if_splits)
    then have t: "hit mem t ni" "candidate (k + 4096) t"
      "\<And>t'. candidate (k + 4096) t' \<Longrightarrow> t' < t \<Longrightarrow> \<not> table_at mem vtpmo t'"
      by (simp_all add: r search_result_def)
    have "\<not> table_at mem vtpmo t'" if "candidate k t'" "t' < t" for t'
      using step [OF that(1)] t(3) [OF _ that(2)] by blast
    then show ?thesis using t(1) up [OF t(2)] by (simp add: r search_result_def)
  qed
qed

lemma finder_loop_spec:
  assumes "backed mem vtpmo"
  shows "page_start k \<Longrightarrow> \<exists>r. finder_loop mem vtpmo k = Some r \<and> search_result mem vtpmo k r"
proof (induction "unat MAX_ADDR - unat k" arbitrary: k rule: less_induct)
  case less
  have k: "k < MAX_ADDR" using less.prems by (simp add: page_start_def)
  obtain r' where r': "finder_loop mem vtpmo (k + 4096) = Some r'"
    "if k + 4096 < MAX_ADDR then search_result mem vtpmo (k + 4096) r' else r' = None"
  proof (cases "k + 4096 < MAX_ADDR")
    case True
    have "unat MAX_ADDR - unat (k + 4096) < unat MAX_ADDR - unat k"
      using next_page [OF k] k by (simp add: word_less_nat_alt)
    from less.hyps [OF this page_start_next [OF less.prems True]] True that show ?thesis by auto
  next
    case False
    then show ?thesis using that [of None] by (simp add: finder_loop.simps [of mem vtpmo "k + 4096"])
  qed
  show ?case
  proof (cases "vtpmo k = NO_MAP")
    case True
    have "\<not> table_at mem vtpmo (k + of_nat i)" if "later 0 i" for i
    proof -
      have "vtpmo (k + of_nat i) = vtpmo k"
        using unat_in_page [OF less.prems, of i] that by (intro same_page) (simp add: same_page_iff later_def)
      with True show ?thesis by (simp add: table_at_def)
    qed
    then have "page_result mem vtpmo k 0 None" by (simp add: page_result_def)
    from search_result_step [OF less.prems this r'(2)] show ?thesis
      using True k r'(1) by (simp add: finder_loop.simps [of mem vtpmo k])
  next
    case False
    obtain r where r: "page_loop mem vtpmo k 0 = Some r" "page_result mem vtpmo k 0 r"
      using page_loop_spec [OF assms less.prems False] by blast
    show ?thesis
    proof (cases r)
      case None
      with search_result_step [OF less.prems _ r'(2)] r False k r'(1) show ?thesis
        by (simp add: finder_loop.simps [of mem vtpmo k] validate_page_def)
    next
      case (Some tn)
      then obtain t ni i where t: "r = Some (t, ni)" "hit mem t ni" "later 0 i" "t = k + of_nat i"
        "\<forall>i''. later 0 i'' \<and> i'' < i \<longrightarrow> \<not> table_at mem vtpmo (k + of_nat i'')"
        using r(2) by (cases tn) (auto simp: page_result_def)
      have "\<not> table_at mem vtpmo t'" if "candidate k t'" "t' < t" for t'
        using candidate_page [OF less.prems that(1)]
      proof
        assume "\<exists>i. later 0 i \<and> t' = k + of_nat i"
        then show ?thesis
          using that(2) t(3-5) page_candidate(2) [OF less.prems] by (auto simp: word_less_nat_alt)
      next
        assume "k + 4096 < MAX_ADDR \<and> candidate (k + 4096) t'"
        then show ?thesis
          using that(2) t(3,4) page_candidate(2) [OF less.prems t(3)] next_page [OF k]
          by (simp add: candidate_def word_less_nat_alt word_le_nat_alt later_def)
      qed
      then have "search_result mem vtpmo k r"
        using t page_candidate(1) [OF less.prems t(3)] by (simp add: search_result_def)
      with r(1) t(1) False k show ?thesis by (simp add: finder_loop.simps [of mem vtpmo k] validate_page_def)
    qed
  qed
qed

lemma finder_spec:
  assumes "backed mem vtpmo"
  shows "\<exists>r. syscall_table_finder mem vtpmo = Some r \<and> search_result mem vtpmo START r"
proof -
  have "page_start START" by (simp add: page_start_def START_def MAX_ADDR_def)
  with finder_loop_spec [OF assms] show ?thesis by (simp add: syscall_table_finder_def)
qed

end

interpretation vtpmo_pages: page_oracle "sys_vtpmo pt cr3"
  by unfold_locales (rule sys_vtpmo_page)

section \<open>The published parameters\<close>

lemma free_loop_eq:
  assumes "\<forall>i \<in> set is. elem mem tbl i = Some (p ! i)" "length found < MAX_FREE"
  shows "free_loop mem tbl ni is found = Some (found @ take (MAX_FREE - length found) (filter (\<lambda>i. p ! i = ni) is))"
  using assms
proof (induction "is" arbitrary: found)
  case (Cons i "is")
  show ?case
  proof (cases "p ! i = ni \<and> MAX_FREE \<le> Suc (length found)")
    case True
    then have "MAX_FREE - length found = Suc 0" using Cons.prems(2) by linarith
    then show ?thesis using True Cons.prems by simp
  next
    case False
    have "MAX_FREE - length found = Suc (MAX_FREE - length (found @ [i]))" using Cons.prems(2) by simp
    then show ?thesis using False Cons by auto
  qed
qed simp

lemma free_entries_eq:
  assumes "\<forall>i < 256. elem mem tbl i = Some (p ! i)"
  shows "free_entries mem tbl ni =
    (let found = take 15 (filter (\<lambda>i. p ! i = ni) [0..<256]) in Some (found @ replicate (15 - length found) 0))"
proof -
  have "free_loop mem tbl ni [0..<256] [] = Some ([] @ take (MAX_FREE - length ([] :: nat list)) (filter (\<lambda>i. p ! i = ni) [0..<256]))"
    by (rule free_loop_eq) (use assms in \<open>auto simp: MAX_FREE_def\<close>)
  then show ?thesis by (simp only: free_entries_def ENTRIES_TO_EXPLORE_def) (simp add: MAX_FREE_def Let_def)
qed

lemma usctm_init_Inr:
  assumes "usctm_init mem vtpmo = Some (Inr u)" "\<forall>k < 256. elem mem (sys_call_table_address u) k = Some (p ! k)"
  shows "syscall_table_finder mem vtpmo = Some (Some (sys_call_table_address u, sys_ni_syscall_address u))"
    "k < length (filter (\<lambda>i. p ! i = sys_ni_syscall_address u) [0..<256]) \<Longrightarrow> k < 15 \<Longrightarrow>
       free_entries_array u ! k = filter (\<lambda>i. p ! i = sys_ni_syscall_address u) [0..<256] ! k"
proof -
  obtain tbl ni fs where f: "syscall_table_finder mem vtpmo = Some (Some (tbl, ni))"
    and fs: "free_entries mem tbl ni = Some fs"
    and u: "u = \<lparr>sys_call_table_address = tbl, sys_ni_syscall_address = ni, free_entries_array = fs\<rparr>"
    using assms(1) by (auto simp: usctm_init_def bind_eq_Some_conv split: option.splits)
  show "syscall_table_finder mem vtpmo = Some (Some (sys_call_table_address u, sys_ni_syscall_address u))"
    using f u by simp
  define g where "g = filter (\<lambda>i. p ! i = sys_ni_syscall_address u) [0..<256]"
  assume "k < length (filter (\<lambda>i. p ! i = sys_ni_syscall_address u) [0..<256])" "k < 15"
  then have k: "k < length g" "k < 15" by (simp_all add: g_def)
  have "fs = take 15 g @ replicate (15 - length (take 15 g)) 0"
    using free_entries_eq [of mem tbl p ni] assms(2) fs u by (simp add: Let_def g_def)
  then have "free_entries_array u ! k = g ! k" using u k by (simp add: nth_append)
  then show "free_entries_array u ! k = filter (\<lambda>i. p ! i = sys_ni_syscall_address u) [0..<256] ! k"
    by (simp add: g_def)
qed

text \<open>A table that matches has at least three free entries.\<close>

lemma hit_free_entries:
  assumes "\<forall>k < 256. elem mem t k = Some (p ! k)" "hit mem t ni"
  shows "3 \<le> length (filter (\<lambda>k. p ! k = ni) [0..<256])" (is "_ \<le> length ?f")
proof -
  have "table_pattern mem t = Some (matches (nth p))"
    using assms(1) by (intro table_pattern_eq) simp
  with assms have "\<forall>j \<in> {134, 174, 182}. p ! j = ni" by (auto simp: hit_def matches_def)
  then have "card {134, 174, 182::nat} \<le> card (set ?f)" by (intro card_mono) auto
  moreover have "card (set ?f) = length ?f" by (rule distinct_card) simp
  ultimately show ?thesis by simp
qed

section \<open>A concrete memory\<close>

text \<open>A table in which \<open>sys_ni_syscall\<close> fills the entries the discoverer looks for.\<close>

definition sample_ni :: "64 word" where "sample_ni = 0xffffffff81001000"

definition sample_free :: "nat list" where "sample_free = [134, 174, 182, 183, 214, 215, 236]"

definition sample_table :: "64 word list" where
  "sample_table = map (\<lambda>k. if k \<in> set sample_free then sample_ni else of_nat (4096 + 16 * k)) [0..<256]"

lemma sample_table_nth:
  "k < 256 \<Longrightarrow> sample_table ! k = (if k \<in> set sample_free then sample_ni else of_nat (4096 + 16 * k))"
  by (simp add: sample_table_def)

lemma of_nat_small_inj: "a < 2 ^ 64 \<Longrightarrow> b < 2 ^ 64 \<Longrightarrow> of_nat a = (of_nat b :: 64 word) \<Longrightarrow> a = b"
  by (simp add: word_of_nat_eq_iff take_bit_nat_eq_self)

lemma sample_table_ok:
  "length sample_table = 256" "only_repeats sample_table sample_ni"
  "3 \<le> length (filter (\<lambda>k. sample_table ! k = sample_ni) [0..<256])"
proof -
  show "length sample_table = 256" by (simp add: sample_table_def)
  have eq: "i = z" if "of_nat (4096 + 16 * i) = (of_nat (4096 + 16 * z) :: 64 word)" "i < 256" "z < 256" for i z
    using of_nat_small_inj [OF _ _ that(1)] that(2,3) by simp
  show "only_repeats sample_table sample_ni"
    unfolding only_repeats_def
  proof (intro allI impI)
    fix i z assume "i < z \<and> z < 256 \<and> sample_table ! i = sample_table ! z"
    then show "sample_table ! i = sample_ni"
      using eq [of i z] by (auto simp: sample_table_nth split: if_splits)
  qed
  let ?f = "filter (\<lambda>k. sample_table ! k = sample_ni) [0..<256]"
  have "card {134, 174, 182::nat} \<le> card (set ?f)"
    by (rule card_mono) (auto simp: sample_table_nth sample_free_def)
  moreover have "card (set ?f) = length ?f" by (rule distinct_card) simp
  ultimately show "3 \<le> length ?f" by simp
qed

lemma sample_table_before:
  assumes "j < 134"
  shows "sample_table ! j \<noteq> sample_ni"
proof
  assume "sample_table ! j = sample_ni"
  then have "of_nat (4096 + 16 * j) = (of_nat 0xffffffff81001000 :: 64 word)"
    using assms by (simp add: sample_table_nth sample_free_def sample_ni_def split: if_splits)
  from of_nat_small_inj [OF _ _ this] assms show False by simp
qed

lemma sample_table_first: "filter (\<lambda>k. sample_table ! k = sample_ni) [0..<256] ! 0 = 134"
proof -
  have "find (\<lambda>k. sample_table ! k = sample_ni) [0..<256] = Some 134"
    using sample_table_before by (simp add: find_upt sample_table_nth sample_free_def)
  then show ?thesis by (subst filter_upt_find) simp
qed

text \<open>The table at the first address of the search; every page has a frame.\<close>

definition sample_mem :: memory where
  "sample_mem a = Some (if START \<le> a \<and> a < START + 2048 then sample_table ! (unat (a - START) div 8) else 0)"

definition sample_pt :: page_tables where
  "sample_pt b i = 0x81"

lemma sample_pt_maps: "sys_vtpmo sample_pt cr3 a \<noteq> NO_MAP"
  by (simp add: sys_vtpmo_def sample_pt_def VALID_def LH_MAPPING_def PT_ADDRESS_MASK_def NO_MAP_def c_int_def)

lemma sample_mem_backed: "backed sample_mem vtpmo"
  by (simp add: backed_def sample_mem_def)

lemma sample_mem_table: "k < 256 \<Longrightarrow> elem sample_mem START k = Some (sample_table ! k)"
proof -
  assume k: "k < 256"
  have u: "unat (START + of_nat (8 * k)) = unat START + 8 * k"
    using k by (intro unat_add_small) (simp add: START_def)
  have "START \<le> START + of_nat (8 * k)" "START + of_nat (8 * k) < START + 2048"
    using k u by (simp_all only: word_le_nat_alt word_less_nat_alt) (simp_all add: START_def)
  moreover have "unat (START + of_nat (8 * k) - START) = 8 * k"
    using k by (simp only: add_diff_cancel_left' unat_of_nat) simp
  ultimately show ?thesis by (simp add: elem_def sample_mem_def)
qed

lemma sample_mem_matches: "table_pattern sample_mem START = Some True"
proof -
  have "matches (nth sample_table)"
    using sample_table_before by (simp add: matches_def sample_table_nth sample_free_def sample_ni_def)
  then show ?thesis using table_pattern_eq [of sample_mem START "nth sample_table"] sample_mem_table by simp
qed

lemma sample_search: "syscall_table_finder sample_mem (sys_vtpmo sample_pt 0) = Some (Some (START, sample_ni))"
proof -
  obtain r where r: "syscall_table_finder sample_mem (sys_vtpmo sample_pt 0) = Some r"
    "search_result sample_mem (sys_vtpmo sample_pt 0) START r"
    using vtpmo_pages.finder_spec [OF sample_mem_backed] by blast
  have at: "table_at sample_mem (sys_vtpmo sample_pt 0) START" "candidate START START"
    using sample_pt_maps sample_mem_matches by (simp_all add: table_at_def candidate_def START_def MAX_ADDR_def)
  with r(2) obtain t ni where t: "r = Some (t, ni)" by (cases r) (auto simp: search_result_def)
  with r(2) at have "\<not> START < t" "START \<le> t" by (auto simp: search_result_def candidate_def)
  then have "t = START" by simp
  moreover have "elem sample_mem START 134 = Some sample_ni"
    by (simp add: sample_mem_table sample_table_nth sample_free_def)
  ultimately show ?thesis using r t by (simp add: search_result_def hit_def)
qed

lemma sample_discovery:
  obtains u where "usctm_init sample_mem (sys_vtpmo sample_pt 0) = Some (Inr u)"
    "sys_call_table_address u = START" "sys_ni_syscall_address u = sample_ni"
proof -
  obtain fs where "free_entries sample_mem START sample_ni = Some fs"
    using free_entries_eq [of sample_mem START sample_table] sample_mem_table by (simp add: Let_def)
  with sample_search that show thesis by (simp add: usctm_init_def)
qed

section \<open>Properties\<close>

text \<open>
  C32: the search for the system call table is safe and finds the first table. When memory can be read
  wherever the page tables hold a frame, the search ends without a page fault; if it reports no
  table then no word-aligned address of the searched range holds one, and otherwise the reported
  address matches the pattern, the reported \<open>sys_ni_syscall\<close> is its entry 134, and no lower address
  holds a table.
\<close>

theorem search_finds_first_table:
  assumes "\<forall>a. sys_vtpmo pt cr3 a \<noteq> NO_MAP \<longrightarrow> mem a \<noteq> None"
  shows "\<exists>r. syscall_table_finder mem (sys_vtpmo pt cr3) = Some r \<and>
    (r = None \<longrightarrow> (\<forall>t. candidate START t \<longrightarrow> \<not> table_at mem (sys_vtpmo pt cr3) t)) \<and>
    (\<forall>t ni. r = Some (t, ni) \<longrightarrow>
       candidate START t \<and> table_pattern mem t = Some True \<and> elem mem t FIRST_NI_SYSCALL = Some ni \<and>
       (\<forall>t'. candidate START t' \<and> t' < t \<longrightarrow> \<not> table_at mem (sys_vtpmo pt cr3) t'))"
proof -
  have "backed mem (sys_vtpmo pt cr3)" using assms by (simp add: backed_def)
  from vtpmo_pages.finder_spec [OF this] show ?thesis
    by (auto simp: search_result_def hit_def FIRST_NI_SYSCALL_def split: option.splits)
qed

theorem search_finds_first_table_witness:
  "syscall_table_finder sample_mem (sys_vtpmo sample_pt 0) = Some (Some (START, sample_ni)) \<and>
   table_pattern sample_mem START = Some True"
  using search_finds_first_table [of sample_pt 0 sample_mem] sample_search by (auto simp: sample_mem_def)

text \<open>
  The page walk stays inside the tables and answers for whole pages: it depends only on the 512
  entries of each table it visits, and two addresses of one page get the same answer.
\<close>

theorem vtpmo_walk_local:
  assumes "\<forall>b i. i < 512 \<longrightarrow> pt b i = pt' b i" "a AND ADDRESS_MASK = b AND ADDRESS_MASK"
  shows "sys_vtpmo pt cr3 a = sys_vtpmo pt' cr3 b"
proof -
  have "pt b (pt_index s a) = pt' b (pt_index s a)" if "s \<le> 48" for b s
    using assms(1) that by (simp add: pt_index_eq)
  then have "sys_vtpmo pt cr3 a = sys_vtpmo pt' cr3 a" by (simp add: sys_vtpmo_def Let_def)
  also have "\<dots> = sys_vtpmo pt' cr3 b" by (rule sys_vtpmo_page [OF assms(2)])
  finally show ?thesis .
qed

theorem vtpmo_walk_local_witness:
  "sys_vtpmo sample_pt 0 0xffffffff81000123 = sys_vtpmo (\<lambda>b i. if i < 512 then 0x81 else 0) 0 0xffffffff81000fff"
  by (rule vtpmo_walk_local) (simp_all add: sample_pt_def ADDRESS_MASK_def)

text \<open>
  A mapping with pages of one gigabyte is not recognised: the walk takes the data of such a page for
  a table, and what it answers depends on that data.
\<close>

theorem vtpmo_misreads_gigabyte_page:
  assumes "pt (cr3 AND ADDRESS_MASK) (pt_index 39 a) AND VALID \<noteq> 0"
    and "pud = pt (pt (cr3 AND ADDRESS_MASK) (pt_index 39 a) AND PT_ADDRESS_MASK) (pt_index 30 a)"
    and "pud AND VALID \<noteq> 0" "pud AND LH_MAPPING \<noteq> 0"
    and "pt (pud AND PT_ADDRESS_MASK) (pt_index 21 a) AND VALID = 0"
  shows "sys_vtpmo pt cr3 a = NO_MAP"
  using assms by (simp add: sys_vtpmo_def Let_def)

end
