(* ===== verification/Proc_Syscall.thy ===== *)
theory Proc_Syscall
  imports Ref_Syscalls
begin

text \<open>
  \<^verbatim>\<open>reference-monitor/lib/reference_path_based_syscall.c\<close>: the pseudo file \<open>access_point\<close>. A line
  written to it is split at its blanks into an argument vector and dispatched to one of the three
  operations of the administrator; reading it lists the restricted paths. \<open>argv\<close> is the list of its
  strings. \<open>None\<close> stands for a run that leaves the arrays of the code (more arguments than \<open>argv\<close> has
  places, a path longer than its buffer) or follows a NULL pointer.
\<close>

section \<open>Definitions\<close>

definition CHANGE_STATE :: string where "CHANGE_STATE = ''cngst''"
definition CHANGE_PATH :: string where "CHANGE_PATH = ''cngpth''"
definition CHANGE_PASSWORD :: string where "CHANGE_PASSWORD = ''cngpwd''"
definition PWD :: string where "PWD = ''-pwd''"
definition OPT :: string where "OPT = ''-opt''"
definition PTH :: string where "PTH = ''-pth''"
definition OLD_PWD :: string where "OLD_PWD = ''-old''"
definition NEW_PWD :: string where "NEW_PWD = ''-new''"

lemmas proc_keywords = CHANGE_STATE_def CHANGE_PATH_def CHANGE_PASSWORD_def PWD_def OPT_def PTH_def
  OLD_PWD_def NEW_PWD_def

fun sys_list_loop :: "string \<Rightarrow> string list \<Rightarrow> int \<Rightarrow> int" where
  "sys_list_loop sys_name [] i = - EINVAL"
| "sys_list_loop sys_name (k # ks) i =
     (if strncmp k sys_name (length sys_name) = 0 then i else sys_list_loop sys_name ks (i + 1))"

definition check_avilable_sys_list :: "string \<Rightarrow> int" where
  "check_avilable_sys_list sys_name = sys_list_loop sys_name [CHANGE_STATE, CHANGE_PATH, CHANGE_PASSWORD] 0"

text \<open>
  Replacing each separator by NUL and pointing behind it: the segments between separators. The
  string at the start of a segment ends at the first NUL in it.
\<close>

fun segments :: "char \<Rightarrow> char list \<Rightarrow> char list list" where
  "segments sep [] = [[]]"
| "segments sep (c # cs) =
     (if c = sep then [] # segments sep cs
      else case segments sep cs of [] \<Rightarrow> [[c]] | s # ss \<Rightarrow> (c # s) # ss)"

definition arg_vector :: "char \<Rightarrow> char list \<Rightarrow> string list" where
  "arg_vector sep s = map cstr (segments sep s)"

definition upper :: "char \<Rightarrow> char" where
  "upper c = (if (97 :: nat) \<le> of_char c \<and> (of_char c :: nat) \<le> 122 then char_of (of_char c - 32 :: nat) else c)"

definition opt_value :: "string \<Rightarrow> int" where
  "opt_value a =
     (if strncmp a ''ON'' (length a) = 0 then ON
      else if strncmp a ''OFF'' (length a) = 0 then OFF
      else if strncmp a ''RON'' (length a) = 0 then REC_ON
      else if strncmp a ''ROF'' (length a) = 0 then REC_OFF
      else if strncmp a ''ADPTH'' (length a) = 0 then ADD_PATH
      else if strncmp a ''RMPTH'' (length a) = 0 then REMOVE_PATH
      else 0)"

fun opt_loop :: "string list \<Rightarrow> int \<Rightarrow> int" where
  "opt_loop [] ret = ret"
| "opt_loop (a # as) ret = opt_loop as (ret OR opt_value a)"

text \<open>\<open>parse_opt\<close>: its result and the string it leaves at its argument; \<open>argv\<close> has nine places.\<close>

definition parse_opt :: "string option \<Rightarrow> (int \<times> string) option" where
  "parse_opt op_str =
     (case op_str of
        None \<Rightarrow> None
      | Some s \<Rightarrow>
          let argv = arg_vector CHR ''|'' (map upper s)
          in if length argv > 8 then None else Some (opt_loop argv 0, hd argv))"

fun next_arg :: "string list \<Rightarrow> string option" where
  "next_arg [] = None"
| "next_arg (a # _) = Some a"

text \<open>
  The loops over \<open>argv\<close>. The string \<open>parse_opt\<close> has rewritten is the next argument the loop looks at.
  A string kept in a pointer (the password) is never one that \<open>parse_opt\<close> rewrites, since one
  argument cannot be both \<open>-pwd\<close> and \<open>-opt\<close>.
\<close>

function state_loop :: "string list \<Rightarrow> string option \<Rightarrow> int \<Rightarrow> (string option \<times> int) option" where
  "state_loop [] pw op = Some (pw, op)"
| "state_loop (a # rest) pw op =
     (let pw' = (if strncmp a PWD 4 = 0 then next_arg rest else pw) in
      if strncmp a OPT 4 = 0 then
        (case parse_opt (next_arg rest) of
           None \<Rightarrow> None
         | Some (op', b) \<Rightarrow> state_loop (b # tl rest) pw' op')
      else state_loop rest pw' op)"
  by pat_completeness auto

lemma parse_opt_next: "parse_opt (next_arg rest) = Some (op, b) \<Longrightarrow> rest \<noteq> []"
  by (cases rest) (auto simp: parse_opt_def)

termination state_loop
  by (relation "measure (\<lambda>(as, pw, op). length as)") (auto dest!: parse_opt_next)

definition change_state_vfs_sys_wrapper ::
    "kenv \<Rightarrow> rm_state \<Rightarrow> string list \<Rightarrow> nat \<Rightarrow> (int \<times> rm_state) option" where
  "change_state_vfs_sys_wrapper e st argv format =
     (if format \<noteq> 4 then Some (- EINVAL, st)
      else do {
        (pw, op) \<leftarrow> state_loop argv None (-1);
        (case pw of
           None \<Rightarrow> Some (- EINVAL, st)
         | Some p \<Rightarrow>
             if strcmp p ''(null)'' = 0 then Some (- EINVAL, st) else do_change_state e st (Some p) op)
      })"

text \<open>The loop of the second wrapper; \<open>Inl\<close> is its early return.\<close>

function path_loop ::
    "string list \<Rightarrow> string option \<Rightarrow> cbuf \<Rightarrow> int \<Rightarrow> (int + string option \<times> cbuf \<times> int) option" where
  "path_loop [] pw pathname op = Some (Inr (pw, pathname, op))"
| "path_loop (a # rest) pw pathname op =
     (let pw' = (if strncmp a PWD 4 = 0 then next_arg rest else pw) in
      if strncmp a PTH 4 = 0 \<and> next_arg rest = None then Some (Inl (- EINVAL))
      else if strncmp a PTH 4 = 0 \<and> strcmp (the (next_arg rest)) ''(null)'' = 0 then Some (Inl (- EINVAL))
      else if strncmp a PTH 4 = 0 \<and> length (the (next_arg rest)) \<ge> PATH_MAX then None
      else
        let pathname' = (if strncmp a PTH 4 = 0 then strncpy_len pathname (the (next_arg rest)) else pathname) in
        if strncmp a OPT 4 = 0 then
          (case parse_opt (next_arg rest) of
             None \<Rightarrow> None
           | Some (op', b) \<Rightarrow> path_loop (b # tl rest) pw' pathname' op')
        else path_loop rest pw' pathname' op)"
  by pat_completeness auto

termination path_loop
  by (relation "measure (\<lambda>(as, pw, pathname, op). length as)") (auto dest!: parse_opt_next)

definition change_path_vfs_sys_wrapper ::
    "kenv \<Rightarrow> rm_state \<Rightarrow> string list \<Rightarrow> nat \<Rightarrow> (int \<times> rm_state) option" where
  "change_path_vfs_sys_wrapper e st argv format =
     (if format \<noteq> 6 then Some (- EINVAL, st)
      else if \<not> alloc_ok e A_proc_pathname then Some (- ENOMEM, st)
      else do {
        r \<leftarrow> path_loop argv None (replicate PATH_MAX NUL) (-1);
        (case r of
           Inl err \<Rightarrow> Some (err, st)
         | Inr (None, pathname, op) \<Rightarrow> Some (- EINVAL, st)
         | Inr (Some p, pathname, op) \<Rightarrow>
             if strcmp p ''(null)'' = 0 then Some (- EINVAL, st)
             else do_change_path e st (Some p) (Some pathname) op)
      })"

fun password_loop :: "string list \<Rightarrow> string option \<Rightarrow> string option \<Rightarrow> string option \<times> string option" where
  "password_loop [] old_pwd new_pwd = (old_pwd, new_pwd)"
| "password_loop (a # rest) old_pwd new_pwd =
     password_loop rest (if strncmp a OLD_PWD 4 = 0 then next_arg rest else old_pwd)
       (if strncmp a NEW_PWD 4 = 0 then next_arg rest else new_pwd)"

definition change_password_vfs_sys_wrapper ::
    "kenv \<Rightarrow> rm_state \<Rightarrow> string list \<Rightarrow> nat \<Rightarrow> (int \<times> rm_state) option" where
  "change_password_vfs_sys_wrapper e st argv format =
     (if format \<noteq> 4 then Some (- EINVAL, st)
      else case password_loop argv None None of
        (Some old, Some new) \<Rightarrow>
          if strcmp old ''(null)'' = 0 then Some (- EINVAL, st)
          else if strcmp new ''(null)'' = 0 then Some (- EINVAL, st)
          else do_change_password e st (Some old) (Some new)
      | _ \<Rightarrow> Some (- EINVAL, st))"

text \<open>\<open>syscall_proc_write\<close> of \<open>len\<close> bytes at a user address where \<open>user\<close> can be read.\<close>

definition syscall_proc_write ::
    "kenv \<Rightarrow> rm_state \<Rightarrow> char list \<Rightarrow> nat \<Rightarrow> (int \<times> rm_state) option" where
  "syscall_proc_write e st user len =
     (if len \<ge> PATH_MAX + NAME_MAX + 1 then Some (-1, st)
      else if \<not> alloc_ok e A_proc_buffer then Some (- ENOMEM, st)
      else
        let (ret, bytes) = copy_from_user user len in
        if ret \<noteq> 0 then Some (-1, st)
        else
          let buffer = map (\<lambda>c. if c = CHR 0x0A then NUL else c) bytes;
              argv = arg_vector CHR '' '' buffer;
              format = length argv - 1;
              call = check_avilable_sys_list (hd argv)
          in if length argv > 15 then None
             else if call \<noteq> 0 \<and> call \<noteq> 1 \<and> call \<noteq> 2 then Some (- EBADMSG, st)
             else do {
               (ret, st') \<leftarrow>
                 (if call = 0 then change_state_vfs_sys_wrapper e st (tl argv) format
                  else if call = 1 then change_path_vfs_sys_wrapper e st (tl argv) format
                  else change_password_vfs_sys_wrapper e st (tl argv) format);
               Some (if ret < 0 then ret else int len, st')
             })"

text \<open>
  \<open>syscall_proc_read\<close>. \<open>scnprintf\<close> stores at most one byte less than the room it is given and returns
  the number of bytes stored; the list is formatted into a \<open>kmalloc\<close>ed block. The difference
  \<open>written - *off\<close> is converted to \<open>size_t\<close>. \<open>writable\<close> is the number of bytes that can be stored in the
  user's buffer; \<open>None\<close> is a copy from outside the block.
\<close>

definition proc_line :: "nat \<Rightarrow> rcu_restrict \<Rightarrow> string" where
  "proc_line i x = ''(i='' @ show_nat i @ '', path='' @ entry_path x @ '')'' @ [CHR 0x0A]"

fun proc_list :: "rcu_restrict list \<Rightarrow> nat \<Rightarrow> string \<Rightarrow> string" where
  "proc_list [] i out = out"
| "proc_list (x # xs) i out =
     (if length out < PATH_MAX
      then proc_list xs (i + 1) (out @ take (PATH_MAX - length out - 1) (proc_line i x))
      else proc_list xs i out)"

definition syscall_proc_read ::
    "kenv \<Rightarrow> rm_state \<Rightarrow> nat \<Rightarrow> nat \<Rightarrow> int \<Rightarrow> (int \<times> int \<times> char list) option" where
  "syscall_proc_read e st writable len off =
     (if \<not> alloc_ok e A_proc_read then Some (- ENOMEM, off, [])
      else if off \<ge> int PATH_MAX then Some (0, off, [])
      else
        let out = proc_list (restrict_path_list st) 0 [];
            block = fresh_mem e A_proc_read PATH_MAX;
            temp_buffer = (if restrict_path_list st = [] then block else splice 0 (out @ [NUL]) block);
            to_copy = c_int (min (int len) (c_ulong (int (length out) - off)))
        in if off < 0 \<or> to_copy < 0 \<or> off + to_copy > int PATH_MAX then None
           else
             let n = min (nat to_copy) writable
             in Some (int n, off + int n, take n (drop (nat off) temp_buffer)))"

section \<open>Splitting a line\<close>

lemma segments_no_sep: "sep \<notin> set s \<Longrightarrow> segments sep s = [s]"
  by (induction s) auto

lemma segments_append: "sep \<notin> set s \<Longrightarrow> segments sep (s @ sep # t) = s # segments sep t"
  by (induction s) auto

lemma length_segments: "length (segments sep s) = Suc (length (filter (\<lambda>c. c = sep) s))"
  by (induction s) (auto split: list.splits)

lemma segments_neq_Nil [simp]: "segments sep s \<noteq> []"
  using length_segments [of sep s] by auto

text \<open>An argument as it can be passed on a line: not empty of meaning to the splitter.\<close>

definition plain :: "string \<Rightarrow> bool" where
  "plain s = (CHR '' '' \<notin> set s \<and> CHR 0x0A \<notin> set s \<and> NUL \<notin> set s)"

definition join :: "string list \<Rightarrow> string" where
  "join ws = concat (map (\<lambda>w. CHR '' '' # w) ws)"

lemma plain_newline: "plain s \<Longrightarrow> map (\<lambda>c. if c = CHR 0x0A then NUL else c) s = s"
  by (rule map_idI) (auto simp: plain_def)

lemma arg_vector_join:
  "plain w \<Longrightarrow> \<forall>x \<in> set ws. plain x \<Longrightarrow> arg_vector CHR '' '' (w @ join ws) = w # ws"
proof (induction ws arbitrary: w)
  case Nil
  then show ?case by (simp add: arg_vector_def join_def segments_no_sep plain_def cstr_id)
next
  case (Cons x ws)
  then have "arg_vector CHR '' '' (x @ join ws) = x # ws" by simp
  with Cons.prems show ?case
    by (simp add: arg_vector_def join_def segments_append plain_def cstr_id)
qed

lemma newline_join:
  "plain w \<Longrightarrow> \<forall>x \<in> set ws. plain x \<Longrightarrow>
     map (\<lambda>c. if c = CHR 0x0A then NUL else c) (w @ join ws) = w @ join ws"
  by (rule map_idI) (auto simp: plain_def join_def split: if_splits)

lemma keyword_4: "NUL \<notin> set k \<Longrightarrow> length k = 4 \<Longrightarrow> NUL \<notin> set s \<Longrightarrow> (strncmp s k 4 = 0) = prefix k s"
  using strncmp_const_prefix [of k 4 s] by (simp add: cstr_id)

text \<open>The line as the kernel sees it, when it is copied completely.\<close>

lemma proc_write_line:
  assumes "mem_ok e" "plain w" "\<forall>x \<in> set ws. plain x" "length ws \<le> 14"
    and "length (w @ join ws) < PATH_MAX + NAME_MAX + 1"
  shows "syscall_proc_write e st (w @ join ws) (length (w @ join ws)) =
    (let call = check_avilable_sys_list w in
     if call \<noteq> 0 \<and> call \<noteq> 1 \<and> call \<noteq> 2 then Some (- EBADMSG, st)
     else do {
       (ret, st') \<leftarrow>
         (if call = 0 then change_state_vfs_sys_wrapper e st ws (length ws)
          else if call = 1 then change_path_vfs_sys_wrapper e st ws (length ws)
          else change_password_vfs_sys_wrapper e st ws (length ws));
       Some (if ret < 0 then ret else int (length (w @ join ws)), st')
     })"
proof -
  have "copy_from_user (w @ join ws) (length (w @ join ws)) = (0, w @ join ws)"
    by (simp add: copy_from_user_def)
  then show ?thesis
    using assms newline_join [OF assms(2,3)] arg_vector_join [OF assms(2,3)]
    by (simp add: syscall_proc_write_def Let_def del: length_append map_append)
qed

section \<open>Options\<close>

lemma parse_opt_states:
  "parse_opt (Some ''ON'') = Some (ON, ''ON'')" "parse_opt (Some ''OFF'') = Some (OFF, ''OFF'')"
  "parse_opt (Some ''RON'') = Some (REC_ON, ''RON'')" "parse_opt (Some ''ROF'') = Some (REC_OFF, ''ROF'')"
  "parse_opt (Some ''ADPTH'') = Some (ADD_PATH, ''ADPTH'')"
  "parse_opt (Some ''RMPTH'') = Some (REMOVE_PATH, ''RMPTH'')"
  by (simp_all add: parse_opt_def arg_vector_def upper_def opt_value_def)

text \<open>Arguments that are not mistaken for a keyword.\<close>

definition no_keyword :: "string \<Rightarrow> bool" where
  "no_keyword s = (\<not> prefix PWD s \<and> \<not> prefix OPT s \<and> \<not> prefix PTH s \<and> \<not> prefix OLD_PWD s \<and> \<not> prefix NEW_PWD s)"

lemma keyword_tests:
  assumes "plain s" "no_keyword s"
  shows "strncmp s PWD 4 \<noteq> 0" "strncmp s OPT 4 \<noteq> 0" "strncmp s PTH 4 \<noteq> 0"
    "strncmp s OLD_PWD 4 \<noteq> 0" "strncmp s NEW_PWD 4 \<noteq> 0"
  using assms keyword_4 [of PWD s] keyword_4 [of OPT s] keyword_4 [of PTH s] keyword_4 [of OLD_PWD s]
    keyword_4 [of NEW_PWD s]
  by (simp_all add: plain_def no_keyword_def proc_keywords)

lemma keyword_self:
  "strncmp PWD PWD 4 = 0" "strncmp OPT PWD 4 \<noteq> 0" "strncmp PTH PWD 4 \<noteq> 0"
  "strncmp PWD OPT 4 \<noteq> 0" "strncmp OPT OPT 4 = 0" "strncmp PTH OPT 4 \<noteq> 0"
  "strncmp PWD PTH 4 \<noteq> 0" "strncmp OPT PTH 4 \<noteq> 0" "strncmp PTH PTH 4 = 0"
  "strncmp OLD_PWD OLD_PWD 4 = 0" "strncmp NEW_PWD OLD_PWD 4 \<noteq> 0"
  "strncmp OLD_PWD NEW_PWD 4 \<noteq> 0" "strncmp NEW_PWD NEW_PWD 4 = 0"
  by (simp_all add: proc_keywords strncmp_eq_0)

definition opt_word :: "string \<Rightarrow> int \<Rightarrow> bool" where
  "opt_word w v = (parse_opt (Some w) = Some (v, w) \<and> plain w \<and> no_keyword w)"

lemma opt_words:
  "opt_word ''ON'' ON" "opt_word ''OFF'' OFF" "opt_word ''RON'' REC_ON" "opt_word ''ROF'' REC_OFF"
  "opt_word ''ADPTH'' ADD_PATH" "opt_word ''RMPTH'' REMOVE_PATH"
  by (simp_all add: opt_word_def parse_opt_states plain_def no_keyword_def proc_keywords)

lemma state_loop_line:
  assumes "plain p" "no_keyword p" "opt_word w v"
  shows "state_loop [PWD, p, OPT, w] None (-1) = Some (Some p, v)"
  using assms(3) keyword_tests [OF assms(1,2)] keyword_tests [of w]
  by (simp add: keyword_self opt_word_def)

lemma path_loop_line:
  assumes "plain p" "no_keyword p" "plain t" "no_keyword t" "t \<noteq> ''(null)''" "length t < PATH_MAX" "opt_word w v"
  shows "path_loop [PWD, p, PTH, t, OPT, w] None (replicate PATH_MAX NUL) (-1) = Some (Inr (Some p, clean_buf t, v))"
proof -
  have "strcmp t ''(null)'' \<noteq> 0" using assms(3,5) by (simp add: strcmp_eq_0 plain_def cstr_id)
  then show ?thesis
    using assms(6,7) keyword_tests [OF assms(1,2)] keyword_tests [OF assms(3,4)] keyword_tests [of w]
    by (simp add: keyword_self opt_word_def strncpy_len_zero clean_buf_def)
qed

lemma password_loop_line:
  assumes "plain p" "no_keyword p" "plain n" "no_keyword n"
  shows "password_loop [OLD_PWD, p, NEW_PWD, n] None None = (Some p, Some n)"
  using keyword_tests [OF assms(1,2)] keyword_tests [OF assms(3,4)] by (simp add: keyword_self)

section \<open>The list of paths\<close>

lemma proc_list_eq:
  "length out < PATH_MAX \<Longrightarrow>
     proc_list es i out = take (PATH_MAX - 1) (out @ concat (map (\<lambda>(k, x). proc_line k x) (enumerate i es)))"
proof (induction es arbitrary: i out)
  case (Cons x es)
  let ?out = "out @ take (PATH_MAX - length out - 1) (proc_line i x)"
  have "length ?out < PATH_MAX" using Cons.prems by (auto simp: min_def)
  then have "proc_list (x # es) i out =
      take (PATH_MAX - 1) (?out @ concat (map (\<lambda>(k, x). proc_line k x) (enumerate (i + 1) es)))"
    using Cons by simp
  also have "\<dots> = take (PATH_MAX - 1) (out @ proc_line i x @ concat (map (\<lambda>(k, x). proc_line k x) (enumerate (i + 1) es)))"
    using Cons.prems by (cases "length (proc_line i x) \<le> PATH_MAX - length out - 1") (simp_all add: min_def)
  finally show ?case by simp
qed simp

section \<open>Properties\<close>

text \<open>
  Reading the pseudo file lists the restricted paths: a reader at an offset inside the listing gets
  the next bytes of the numbered lines, newest path first, cut at 4095 bytes.
\<close>

theorem proc_read_lists_paths:
  assumes "mem_ok e" "listing = take (PATH_MAX - 1) (concat (map (\<lambda>(k, x). proc_line k x) (enumerate 0 (restrict_path_list st))))"
    and "off \<le> length listing" "len < 2 ^ 31" "len \<le> writable" "length (fresh_mem e A_proc_read PATH_MAX) = PATH_MAX"
  shows "syscall_proc_read e st writable len (int off) =
    Some (int (length (take len (drop off listing))), int (off + length (take len (drop off listing))), take len (drop off listing))"
proof -
  have out: "proc_list (restrict_path_list st) 0 [] = listing"
    using proc_list_eq [of "[]" "restrict_path_list st" 0] by (simp add: assms(2) PATH_MAX_def)
  have l: "length listing < PATH_MAX" by (simp add: assms(2) PATH_MAX_def)
  have "c_ulong (int (length listing) - int off) = int (length listing - off)"
    using assms(3) l by (subst c_ulong_id) (simp_all add: of_nat_diff PATH_MAX_def)
  moreover have "c_int (int (min len (length listing - off))) = int (min len (length listing - off))"
    using assms(4) by (intro c_int_id) auto
  ultimately have tc: "c_int (min (int len) (c_ulong (int (length listing) - int off))) = int (length (take len (drop off listing)))"
    by (simp add: min.commute)
  define n where "n = length (take len (drop off listing))"
  have n: "n \<le> writable" "off + n \<le> length listing" using assms(3,5) by (auto simp: n_def)
  let ?t = "if restrict_path_list st = [] then fresh_mem e A_proc_read PATH_MAX
    else splice 0 (listing @ [NUL]) (fresh_mem e A_proc_read PATH_MAX)"
  have "take n (drop off ?t) = take len (drop off listing)"
  proof (cases "restrict_path_list st = []")
    case True
    then show ?thesis using n(2) assms(2) by simp
  next
    case False
    have "take n (drop off (splice 0 (listing @ [NUL]) m)) = take n (drop off listing)" for m
      using n(2) by (simp add: splice_def)
    moreover have "take n (drop off listing) = take len (drop off listing)"
      unfolding n_def by (cases "len \<le> length listing - off") simp_all
    ultimately show ?thesis using False by simp
  qed
  then show ?thesis
    using assms(1) l n tc by (simp add: syscall_proc_read_def out n_def [symmetric] Let_def del: length_take)
qed

text \<open>
  Reading past the listing leaks kernel memory. For an offset behind the listing but inside the
  buffer the number of bytes left wraps around, and the reader gets what the freshly allocated
  block held before.
\<close>

theorem proc_read_leaks_heap:
  assumes "mem_ok e" "length (concat (map (\<lambda>(k, x). proc_line k x) (enumerate 0 (restrict_path_list st)))) < off"
    and "off + len \<le> PATH_MAX" "0 < len" "len \<le> writable" "length (fresh_mem e A_proc_read PATH_MAX) = PATH_MAX"
  shows "syscall_proc_read e st writable len (int off) =
    Some (int len, int (off + len), take len (drop off (fresh_mem e A_proc_read PATH_MAX)))"
proof -
  let ?c = "concat (map (\<lambda>(k, x). proc_line k x) (enumerate 0 (restrict_path_list st)))"
  have out: "proc_list (restrict_path_list st) 0 [] = ?c"
    using proc_list_eq [of "[]" "restrict_path_list st" 0] assms(2-4) by (simp add: PATH_MAX_def)
  have "c_ulong (int (length ?c) - int off) = 2 ^ 64 + int (length ?c) - int off"
  proof -
    have "(int (length ?c) - int off) mod 2 ^ 64 = (2 ^ 64 + int (length ?c) - int off) mod 2 ^ 64"
      by (metis add_diff_eq mod_add_self1)
    also have "\<dots> = 2 ^ 64 + int (length ?c) - int off"
      using assms(2,3) by (intro mod_pos_pos_trivial) (simp_all add: PATH_MAX_def)
    finally show ?thesis by (simp add: c_ulong_def)
  qed
  then have "c_int (min (int len) (c_ulong (int (length ?c) - int off))) = int len"
    using assms(3) by (simp add: min_def c_int_id PATH_MAX_def)
  moreover have "take len (drop off (if restrict_path_list st = [] then fresh_mem e A_proc_read PATH_MAX
      else splice 0 (?c @ [NUL]) (fresh_mem e A_proc_read PATH_MAX))) = take len (drop off (fresh_mem e A_proc_read PATH_MAX))"
    using assms(2,6) by (simp add: drop_splice_after)
  ultimately show ?thesis
    using assms(1,3-5) by (simp add: syscall_proc_read_def out Let_def min_def)
qed

text \<open>
  C35: a line with fifteen or more blanks writes past the argument vector on the kernel stack, whoever
  writes it: the vector is filled before anything is checked.
\<close>

theorem proc_write_overflow:
  assumes "mem_ok e" "15 \<le> length (filter (\<lambda>c. c = CHR '' '') line)" "length line < PATH_MAX + NAME_MAX + 1"
  shows "syscall_proc_write e st line (length line) = None"
proof -
  have "filter (\<lambda>c. c = CHR '' '') (map (\<lambda>c. if c = CHR 0x0A then NUL else c) xs) = filter (\<lambda>c. c = CHR '' '') xs" for xs
    by (induction xs) auto
  then have "15 < length (arg_vector CHR '' '' (map (\<lambda>c. if c = CHR 0x0A then NUL else c) line))"
    using assms(2) by (simp add: arg_vector_def length_segments)
  then show ?thesis
    using assms(1,3) by (simp add: syscall_proc_write_def copy_from_user_def Let_def)
qed

theorem proc_read_lists_paths_witness:
  "\<exists>n off. syscall_proc_read sample_env (sample_state\<lparr>restrict_path_list := [sample_entry]\<rparr>) 100 100 0 =
     Some (n, off, ''(i=0, path=/home/u/secret)'' @ [CHR 0x0A])"
  using proc_read_lists_paths [of sample_env "''(i=0, path=/home/u/secret)'' @ [CHR 0x0A]"
      "sample_state\<lparr>restrict_path_list := [sample_entry]\<rparr>" 0 100 100] sample_env_ok
  by (simp add: proc_line_def show_nat_0 PATH_MAX_def)

theorem proc_read_leaks_heap_witness:
  "syscall_proc_read (sample_env\<lparr>fresh_mem := \<lambda>_ n. replicate n CHR ''k''\<rparr>) sample_state 8 8 2000 =
     Some (8, 2008, replicate 8 CHR ''k'')"
proof -
  have "2008 \<le> PATH_MAX" "min 8 (PATH_MAX - 2000) = 8" by (simp_all add: PATH_MAX_def)
  then show ?thesis
    using proc_read_leaks_heap [of "sample_env\<lparr>fresh_mem := \<lambda>_ n. replicate n CHR ''k''\<rparr>" sample_state 2000 8 8]
      sample_env_ok(2) by (simp del: replicate.simps)
qed

theorem proc_write_overflow_witness:
  "syscall_proc_write (sample_env\<lparr>euid := 1000\<rparr>) sample_state (replicate 15 CHR '' '') (length (replicate 15 CHR '' '')) = None"
  by (rule proc_write_overflow) (use sample_env_ok(2) in \<open>simp_all add: PATH_MAX_def\<close>)

end
