(* ===== verification/User_Lib.thy ===== *)
theory User_Lib
  imports Proc_Syscall
begin

text \<open>
  \<^verbatim>\<open>user/lib/ref_syscall.c\<close> (the copy under \<^verbatim>\<open>test/lib\<close> is the same file): the library of the
  administrator's tools. Its path-based calls print a line into an array of 256 bytes and write it
  to the pseudo file; its plain calls look the numbers of the system calls up in a file of the
  system call discoverer. \<open>None\<close> is a write outside one of its arrays.
\<close>

section \<open>Definitions\<close>

definition PATH_BUFFER :: nat where "PATH_BUFFER = 256"

definition get_str_state :: "int \<Rightarrow> string" where
  "get_str_state state =
     (if state = ON then ''ON'' else if state = OFF then ''OFF'' else if state = REC_ON then ''RON''
      else if state = REC_OFF then ''ROF'' else ''-1'')"

definition get_str_path :: "int \<Rightarrow> string" where
  "get_str_path add_or_remove =
     (if add_or_remove = ADD_PATH then ''ADPTH'' else if add_or_remove = REMOVE_PATH then ''RMPTH'' else ''-1'')"

text \<open>\<open>%s\<close> of a pointer: the C library prints \<open>(null)\<close> for NULL.\<close>

definition show_str :: "string option \<Rightarrow> string" where
  "show_str s = (case s of None \<Rightarrow> ''(null)'' | Some t \<Rightarrow> t)"

text \<open>
  The common end of the three calls: \<open>sprintf\<close> to the array, \<open>write\<close> to the pseudo file, whose write
  operation is \<open>syscall_proc_write\<close>, and \<open>close\<close>. \<open>fd_ok\<close>: the pseudo file could be opened.
\<close>

definition send_line :: "kenv \<Rightarrow> rm_state \<Rightarrow> bool \<Rightarrow> string \<Rightarrow> (int \<times> rm_state) option" where
  "send_line e st fd_ok line =
     (if \<not> fd_ok then Some (-1, st)
      else if length line \<ge> PATH_BUFFER then None
      else do {
        (r, st') \<leftarrow> syscall_proc_write e st line (length line);
        Some (if r < 0 then -1 else 0, st')
      })"

definition path_change_state ::
    "kenv \<Rightarrow> rm_state \<Rightarrow> bool \<Rightarrow> string option \<Rightarrow> int \<Rightarrow> (int \<times> rm_state) option" where
  "path_change_state e st fd_ok password state =
     send_line e st fd_ok (''cngst -pwd '' @ show_str password @ '' -opt '' @ get_str_state state)"

definition path_change_path ::
    "kenv \<Rightarrow> rm_state \<Rightarrow> bool \<Rightarrow> string option \<Rightarrow> string option \<Rightarrow> int \<Rightarrow> (int \<times> rm_state) option" where
  "path_change_path e st fd_ok password the_path add_or_remove =
     send_line e st fd_ok (''cngpth -pwd '' @ show_str password @ '' -pth '' @ show_str the_path @
       '' -opt '' @ get_str_path add_or_remove)"

definition path_change_password ::
    "kenv \<Rightarrow> rm_state \<Rightarrow> bool \<Rightarrow> string option \<Rightarrow> string option \<Rightarrow> (int \<times> rm_state) option" where
  "path_change_password e st fd_ok old_password new_password =
     send_line e st fd_ok (''cngpwd -old '' @ show_str old_password @ '' -new '' @ show_str new_password)"

text \<open>
  \<open>get_syscal_number\<close>: \<open>cache\<close> holds the numbers and whether they were read. The file is \<open>None\<close> when
  it cannot be opened, else its bytes, of which 256 are read into an array of 256. \<open>strtok\<close> skips
  empty tokens; \<open>atoi\<close> reads blanks, a sign and digits.
\<close>

record syscall_cache =
  numbers :: "int list"
  empty :: bool

fun digits_value :: "nat \<Rightarrow> string \<Rightarrow> nat" where
  "digits_value acc [] = acc"
| "digits_value acc (c # cs) =
     (if (48 :: nat) \<le> of_char c \<and> (of_char c :: nat) \<le> 57 then digits_value (acc * 10 + (of_char c - 48)) cs else acc)"

definition is_blank :: "char \<Rightarrow> bool" where
  "is_blank c = (c = CHR '' '' \<or> (9 :: nat) \<le> of_char c \<and> (of_char c :: nat) \<le> 13)"

definition atoi :: "string \<Rightarrow> int" where
  "atoi s =
     (case dropWhile is_blank s of
        [] \<Rightarrow> 0
      | c # cs \<Rightarrow> c_int (if c = CHR ''-'' then - int (digits_value 0 cs)
                         else if c = CHR ''+'' then int (digits_value 0 cs)
                         else int (digits_value 0 (c # cs))))"

fun store_tokens :: "string list \<Rightarrow> nat \<Rightarrow> int list \<Rightarrow> int list" where
  "store_tokens [] count ns = ns"
| "store_tokens (t # ts) count ns = (if count < 3 then store_tokens ts (count + 1) (ns[count := atoi t]) else ns)"

definition get_syscal_number ::
    "char list option \<Rightarrow> syscall_cache \<Rightarrow> int \<Rightarrow> (int \<times> syscall_cache) option" where
  "get_syscal_number f cache sys_number =
     (if sys_number < 0 \<or> sys_number > 2 then Some (-1, cache)
      else if empty cache then
        (case f of
           None \<Rightarrow> Some (1, cache)
         | Some bytes \<Rightarrow>
             let r = min 256 (length bytes) in
             if r = 256 then None
             else
               let tokens = filter (\<lambda>t. t \<noteq> []) (segments CHR '','' (cstr bytes));
                   cache' = \<lparr>numbers = store_tokens tokens 0 (numbers cache), empty = False\<rparr>
               in Some (numbers cache' ! nat sys_number, cache'))
      else Some (numbers cache ! nat sys_number, cache))"

section \<open>From the library to the monitor\<close>

lemma line_split:
  "''cngst -pwd '' @ p @ '' -opt '' @ w = CHANGE_STATE @ join [PWD, p, OPT, w]"
  "''cngpth -pwd '' @ p @ '' -pth '' @ t @ '' -opt '' @ w = CHANGE_PATH @ join [PWD, p, PTH, t, OPT, w]"
  "''cngpwd -old '' @ p @ '' -new '' @ t = CHANGE_PASSWORD @ join [OLD_PWD, p, NEW_PWD, t]"
  by (simp_all add: join_def proc_keywords)

lemma dispatch:
  "check_avilable_sys_list CHANGE_STATE = 0" "check_avilable_sys_list CHANGE_PATH = 1"
  "check_avilable_sys_list CHANGE_PASSWORD = 2"
  by (simp_all add: check_avilable_sys_list_def proc_keywords)

lemma keywords_plain:
  "plain CHANGE_STATE" "plain CHANGE_PATH" "plain CHANGE_PASSWORD" "plain PWD" "plain OPT" "plain PTH"
  "plain OLD_PWD" "plain NEW_PWD"
  by (simp_all add: plain_def proc_keywords)

lemma not_null: "plain p \<Longrightarrow> p \<noteq> ''(null)'' \<Longrightarrow> strcmp p ''(null)'' \<noteq> 0"
  by (simp add: strcmp_eq_0 plain_def cstr_id)

lemma buffer_line: "length l < PATH_BUFFER \<Longrightarrow> length l < PATH_MAX + NAME_MAX + 1"
  by (simp add: PATH_BUFFER_def PATH_MAX_def NAME_MAX_def)

text \<open>The result the caller of the library sees.\<close>

definition seen :: "(int \<times> rm_state) option \<Rightarrow> (int \<times> rm_state) option" where
  "seen r = map_option (\<lambda>(ret, st). (if ret < 0 then -1 else 0, st)) r"

definition sendable :: "string \<Rightarrow> bool" where
  "sendable s = (plain s \<and> no_keyword s \<and> s \<noteq> ''(null)'')"

lemma seen_wrap:
  "(do { (r, st') \<leftarrow> (do { (ret, st') \<leftarrow> x; Some (if ret < 0 then ret else int n, st') });
         Some (if r < 0 then -1 else 0, st') }) = seen x"
  by (cases x) (auto simp: seen_def)

lemma send_line_join:
  assumes "mem_ok e" "plain w" "\<forall>x \<in> set ws. plain x" "length ws \<le> 14" "length (w @ join ws) < PATH_BUFFER"
  shows "check_avilable_sys_list w = 0 \<Longrightarrow>
           send_line e st True (w @ join ws) = seen (change_state_vfs_sys_wrapper e st ws (length ws))"
    and "check_avilable_sys_list w = 1 \<Longrightarrow>
           send_line e st True (w @ join ws) = seen (change_path_vfs_sys_wrapper e st ws (length ws))"
    and "check_avilable_sys_list w = 2 \<Longrightarrow>
           send_line e st True (w @ join ws) = seen (change_password_vfs_sys_wrapper e st ws (length ws))"
  using assms(5) proc_write_line [OF assms(1-4) buffer_line [OF assms(5)], of st]
  by (simp_all add: send_line_def seen_wrap del: length_append Option.bind_assoc)

lemma get_str_state_word: "is_rm_state s \<Longrightarrow> opt_word (get_str_state s) s"
  by (auto simp: is_rm_state_def get_str_state_def opt_words)

lemma get_str_path_word: "op = ADD_PATH \<or> op = REMOVE_PATH \<Longrightarrow> opt_word (get_str_path op) op"
  by (auto simp: get_str_path_def opt_words)

section \<open>The numbers of the system calls\<close>

lemma numbers_from_file:
  assumes "empty cache" "0 \<le> k" "k \<le> 2" "length (numbers cache) = 3"
    and "CHR '','' \<notin> set a" "CHR '','' \<notin> set b" "CHR '','' \<notin> set c" "a \<noteq> []" "b \<noteq> []" "c \<noteq> []"
    and "NUL \<notin> set (a @ b @ c @ rest)" "length (a @ b @ c @ rest) < 253"
  shows "get_syscal_number (Some (a @ '','' @ b @ '','' @ c @ '','' @ rest)) cache k =
    Some ([atoi a, atoi b, atoi c] ! nat k, \<lparr>numbers = [atoi a, atoi b, atoi c], empty = False\<rparr>)"
proof -
  let ?f = "a @ '','' @ b @ '','' @ c @ '','' @ rest"
  obtain x y z where n: "numbers cache = [x, y, z]"
    using assms(4) by (auto simp: length_Suc_conv eval_nat_numeral)
  have "cstr ?f = ?f" using assms(11) by (intro cstr_id) auto
  moreover have "filter (\<lambda>t. t \<noteq> []) (segments CHR '','' ?f) = a # b # c # filter (\<lambda>t. t \<noteq> []) (segments CHR '','' rest)"
    using assms(5-10) by (simp add: segments_append)
  moreover have "store_tokens (a # b # c # ts) 0 (numbers cache) = [atoi a, atoi b, atoi c]" for ts
    by (cases ts) (simp_all add: n)
  ultimately show ?thesis
    using assms(1-3,12) by (simp add: get_syscal_number_def Let_def)
qed

text \<open>The text of an array parameter in the kernel's parameter files: decimal numbers, commas between them, a line end.\<close>

fun param_text :: "nat list \<Rightarrow> string" where
  "param_text [] = []"
| "param_text [x] = show_nat x @ [CHR 0x0A]"
| "param_text (x # y # xs) = show_nat x @ '','' @ param_text (y # xs)"

lemma digits_value_append:
  "\<forall>c \<in> set s. (48 :: nat) \<le> of_char c \<and> (of_char c :: nat) \<le> 57 \<Longrightarrow>
     digits_value acc (s @ t) = digits_value (digits_value acc s) t"
  by (induction s arbitrary: acc) simp_all

lemma digits_value_show: "digits_value 0 (show_nat n) = n"
proof (induction n rule: show_nat.induct)
  case (1 n)
  show ?case
  proof (cases "n < 10")
    case True
    then show ?thesis by (subst show_nat.simps) simp
  next
    case False
    with 1 have "digits_value 0 (show_nat (n div 10) @ [char_of (48 + n mod 10)]) = n div 10 * 10 + n mod 10"
      using digits_value_append [of "show_nat (n div 10)" 0] show_nat_digits by simp
    with False show ?thesis by (subst show_nat.simps) simp
  qed
qed

lemma atoi_show: "n < 2 ^ 31 \<Longrightarrow> atoi (show_nat n) = int n"
proof -
  assume n: "n < 2 ^ 31"
  obtain c cs where s: "show_nat n = c # cs" by (meson neq_Nil_conv show_nat_nonempty)
  have "(48 :: nat) \<le> of_char c" "(of_char c :: nat) \<le> 57" using show_nat_digits [of c n] s by simp_all
  then have "\<not> is_blank c" "c \<noteq> CHR ''-''" "c \<noteq> CHR ''+''" by (auto simp: is_blank_def)
  with digits_value_show [of n] n show ?thesis by (simp add: atoi_def s c_int_id)
qed

lemma param_text_bytes:
  assumes "\<forall>x \<in> set xs. x < 1000"
  shows "NUL \<notin> set (param_text xs)" "length (param_text xs) \<le> 4 * length xs"
proof -
  have nul: "NUL \<notin> set (show_nat n)" for n using show_nat_digits [of NUL n] by auto
  show "NUL \<notin> set (param_text xs)" by (induction xs rule: param_text.induct) (simp_all add: nul)
  have len: "length (show_nat x) \<le> 3" if "x < 1000" for x by (rule length_show_nat) (use that in simp_all)
  show "length (param_text xs) \<le> 4 * length xs"
    using assms len by (induction xs rule: param_text.induct) force+
qed

text \<open>The library finds the numbers that the discoverer publishes.\<close>

lemma numbers_published:
  assumes "empty cache" "length (numbers cache) = 3" "3 < length xs" "length xs \<le> 60" "\<forall>x \<in> set xs. x < 1000" "k < 3"
  obtains cache' where "get_syscal_number (Some (param_text xs)) cache (int k) = Some (int (xs ! k), cache')"
proof -
  obtain a b c d ys where xs: "xs = a # b # c # d # ys"
    using assms(3) by (metis Suc_less_eq length_Cons list.exhaust list.size(3) not_less_zero numeral_3_eq_3)
  have p: "param_text xs = show_nat a @ '','' @ show_nat b @ '','' @ show_nat c @ '','' @ param_text (d # ys)"
    by (simp add: xs)
  have "NUL \<notin> set (show_nat a @ show_nat b @ show_nat c @ param_text (d # ys))"
    "length (show_nat a @ show_nat b @ show_nat c @ param_text (d # ys)) < 253"
    using param_text_bytes [OF assms(5)] assms(4) by (auto simp: p)
  with numbers_from_file [OF assms(1) _ _ assms(2) show_nat_no_comma show_nat_no_comma show_nat_no_comma, of "int k" a b c "param_text (d # ys)"]
  have "get_syscal_number (Some (param_text xs)) cache (int k) =
      Some ([int a, int b, int c] ! k, \<lparr>numbers = [int a, int b, int c], empty = False\<rparr>)"
    using assms(5,6) by (simp add: p atoi_show xs)
  moreover have "[int a, int b, int c] ! k = int (xs ! k)" using assms(6) by (auto simp: xs less_Suc_eq numeral_3_eq_3)
  ultimately show thesis using that by simp
qed

section \<open>Properties\<close>

text \<open>
  C33: the library's path-based calls reach the monitor. For a password and a path (or new password)
  that have no blanks, line ends and NUL bytes, do not start like one of the keywords, are not
  \<open>(null)\<close> and have together fewer than 200 bytes, for a valid state or operation, when memory is
  available and the pseudo file opens, each call has exactly the effect of the administrator's
  operation on the same arguments, and returns 0 or -1 as that succeeds or fails.
\<close>

theorem path_calls_reach_monitor:
  assumes "mem_ok e" "sendable p" "sendable t" "is_rm_state s" "op = ADD_PATH \<or> op = REMOVE_PATH"
    and "length p + length t < 200"
  shows "path_change_state e st True (Some p) s = seen (do_change_state e st (Some p) s) \<and>
         path_change_path e st True (Some p) (Some t) op = seen (do_change_path e st (Some p) (Some (clean_buf t)) op) \<and>
         path_change_password e st True (Some p) (Some t) = seen (do_change_password e st (Some p) (Some t))"
proof (intro conjI)
  have pt: "plain p" "no_keyword p" "strcmp p ''(null)'' \<noteq> 0" "plain t" "no_keyword t" "strcmp t ''(null)'' \<noteq> 0"
    "t \<noteq> ''(null)''"
    using assms(2,3) not_null by (auto simp: sendable_def)
  have kw: "plain (get_str_state s)" "plain (get_str_path op)" "length (get_str_state s) \<le> 3" "length (get_str_path op) \<le> 5"
    using get_str_state_word [OF assms(4)] get_str_path_word [OF assms(5)]
    by (auto simp: opt_word_def get_str_state_def get_str_path_def)
  have len: "length (CHANGE_STATE @ join [PWD, p, OPT, get_str_state s]) < PATH_BUFFER"
    "length (CHANGE_PATH @ join [PWD, p, PTH, t, OPT, get_str_path op]) < PATH_BUFFER"
    "length (CHANGE_PASSWORD @ join [OLD_PWD, p, NEW_PWD, t]) < PATH_BUFFER"
    using assms(6) kw(3,4) by (simp_all add: join_def proc_keywords PATH_BUFFER_def)
  have "path_change_state e st True (Some p) s =
      seen (change_state_vfs_sys_wrapper e st [PWD, p, OPT, get_str_state s] 4)"
    unfolding path_change_state_def show_str_def option.case line_split
    using pt kw send_line_join(1) [OF assms(1) keywords_plain(1) _ _ len(1) dispatch(1)]
    by (simp add: keywords_plain numeral_eq_Suc)
  then show "path_change_state e st True (Some p) s = seen (do_change_state e st (Some p) s)"
    using state_loop_line [OF pt(1,2) get_str_state_word [OF assms(4)]] pt(3)
    by (simp add: change_state_vfs_sys_wrapper_def)
  have "path_change_path e st True (Some p) (Some t) op =
      seen (change_path_vfs_sys_wrapper e st [PWD, p, PTH, t, OPT, get_str_path op] 6)"
    unfolding path_change_path_def show_str_def option.case line_split
    using pt kw send_line_join(2) [OF assms(1) keywords_plain(2) _ _ len(2) dispatch(2)]
    by (simp add: keywords_plain numeral_eq_Suc)
  then show "path_change_path e st True (Some p) (Some t) op = seen (do_change_path e st (Some p) (Some (clean_buf t)) op)"
    using path_loop_line [OF pt(1,2,4,5,7) _ get_str_path_word [OF assms(5)]] pt(3) assms(1,6)
    by (simp add: change_path_vfs_sys_wrapper_def PATH_MAX_def)
  have "path_change_password e st True (Some p) (Some t) =
      seen (change_password_vfs_sys_wrapper e st [OLD_PWD, p, NEW_PWD, t] 4)"
    unfolding path_change_password_def show_str_def option.case line_split
    using pt send_line_join(3) [OF assms(1) keywords_plain(3) _ _ len(3) dispatch(3)]
    by (simp add: keywords_plain numeral_eq_Suc)
  then show "path_change_password e st True (Some p) (Some t) = seen (do_change_password e st (Some p) (Some t))"
    using password_loop_line [OF pt(1,2,4,5)] pt(3,6) by (simp add: change_password_vfs_sys_wrapper_def)
qed

theorem path_calls_reach_monitor_witness:
  "path_change_state sample_env sample_state True (Some ''RefMonitorPwd'') ON =
     seen (do_change_state sample_env sample_state (Some ''RefMonitorPwd'') ON) \<and>
   path_change_path sample_env sample_state True (Some ''RefMonitorPwd'') (Some ''/home/u/secret'') ADD_PATH =
     seen (do_change_path sample_env sample_state (Some ''RefMonitorPwd'') (Some (clean_buf ''/home/u/secret'')) ADD_PATH)"
  using path_calls_reach_monitor [of sample_env "''RefMonitorPwd''" "''/home/u/secret''" ON ADD_PATH sample_state]
    sample_env_ok(2)
  by (simp add: sendable_def plain_def no_keyword_def proc_keywords is_rm_state_def)

text \<open>
  Without the file of the discoverer the library falls back to number 1, the number of \<open>write\<close>: a
  call made while the cache is empty and the file cannot be opened becomes a different system
  call. With the file, the numbers are the first three of its comma-separated list.
\<close>

theorem syscall_numbers:
  assumes "empty cache" "0 \<le> k" "k \<le> 2" "length (numbers cache) = 3"
  shows "get_syscal_number None cache k = Some (1, cache) \<and>
    (\<forall>a b c rest. CHR '','' \<notin> set a \<and> CHR '','' \<notin> set b \<and> CHR '','' \<notin> set c \<and>
       a \<noteq> [] \<and> b \<noteq> [] \<and> c \<noteq> [] \<and> NUL \<notin> set (a @ b @ c @ rest) \<and> length (a @ b @ c @ rest) < 253 \<longrightarrow>
       (\<exists>cache'. get_syscal_number (Some (a @ '','' @ b @ '','' @ c @ '','' @ rest)) cache k =
          Some ([atoi a, atoi b, atoi c] ! nat k, cache') \<and> \<not> empty cache'))"
  using numbers_from_file [OF assms] assms(1-3) by (auto simp: get_syscal_number_def)

theorem syscall_numbers_witness:
  "get_syscal_number None \<lparr>numbers = [0, 0, 0], empty = True\<rparr> 2 = Some (1, \<lparr>numbers = [0, 0, 0], empty = True\<rparr>)"
  using syscall_numbers [of "\<lparr>numbers = [0, 0, 0], empty = True\<rparr>" 2] by simp

end
