(* ===== verification/Monitor_Module.thy ===== *)
theory Monitor_Module
  imports Ref_Hooks Discover User_Lib
begin

text \<open>
  \<^verbatim>\<open>reference-monitor/reference_monitor.c\<close>: loading and unloading of the module. Loading checks the
  parameters, hashes the password, installs the three system calls in free entries of the system
  call table, registers the four probes, creates the pseudo file and the work queue, and undoes
  what it did when a later step fails; unloading undoes everything. What the kernel answers during
  loading is the record \<open>init_env\<close>. \<open>None\<close> is a fault: a write to the protected table, or the use of
  an entry of the list after it was freed.
\<close>

section \<open>Definitions\<close>

definition HACKED_ENTRIES :: nat where "HACKED_ENTRIES = 3"

record rm_module =
  monitor :: rm_state
  processor :: cpu
  the_syscall_table :: "64 word list option"   \<comment> \<open>\<open>None\<close>: the parameter is 0\<close>
  the_ni_syscall :: "64 word"
  restore :: "nat list"
  proc_folder :: bool
  proc_file :: bool
  work_queue :: bool

record init_env =
  random_bytes :: "char list"
  behind_salt :: "char list"                    \<comment> \<open>memory behind the array \<open>salt\<close>\<close>
  new_sys_call_array :: "64 word list"          \<comment> \<open>addresses of the three system calls\<close>
  register_ret :: "nat \<Rightarrow> int"                 \<comment> \<open>result of \<open>register_kretprobe\<close> for each probe\<close>
  mkdir_ok :: bool
  create_ok :: bool
  queue_ok :: bool

definition target_functions :: "string list" where
  "target_functions = [''do_filp_open'', ''vfs_mkdir'', ''vfs_rmdir'', ''vfs_unlink'']"

text \<open>The loop that stores one address in each acquired entry, between the two changes of \<open>cr0\<close>.\<close>

definition write_table :: "64 word list \<Rightarrow> rm_module \<Rightarrow> rm_module option" where
  "write_table vs m =
     do {
       p \<leftarrow> the_syscall_table m;
       p' \<leftarrow> store_entries (unprotect_memory (processor m)) (zip (restore m) vs) p;
       Some (m\<lparr>processor := protect_memory (unprotect_memory (processor m)), the_syscall_table := Some p'\<rparr>)
     }"

definition unload_syscall :: "rm_module \<Rightarrow> rm_module option" where
  "unload_syscall m = write_table (replicate HACKED_ENTRIES (the_ni_syscall m)) m"

definition unregister_kretprobe :: "kretprobe \<Rightarrow> kretprobe" where
  "unregister_kretprobe k = k\<lparr>registered := False, enabled := False\<rparr>"

text \<open>
  The loop that registers and at once disables the probes: the last result, the probes that were
  registered, and whether all were; a failure unregisters the earlier ones.
\<close>

fun register_loop :: "(nat \<Rightarrow> int) \<Rightarrow> string list \<Rightarrow> kretprobe list \<Rightarrow> int \<Rightarrow> int \<times> kretprobe list \<times> bool" where
  "register_loop reg [] ps ret = (ret, ps, True)"
| "register_loop reg (f # fs) ps ret =
     (if reg (length ps) < 0 then (reg (length ps), map unregister_kretprobe ps, False)
      else register_loop reg fs (ps @ [\<lparr>symbol_name = f, registered = True, enabled = False\<rparr>]) (reg (length ps)))"

definition unregister_all :: "rm_module \<Rightarrow> rm_module" where
  "unregister_all m = m\<lparr>monitor := (monitor m)\<lparr>probes := map unregister_kretprobe (probes (monitor m))\<rparr>\<rparr>"

text \<open>From the installation of the system calls on.\<close>

definition install :: "init_env \<Rightarrow> rm_module \<Rightarrow> (int \<times> rm_module) option" where
  "install ie m =
     do {
       m1 \<leftarrow> write_table (new_sys_call_array ie) m;
       let (ret, ps, ok) = register_loop (register_ret ie) target_functions [] 0;
       let m2 = m1\<lparr>monitor := (monitor m1)\<lparr>probes := ps\<rparr>\<rparr>;
       (if \<not> ok then map_option (Pair ret) (unload_syscall m2)
        else if \<not> mkdir_ok ie then map_option (Pair (- ENOMEM)) (unload_syscall (unregister_all m2))
        else if \<not> create_ok ie then map_option (Pair (- ENOMEM)) (unload_syscall (unregister_all m2))
        else if \<not> queue_ok ie then map_option (Pair (- ENOMEM)) (unload_syscall (unregister_all m2))
        else Some (ret, m2\<lparr>proc_folder := True, proc_file := True, work_queue := True\<rparr>))
     }"

text \<open>
  Loading. \<open>generate_salt\<close> writes one byte behind the array \<open>salt\<close>: the array is 17 bytes long and followed by
  bytes up to the alignment of the next variable, so that the write is taken to hit padding
  (\<open>behind_salt\<close>) and no variable of the module. This is the one write outside an array that is not
  \<open>None\<close>.
\<close>

definition reference_monitor_init :: "kenv \<Rightarrow> init_env \<Rightarrow> rm_module \<Rightarrow> (int \<times> rm_module) option" where
  "reference_monitor_init e ie m =
     (let st = (monitor m)\<lparr>admin := 0\<rparr>; m = m\<lparr>monitor := st\<rparr> in
      if admin st = 0xFFFFFFFF then Some (- EINVAL, m)
      else if length (single_file_name st) < 4 then Some (- EINVAL, m)
      else if the_syscall_table m = None then Some (- EINVAL, m)
      else if length (cstr (pwd st)) \<le> 8 then Some (- EINVAL, m)
      else
        let (ret, mem) = generate_salt e (random_bytes ie) (Some (salt st @ behind_salt ie));
            st = st\<lparr>salt := take (SALT_LENGTH + 1) (the mem)\<rparr>; m = m\<lparr>monitor := st\<rparr>
        in if ret \<noteq> 0 then Some (ret, m)
           else do {
             h \<leftarrow> hash_plaintext e (Some (salt st)) (Some (pwd st)) (Some (cstr (pwd st)));
             (case h of
                Inl ret \<Rightarrow> Some (ret, m)
              | Inr ciphertext \<Rightarrow>
                  let m = m\<lparr>monitor := st\<lparr>pwd := ciphertext\<rparr>\<rparr> in
                  (case get_entries (int HACKED_ENTRIES) (the (the_syscall_table m)) of
                     Inl ret \<Rightarrow> Some (-1, m)
                   | Inr (ids, ni) \<Rightarrow> install ie (m\<lparr>restore := ids, the_ni_syscall := ni\<rparr>)))
           })"

text \<open>
  Unloading. The loop that frees the list reads the link of an entry it has just freed. Flushing the
  work queue runs the worker on the pending items.
\<close>

definition reference_monitor_cleanup ::
    "kenv \<Rightarrow> io_env \<Rightarrow> (char list \<Rightarrow> 'fs \<Rightarrow> (int \<times> 'fs) option) \<Rightarrow> rm_module \<Rightarrow> 'fs \<Rightarrow> (rm_module \<times> 'fs) option" where
  "reference_monitor_cleanup e io log_append m fs =
     (let m1 = (unregister_all m)\<lparr>proc_folder := False, proc_file := False\<rparr>;
          (ret, st) = restore_black_list_entries e (monitor m1)
      in if restrict_path_list st \<noteq> [] then None
         else do {
           m2 \<leftarrow> unload_syscall (m1\<lparr>monitor := st\<rparr>);
           fs' \<leftarrow> run_queue e io log_append (monitor m2) (deferred_queue (monitor m2)) fs;
           Some (m2\<lparr>monitor := (monitor m2)\<lparr>deferred_queue := []\<rparr>, work_queue := False\<rparr>, fs')
         })"

section \<open>The table\<close>

definition acquired :: "rm_module \<Rightarrow> 64 word list \<Rightarrow> bool" where
  "acquired m p = (256 \<le> length p \<and> distinct (restore m) \<and> length (restore m) = HACKED_ENTRIES \<and>
     (\<forall>k \<in> set (restore m). k < 256 \<and> p ! k = the_ni_syscall m))"

definition stored_in :: "64 word list \<Rightarrow> nat list \<Rightarrow> 64 word list \<Rightarrow> 64 word list" where
  "stored_in p is vs = fold (\<lambda>(i, v) q. q[i := v]) (zip is vs) p"

lemma acquired_bounds:
  assumes "acquired m p"
  shows "\<forall>k \<in> set (restore m). k < length p \<and> p ! k = the_ni_syscall m" "distinct (restore m)"
    "length (restore m) = HACKED_ENTRIES"
  using assms by (auto simp: acquired_def)

lemma write_table_eq:
  assumes "the_syscall_table m = Some p" "\<forall>k \<in> set (restore m). k < length p" "length vs = length (restore m)"
  shows "write_table vs m =
     Some (m\<lparr>processor := (processor m)\<lparr>cr0 := cr0_reg (processor m)\<rparr>,
             the_syscall_table := Some (stored_in p (restore m) vs)\<rparr>)"
  using assms store_entries_eq [OF unprotected, of "restore m" p vs]
  by (simp add: write_table_def stored_in_def)

lemma unload_undoes:
  assumes "acquired m p" "the_syscall_table m' = Some (stored_in p (restore m) vs)" "length vs = HACKED_ENTRIES"
    and "restore m' = restore m" "the_ni_syscall m' = the_ni_syscall m"
  shows "unload_syscall m' =
     Some (m'\<lparr>processor := (processor m')\<lparr>cr0 := cr0_reg (processor m')\<rparr>, the_syscall_table := Some p\<rparr>)"
proof -
  have "\<forall>k \<in> set (restore m'). k < length (stored_in p (restore m) vs)"
    using assms(1,4) by (auto simp: acquired_def stored_in_def)
  then have "unload_syscall m' = Some (m'\<lparr>processor := (processor m')\<lparr>cr0 := cr0_reg (processor m')\<rparr>,
      the_syscall_table := Some (stored_in (stored_in p (restore m) vs) (restore m) (replicate HACKED_ENTRIES (the_ni_syscall m)))\<rparr>)"
    using assms write_table_eq [of m' "stored_in p (restore m) vs"] by (simp add: unload_syscall_def acquired_def)
  moreover have "stored_in (stored_in p (restore m) vs) (restore m) (replicate HACKED_ENTRIES (the_ni_syscall m)) = p"
    unfolding stored_in_def using acquired_bounds [OF assms(1)] assms(3)
      fold_update_undo [of "restore m" p "the_ni_syscall m" vs] by simp
  ultimately show ?thesis by simp
qed

lemma register_loop_ok:
  "\<forall>k. reg k \<ge> 0 \<Longrightarrow> \<exists>ps' ret'. register_loop reg fs ps ret = (ret', ps', True) \<and>
     map symbol_name ps' = map symbol_name ps @ fs \<and> length ps' = length ps + length fs \<and>
     ((\<forall>q \<in> set ps. \<not> enabled q) \<longrightarrow> (\<forall>q \<in> set ps'. \<not> enabled q)) \<and>
     (0 \<le> ret \<longrightarrow> 0 \<le> ret')"
proof (induction fs arbitrary: ps ret)
  case (Cons f fs)
  have "0 \<le> reg (length ps)" using Cons.prems by blast
  with Cons.IH [OF Cons.prems, of "ps @ [\<lparr>symbol_name = f, registered = True, enabled = False\<rparr>]" "reg (length ps)"]
  show ?case by (auto simp: not_less)
qed simp

text \<open>Whether installation completes, and what it leaves in both cases.\<close>

definition install_ok :: "init_env \<Rightarrow> bool" where
  "install_ok ie = (snd (snd (register_loop (register_ret ie) target_functions [] 0)) \<and>
     mkdir_ok ie \<and> create_ok ie \<and> queue_ok ie)"

definition installed :: "init_env \<Rightarrow> 64 word list \<Rightarrow> rm_module \<Rightarrow> rm_module" where
  "installed ie p m =
     m\<lparr>processor := (processor m)\<lparr>cr0 := cr0_reg (processor m)\<rparr>,
       the_syscall_table := Some (stored_in p (restore m) (new_sys_call_array ie)),
       monitor := (monitor m)\<lparr>probes := fst (snd (register_loop (register_ret ie) target_functions [] 0))\<rparr>\<rparr>"

lemma installed_simps [simp]:
  "the_syscall_table (installed ie p m) = Some (stored_in p (restore m) (new_sys_call_array ie))"
  "restore (installed ie p m) = restore m" "the_ni_syscall (installed ie p m) = the_ni_syscall m"
  "cr0_reg (processor (installed ie p m)) = cr0_reg (processor m)"
  "work_queue (installed ie p m) = work_queue m"
  "monitor (installed ie p m) =
     (monitor m)\<lparr>probes := fst (snd (register_loop (register_ret ie) target_functions [] 0))\<rparr>"
  by (simp_all add: installed_def)

lemma unregister_all_simps [simp]:
  "the_syscall_table (unregister_all m) = the_syscall_table m" "restore (unregister_all m) = restore m"
  "the_ni_syscall (unregister_all m) = the_ni_syscall m" "processor (unregister_all m) = processor m"
  "work_queue (unregister_all m) = work_queue m"
  by (simp_all add: unregister_all_def)

lemma install_eq:
  assumes "acquired m p" "the_syscall_table m = Some p" "length (new_sys_call_array ie) = HACKED_ENTRIES"
  shows "install ie m =
     (let m2 = installed ie p m; (ret, ps, ok) = register_loop (register_ret ie) target_functions [] 0 in
      if \<not> ok then map_option (Pair ret) (unload_syscall m2)
      else if \<not> (mkdir_ok ie \<and> create_ok ie \<and> queue_ok ie) then map_option (Pair (- ENOMEM)) (unload_syscall (unregister_all m2))
      else Some (ret, m2\<lparr>proc_folder := True, proc_file := True, work_queue := True\<rparr>))"
proof -
  have bound: "\<forall>k \<in> set (restore m). k < length p" "length (new_sys_call_array ie) = length (restore m)"
    using assms(1,3) by (auto simp: acquired_def)
  show ?thesis
    by (cases "register_loop (register_ret ie) target_functions [] 0")
       (auto simp: install_def write_table_eq [OF assms(2) bound] installed_def Let_def)
qed

lemma install_fails:
  assumes "acquired m p" "the_syscall_table m = Some p" "length (new_sys_call_array ie) = HACKED_ENTRIES" "\<not> install_ok ie"
  shows "\<exists>ret m'. install ie m = Some (ret, m') \<and> cr0_reg (processor m') = cr0_reg (processor m) \<and>
     the_syscall_table m' = Some p \<and> work_queue m' = work_queue m"
proof -
  note u = unload_undoes [OF assms(1) _ assms(3)]
  have "unload_syscall (installed ie p m) = Some ((installed ie p m)
      \<lparr>processor := (processor (installed ie p m))\<lparr>cr0 := cr0_reg (processor (installed ie p m))\<rparr>, the_syscall_table := Some p\<rparr>)"
    by (rule u) simp_all
  moreover have "unload_syscall (unregister_all (installed ie p m)) = Some ((unregister_all (installed ie p m))
      \<lparr>processor := (processor (unregister_all (installed ie p m)))
         \<lparr>cr0 := cr0_reg (processor (unregister_all (installed ie p m)))\<rparr>, the_syscall_table := Some p\<rparr>)"
    by (rule u) simp_all
  ultimately show ?thesis
    using assms(4) install_eq [OF assms(1-3)]
    by (cases "register_loop (register_ret ie) target_functions [] 0") (auto simp: install_ok_def Let_def)
qed

lemma install_succeeds:
  assumes "acquired m p" "the_syscall_table m = Some p" "length (new_sys_call_array ie) = HACKED_ENTRIES" "install_ok ie"
  shows "install ie m = Some (fst (register_loop (register_ret ie) target_functions [] 0),
     (installed ie p m)\<lparr>proc_folder := True, proc_file := True, work_queue := True\<rparr>)"
  using assms(4) install_eq [OF assms(1-3)]
  by (cases "register_loop (register_ret ie) target_functions [] 0") (simp add: install_ok_def)

lemma acquired_entries:
  assumes "get_entries (int HACKED_ENTRIES) p = Inr (ids, ni)" "256 \<le> length p"
  shows "acquired (m\<lparr>restore := ids, the_ni_syscall := ni\<rparr>) p"
  using get_entries_Inr [OF assms(1)] assms(2) by (auto simp: acquired_def)

section \<open>Unloading\<close>

lemma cleanup_eq:
  assumes "restrict_path_list (monitor m) = []"
    and "restore_black_list_entries e (monitor (unregister_all m)) = (r, s)"
    and "unload_syscall ((unregister_all m)\<lparr>proc_folder := False, proc_file := False, monitor := s\<rparr>) = Some m2"
    and "run_queue e io log_append (monitor m2) (deferred_queue (monitor m2)) fs = Some fs'"
  shows "reference_monitor_cleanup e io log_append m fs =
     Some (m2\<lparr>monitor := (monitor m2)\<lparr>deferred_queue := []\<rparr>, work_queue := False\<rparr>, fs')"
proof -
  have "restrict_path_list s = []"
    using restore_frame(6) [OF assms(2)] assms(1) by (simp add: unregister_all_def)
  with assms(2-4) show ?thesis by (simp add: reference_monitor_cleanup_def)
qed

section \<open>Loading\<close>

text \<open>The monitor as loading leaves it before the installation.\<close>

definition hashed :: "kenv \<Rightarrow> init_env \<Rightarrow> rm_module \<Rightarrow> rm_state" where
  "hashed e ie m =
     (let sa = take (SALT_LENGTH + 1) ((take SALT_LENGTH (random_bytes ie) @
                 drop SALT_LENGTH (salt (monitor m) @ behind_salt ie))[SALT_LENGTH + 1 := NUL])
      in (monitor m)\<lparr>admin := 0, salt := sa, pwd := digest_string e sa (cstr (pwd (monitor m)))\<rparr>)"

definition parameters_ok :: "rm_module \<Rightarrow> bool" where
  "parameters_ok m = (4 \<le> length (single_file_name (monitor m)) \<and> 8 < length (cstr (pwd (monitor m))))"

lemma reference_monitor_init_eq:
  assumes "crypto_env e" "parameters_ok m" "the_syscall_table m = Some p"
    and "get_entries (int HACKED_ENTRIES) p = Inr (ids, ni)"
  shows "reference_monitor_init e ie m =
     install ie (m\<lparr>monitor := hashed e ie m, restore := ids, the_ni_syscall := ni\<rparr>)"
proof -
  have "\<not> length (cstr (pwd (monitor m))) \<le> 8" "\<not> length (single_file_name (monitor m)) < 4"
    using assms(2) by (simp_all add: parameters_ok_def)
  moreover have h: "hash_plaintext e (Some sa) (Some c) (Some (cstr b)) = Some (Inr (digest_string e sa (cstr b)))" for sa b c
    using assms(1) by (intro hash_plaintext_zeroed) (simp_all add: crypto_env_def)
  ultimately show ?thesis
    using assms(3,4) by (simp add: reference_monitor_init_def generate_salt_def Let_def h hashed_def)
qed

text \<open>A load that completes came through the installation.\<close>

lemma init_installs:
  assumes "reference_monitor_init e ie m = Some (ret, m')" "the_syscall_table m = Some p"
    and "the_syscall_table m' \<noteq> Some p \<or> cr0_reg (processor m') \<noteq> cr0_reg (processor m) \<or> work_queue m' \<noteq> work_queue m"
  obtains ids ni sa d where "get_entries (int HACKED_ENTRIES) p = Inr (ids, ni)"
    "install ie (m\<lparr>monitor := (monitor m)\<lparr>admin := 0, salt := sa, pwd := d\<rparr>, restore := ids, the_ni_syscall := ni\<rparr>) = Some (ret, m')"
  using assms
  by (auto simp: reference_monitor_init_def Let_def
      split: if_splits prod.split_asm sum.split_asm Option.bind_split_asm)

lemma register_loop_disabled:
  "register_loop reg fs ps ret = (ret', ps', True) \<Longrightarrow>
     length ps' = length ps + length fs \<and> (\<forall>q \<in> set ps'. q \<in> set ps \<or> \<not> enabled q)"
proof (induction fs arbitrary: ps ret)
  case (Cons f fs)
  then have "register_loop reg fs (ps @ [\<lparr>symbol_name = f, registered = True, enabled = False\<rparr>]) (reg (length ps)) = (ret', ps', True)"
    by (auto split: if_splits)
  from Cons.IH [OF this] show ?case by auto
qed simp

lemma load_wf:
  assumes "reference_monitor_init e ie m = Some (ret, m')" "work_queue m'" "\<not> work_queue m"
    and "the_syscall_table m = Some p" "256 \<le> length p" "length (new_sys_call_array ie) = HACKED_ENTRIES"
    and "current_state (monitor m) = word_of_int OFF" "restrict_path_list (monitor m) = []"
  shows "wf_rm (monitor m')" "restrict_path_list (monitor m') = []" "admin (monitor m') = 0"
    "deferred_queue (monitor m') = deferred_queue (monitor m)" "\<not> protecting (monitor m')"
proof -
  obtain ids ni sa d where g: "get_entries (int HACKED_ENTRIES) p = Inr (ids, ni)"
    and ins: "install ie (m\<lparr>monitor := (monitor m)\<lparr>admin := 0, salt := sa, pwd := d\<rparr>, restore := ids, the_ni_syscall := ni\<rparr>) = Some (ret, m')"
    using init_installs [OF assms(1,4)] assms(2,3) by metis
  let ?m = "m\<lparr>monitor := (monitor m)\<lparr>admin := 0, salt := sa, pwd := d\<rparr>, restore := ids, the_ni_syscall := ni\<rparr>"
  have acq: "acquired ?m p" using acquired_entries [OF g assms(5)] by simp
  have ok: "install_ok ie" using install_fails [OF acq _ assms(6)] ins assms(2-4) by auto
  obtain ret' ps where reg: "register_loop (register_ret ie) target_functions [] 0 = (ret', ps, True)"
    using ok by (cases "register_loop (register_ret ie) target_functions [] 0") (simp add: install_ok_def)
  have ps: "length ps = HOOKS_SIZE" "\<forall>q \<in> set ps. \<not> enabled q"
    using register_loop_disabled [OF reg] by (auto simp: target_functions_def HOOKS_SIZE_def)
  let ?st = "(monitor m)\<lparr>admin := 0, salt := sa, pwd := d, probes := ps\<rparr>"
  have m': "monitor m' = ?st"
    using install_succeeds [OF acq _ assms(6) ok] ins assms(4) reg by auto
  have "is_rm_state OFF \<and> current_state ?st = word_of_int OFF \<and> (\<forall>q \<in> set (probes ?st). enabled q = enabling OFF)"
    using ps(2) assms(7) by (simp add: is_rm_state_def enabling_def)
  then show "wf_rm (monitor m')" unfolding wf_rm_def m' using assms(8) ps(1) by (auto simp: wf_list_def)
  show "restrict_path_list (monitor m') = []" "admin (monitor m') = 0"
    "deferred_queue (monitor m') = deferred_queue (monitor m)" "\<not> protecting (monitor m')"
    using assms(7,8) by (simp_all add: m' protecting_def)
qed

text \<open>What a complete load makes of the password.\<close>

lemma load_hashes:
  assumes "crypto_env e" "parameters_ok m" "reference_monitor_init e ie m = Some (ret, m')" "work_queue m'" "\<not> work_queue m"
    and "the_syscall_table m = Some p" "256 \<le> length p" "length (new_sys_call_array ie) = HACKED_ENTRIES"
  shows "pwd (monitor m') = digest_string e (salt (monitor m')) (cstr (pwd (monitor m)))"
    "single_file_name (monitor m') = single_file_name (monitor m)"
    "current_state (monitor m') = current_state (monitor m)"
proof -
  obtain ids ni where g: "get_entries (int HACKED_ENTRIES) p = Inr (ids, ni)"
    using init_installs [OF assms(3,6)] assms(4,5) by metis
  let ?m = "m\<lparr>monitor := hashed e ie m, restore := ids, the_ni_syscall := ni\<rparr>"
  have ins: "install ie ?m = Some (ret, m')"
    using assms(3) reference_monitor_init_eq [OF assms(1,2,6) g] by simp
  have acq: "acquired ?m p" using acquired_entries [OF g assms(7)] .
  have "install_ok ie" using install_fails [OF acq _ assms(8)] ins assms(4-6) by auto
  then have "monitor m' = (hashed e ie m)\<lparr>probes := fst (snd (register_loop (register_ret ie) target_functions [] 0))\<rparr>"
    using install_succeeds [OF acq _ assms(8)] ins assms(6) by auto
  then show "pwd (monitor m') = digest_string e (salt (monitor m')) (cstr (pwd (monitor m)))"
    "single_file_name (monitor m') = single_file_name (monitor m)"
    "current_state (monitor m') = current_state (monitor m)"
    by (simp_all add: hashed_def Let_def)
qed

section \<open>A concrete module\<close>

definition sample_module :: rm_module where
  "sample_module =
     \<lparr>monitor = sample_state\<lparr>pwd := ''RefMonitorPwd'' @ replicate 116 NUL, current_state := 2, probes := []\<rparr>,
      processor = \<lparr>cr0_reg = 0x80050033, cr0 = 0\<rparr>, the_syscall_table = Some sample_table, the_ni_syscall = 0,
      restore = [], proc_folder = False, proc_file = False, work_queue = False\<rparr>"

definition sample_init :: init_env where
  "sample_init =
     \<lparr>random_bytes = ''0123456789abcdef'', behind_salt = [NUL], new_sys_call_array = [0x1000, 0x2000, 0x3000],
      register_ret = (\<lambda>_. 0), mkdir_ok = True, create_ok = True, queue_ok = True\<rparr>"

definition quiet_io :: io_env where
  "quiet_io = \<lparr>exe_open = (\<lambda>_. Inl (- ENOENT)), exe_read = (\<lambda>_. 0), log_open = (\<lambda>_. 0)\<rparr>"

lemma sample_entries:
  "get_entries (int HACKED_ENTRIES) sample_table = Inr (take 3 (filter (\<lambda>k. sample_table ! k = sample_ni) [0..<256]), sample_ni)"
  using get_entries_first [OF sample_table_ok(2) refl, of 3] sample_table_ok(3)
  by (simp add: HACKED_ENTRIES_def MAX_ACQUIRES_def)

lemma sample_module_ok:
  "crypto_env sample_env" "parameters_ok sample_module" "the_syscall_table sample_module = Some sample_table"
  "\<not> work_queue sample_module" "length (new_sys_call_array sample_init) = HACKED_ENTRIES"
  using sample_env_ok
  by (simp_all add: crypto_env_def parameters_ok_def sample_module_def sample_init_def HACKED_ENTRIES_def cstr_append)

lemma sample_acquired:
  "acquired (sample_module\<lparr>monitor := st, restore := take 3 (filter (\<lambda>k. sample_table ! k = sample_ni) [0..<256]),
     the_ni_syscall := sample_ni\<rparr>) sample_table"
  using acquired_entries [OF sample_entries, of "sample_module\<lparr>monitor := st\<rparr>"] sample_table_ok(1) by simp

lemma sample_register: "register_loop (\<lambda>_. 0) target_functions [] 0 = (0, map sample_probe target_functions, True)"
  by (simp add: target_functions_def sample_probe_def)

lemma sample_load_granted:
  obtains ret m' where "reference_monitor_init sample_env sample_init sample_module = Some (ret, m')" "work_queue m'"
    "restrict_path_list (monitor m') = []" "deferred_queue (monitor m') = []"
  using reference_monitor_init_eq [OF sample_module_ok(1-3) sample_entries, of sample_init]
    install_succeeds [OF sample_acquired _ sample_module_ok(5)] sample_module_ok(3) that
  by (simp add: install_ok_def sample_init_def sample_register hashed_def Let_def)
    (simp add: sample_module_def)

lemma sample_load_refused:
  obtains ret m' where "reference_monitor_init sample_env (sample_init\<lparr>queue_ok := False\<rparr>) sample_module = Some (ret, m')"
    "\<not> work_queue m'"
  using reference_monitor_init_eq [OF sample_module_ok(1-3) sample_entries, of "sample_init\<lparr>queue_ok := False\<rparr>"]
    install_fails [OF sample_acquired, of "hashed sample_env (sample_init\<lparr>queue_ok := False\<rparr>) sample_module" "sample_init\<lparr>queue_ok := False\<rparr>"]
    sample_module_ok(3-5) that
  by (auto simp: install_ok_def)

section \<open>Properties\<close>

text \<open>
  C28: a successful load. With the documented parameters, a table in which three entries can be
  acquired and a kernel that grants every request, loading succeeds; the monitor is in order and
  in state OFF with all four probes registered and disarmed, the password array holds the digest
  of the password that was passed, the three entries hold the three system calls, every other
  entry is as before, and the write protection of the processor is as before.
\<close>

theorem load_installs_monitor:
  assumes "crypto_env e" "parameters_ok m" "the_syscall_table m = Some p" "256 \<le> length p"
    and "get_entries (int HACKED_ENTRIES) p = Inr (ids, ni)" "length (new_sys_call_array ie) = HACKED_ENTRIES"
    and "\<forall>k. register_ret ie k \<ge> 0" "mkdir_ok ie" "create_ok ie" "queue_ok ie"
    and "current_state (monitor m) = word_of_int OFF" "restrict_path_list (monitor m) = []"
  shows "\<exists>ret m' p'. reference_monitor_init e ie m = Some (ret, m') \<and> 0 \<le> ret \<and>
    wf_rm (monitor m') \<and> \<not> protecting (monitor m') \<and>
    stored e (monitor m') (cstr (pwd (monitor m))) \<and> admin (monitor m') = 0 \<and>
    map symbol_name (probes (monitor m')) = target_functions \<and>
    the_syscall_table m' = Some p' \<and> length p' = length p \<and>
    (\<forall>k < HACKED_ENTRIES. p' ! (ids ! k) = new_sys_call_array ie ! k) \<and>
    (\<forall>k. k \<notin> set ids \<longrightarrow> p' ! k = p ! k) \<and>
    cr0_reg (processor m') = cr0_reg (processor m)"
proof -
  let ?m = "m\<lparr>monitor := hashed e ie m, restore := ids, the_ni_syscall := ni\<rparr>"
  have acq: "acquired ?m p" using acquired_entries [OF assms(5,4)] .
  obtain ps ret where reg: "register_loop (register_ret ie) target_functions [] 0 = (ret, ps, True)"
    and ps: "map symbol_name ps = target_functions" "length ps = 4" "\<forall>q \<in> set ps. \<not> enabled q" "0 \<le> ret"
    using register_loop_ok [OF assms(7), of target_functions "[]" 0] by (auto simp: target_functions_def)
  have "install_ok ie" using assms(8-10) reg by (simp add: install_ok_def)
  then have init: "reference_monitor_init e ie m =
      Some (ret, (installed ie p ?m)\<lparr>proc_folder := True, proc_file := True, work_queue := True\<rparr>)"
    using reference_monitor_init_eq [OF assms(1-3,5)] install_succeeds [OF acq _ assms(6)] assms(3) reg by simp
  let ?st = "(hashed e ie m)\<lparr>probes := ps\<rparr>"
  have state: "current_state ?st = word_of_int OFF" "restrict_path_list ?st = []" "admin ?st = 0"
    "stored e ?st (cstr (pwd (monitor m)))"
    using assms(11,12) by (simp_all add: hashed_def Let_def stored_def)
  have "is_rm_state OFF \<and> current_state ?st = word_of_int OFF \<and> (\<forall>q \<in> set (probes ?st). enabled q = enabling OFF)"
    using ps(3) state(1) by (simp add: is_rm_state_def enabling_def)
  then have wf: "wf_rm ?st" unfolding wf_rm_def using state(2) ps(2) by (auto simp: wf_list_def HOOKS_SIZE_def)
  have ids: "distinct ids" "length ids = HACKED_ENTRIES" "\<forall>k \<in> set ids. k < length p"
    using acq by (auto simp: acquired_def)
  have "\<forall>k < HACKED_ENTRIES. stored_in p ids (new_sys_call_array ie) ! (ids ! k) = new_sys_call_array ie ! k"
    using fold_update_at [OF ids(1) _ ids(3)] ids(2) assms(6) by (simp add: stored_in_def)
  moreover have "\<forall>k. k \<notin> set ids \<longrightarrow> stored_in p ids (new_sys_call_array ie) ! k = p ! k"
    by (auto simp: stored_in_def intro!: fold_update_other dest: set_zip_leftD)
  moreover have "length (stored_in p ids (new_sys_call_array ie)) = length p" by (simp add: stored_in_def)
  ultimately show ?thesis
    using init reg wf state ps by (simp add: protecting_def)
qed

theorem load_installs_monitor_witness:
  "\<exists>ret m' p'. reference_monitor_init sample_env sample_init sample_module = Some (ret, m') \<and> 0 \<le> ret \<and>
    stored sample_env (monitor m') ''RefMonitorPwd'' \<and> the_syscall_table m' = Some p' \<and> p' ! 134 = 0x1000"
proof -
  let ?f = "filter (\<lambda>k. sample_table ! k = sample_ni) [0..<256]"
  obtain ret m' p' where init: "reference_monitor_init sample_env sample_init sample_module = Some (ret, m')" "0 \<le> ret"
    and st: "stored sample_env (monitor m') (cstr (pwd (monitor sample_module)))" and tbl: "the_syscall_table m' = Some p'"
    and nth: "\<forall>k < HACKED_ENTRIES. p' ! (take 3 ?f ! k) = new_sys_call_array sample_init ! k"
    using load_installs_monitor [OF sample_module_ok(1-3) _ sample_entries sample_module_ok(5)] sample_table_ok(1)
    by (fastforce simp: sample_init_def sample_module_def)
  have "p' ! (take 3 ?f ! 0) = 0x1000" using nth by (simp add: HACKED_ENTRIES_def sample_init_def)
  moreover have "take 3 ?f ! 0 = 134" using sample_table_first sample_table_ok(3) by simp
  moreover have "cstr (pwd (monitor sample_module)) = ''RefMonitorPwd''"
    by (simp add: sample_module_def cstr_append)
  ultimately show ?thesis using init st tbl by auto
qed

text \<open>
  C30: a failed load leaves no trace in the system call table. Whatever request the kernel refuses, if
  loading does not complete, the table and the write protection are what they were.
\<close>

theorem failed_load_restores_table:
  assumes "the_syscall_table m = Some p" "256 \<le> length p" "\<not> work_queue m"
    and "length (new_sys_call_array ie) = HACKED_ENTRIES"
    and "reference_monitor_init e ie m = Some (ret, m')" "\<not> work_queue m'"
  shows "the_syscall_table m' = Some p \<and> cr0_reg (processor m') = cr0_reg (processor m)"
proof (cases "the_syscall_table m' = Some p \<and> cr0_reg (processor m') = cr0_reg (processor m)")
  case False
  then obtain ids ni st where g: "get_entries (int HACKED_ENTRIES) p = Inr (ids, ni)"
    and ins: "install ie (m\<lparr>monitor := st, restore := ids, the_ni_syscall := ni\<rparr>) = Some (ret, m')"
    using init_installs [OF assms(5,1)] by metis
  let ?m = "m\<lparr>monitor := st, restore := ids, the_ni_syscall := ni\<rparr>"
  have acq: "acquired ?m p" using acquired_entries [OF g assms(2)] .
  show ?thesis
  proof (cases "install_ok ie")
    case True
    then show ?thesis using install_succeeds [OF acq _ assms(4)] ins assms(1,6) by auto
  next
    case False
    from install_fails [OF acq _ assms(4) False] show ?thesis using ins assms(1) by auto
  qed
qed

theorem failed_load_restores_table_witness:
  "\<exists>ret m'. reference_monitor_init sample_env (sample_init\<lparr>queue_ok := False\<rparr>) sample_module = Some (ret, m') \<and>
     the_syscall_table m' = Some sample_table"
proof -
  let ?ie = "sample_init\<lparr>queue_ok := False\<rparr>"
  obtain ret m' where init: "reference_monitor_init sample_env ?ie sample_module = Some (ret, m')" "\<not> work_queue m'"
    by (rule sample_load_refused)
  moreover have "the_syscall_table m' = Some sample_table"
    using failed_load_restores_table [OF sample_module_ok(3) _ sample_module_ok(4) _ init] sample_module_ok(5) sample_table_ok(1)
    by simp
  ultimately show ?thesis by blast
qed

text \<open>
  C29: unloading undoes loading. After a complete load, whatever the monitor did since, if no path is
  restricted and the worker gets through the pending attempts, unloading completes: the system
  call table is what it was before the load, every probe is unregistered, the pseudo file and the
  work queue are gone and no attempt is left pending.
\<close>

theorem unload_restores_table:
  assumes "the_syscall_table m = Some p" "256 \<le> length p" "\<not> work_queue m"
    and "length (new_sys_call_array ie) = HACKED_ENTRIES"
    and "reference_monitor_init e ie m = Some (ret, m')" "work_queue m'"
    and "the_syscall_table m'' = the_syscall_table m'" "restore m'' = restore m'" "the_ni_syscall m'' = the_ni_syscall m'"
    and "restrict_path_list (monitor m'') = []"
    and "\<forall>st. run_queue e' io log_append st (deferred_queue (monitor m'')) fs \<noteq> None"
  shows "\<exists>m3 fs'. reference_monitor_cleanup e' io log_append m'' fs = Some (m3, fs') \<and>
    the_syscall_table m3 = Some p \<and> (\<forall>q \<in> set (probes (monitor m3)). \<not> registered q) \<and>
    \<not> proc_folder m3 \<and> \<not> proc_file m3 \<and> \<not> work_queue m3 \<and> deferred_queue (monitor m3) = []"
proof -
  obtain ids ni st where g: "get_entries (int HACKED_ENTRIES) p = Inr (ids, ni)"
    and ins: "install ie (m\<lparr>monitor := st, restore := ids, the_ni_syscall := ni\<rparr>) = Some (ret, m')"
    using init_installs [OF assms(5,1)] assms(3,6) by metis
  let ?m = "m\<lparr>monitor := st, restore := ids, the_ni_syscall := ni\<rparr>"
  have acq: "acquired ?m p" using acquired_entries [OF g assms(2)] .
  have "install_ok ie" using install_fails [OF acq _ assms(4)] ins assms(1,3,6) by auto
  then have m': "the_syscall_table m'' = Some (stored_in p ids (new_sys_call_array ie))" "restore m'' = ids" "the_ni_syscall m'' = ni"
    using install_succeeds [OF acq _ assms(4)] ins assms(1,7-9) by auto
  obtain r s where rs: "restore_black_list_entries e' (monitor (unregister_all m'')) = (r, s)" by fastforce
  have pr: "probes s = map unregister_kretprobe (probes (monitor m''))" "deferred_queue s = deferred_queue (monitor m'')"
    using restore_frame(7,8) [OF rs] by (simp_all add: unregister_all_def)
  let ?m1 = "(unregister_all m'')\<lparr>proc_folder := False, proc_file := False, monitor := s\<rparr>"
  let ?m2 = "?m1\<lparr>processor := (processor ?m1)\<lparr>cr0 := cr0_reg (processor ?m1)\<rparr>, the_syscall_table := Some p\<rparr>"
  have un: "unload_syscall ?m1 = Some ?m2"
    using m' by (intro unload_undoes [OF acq _ assms(4)]) simp_all
  obtain fs' where "run_queue e' io log_append s (deferred_queue s) fs = Some fs'"
    using assms(11) pr(2) by auto
  then have "reference_monitor_cleanup e' io log_append m'' fs =
      Some (?m2\<lparr>monitor := s\<lparr>deferred_queue := []\<rparr>, work_queue := False\<rparr>, fs')"
    using cleanup_eq [OF assms(10) rs un, of io log_append fs fs'] by simp
  then show ?thesis using pr(1) by (simp add: unregister_kretprobe_def)
qed

theorem unload_restores_table_witness:
  "\<exists>ret m' m3 fs'. reference_monitor_init sample_env sample_init sample_module = Some (ret, m') \<and>
     reference_monitor_cleanup sample_env quiet_io (\<lambda>_ fs. Some (0, fs)) m' () = Some (m3, fs') \<and>
     the_syscall_table m3 = Some sample_table"
proof -
  obtain ret m' where init: "reference_monitor_init sample_env sample_init sample_module = Some (ret, m')" "work_queue m'"
    and m': "restrict_path_list (monitor m') = []" "deferred_queue (monitor m') = []"
    by (rule sample_load_granted)
  show ?thesis
    using unload_restores_table [OF sample_module_ok(3) _ sample_module_ok(4,5) init refl refl refl m'(1),
        of sample_env quiet_io "\<lambda>_ fs. Some (0, fs)" "()"] m'(2) sample_table_ok(1) init
    by auto
qed

text \<open>
  Unloading with restricted paths uses freed memory: the loop that frees the entries of the list
  reads the link of the entry it has just freed.
\<close>

theorem unload_uses_freed_entry:
  assumes "restrict_path_list (monitor m) \<noteq> []"
  shows "reference_monitor_cleanup e io log_append m fs = None"
proof -
  obtain r s where rs: "restore_black_list_entries e (monitor (unregister_all m)) = (r, s)" by fastforce
  have "restrict_path_list s = restrict_path_list (monitor m)"
    using restore_frame(6) [OF rs] by (simp add: unregister_all_def)
  with assms rs show ?thesis by (simp add: reference_monitor_cleanup_def)
qed

theorem unload_uses_freed_entry_witness:
  "reference_monitor_cleanup sample_env quiet_io (\<lambda>_ fs. Some (0, fs))
     (sample_module\<lparr>monitor := sample_state\<lparr>restrict_path_list := [sample_entry]\<rparr>\<rparr>) () = None"
  by (rule unload_uses_freed_entry) simp

text \<open>
  C31: the numbers the discoverer publishes reach the system calls, if \<open>sys_ni_syscall\<close> is the only address
  that occurs twice in the table (the module takes the first address that is repeated, whatever it
  is). When every page with a frame can be read, the discoverer is loaded and publishes its
  parameters, and the module is then loaded with the table it found, with good parameters, zeroed
  memory and no request refused, the first three published free entries are the entries the module
  fills, in the same order.
\<close>

theorem published_numbers_are_installed:
  assumes "\<forall>a. sys_vtpmo pt cr3 a \<noteq> NO_MAP \<longrightarrow> mem a \<noteq> None"
    and "usctm_init mem (sys_vtpmo pt cr3) = Some (Inr u)"
    and "\<forall>k < 256. elem mem (sys_call_table_address u) k = Some (p ! k)" "256 \<le> length p"
    and "only_repeats p (sys_ni_syscall_address u)" "the_syscall_table m = Some p"
    and "length (new_sys_call_array ie) = HACKED_ENTRIES" "crypto_env e" "parameters_ok m" "\<not> work_queue m"
    and "reference_monitor_init e ie m = Some (ret, m')" "work_queue m'" "k < HACKED_ENTRIES"
  shows "\<exists>p'. the_syscall_table m' = Some p' \<and> p' ! (free_entries_array u ! k) = new_sys_call_array ie ! k"
proof -
  let ?ni = "sys_ni_syscall_address u"
  define f where f: "f = filter (\<lambda>k. p ! k = ?ni) [0..<256]"
  have "backed mem (sys_vtpmo pt cr3)" using assms(1) by (simp add: backed_def)
  from vtpmo_pages.finder_spec [OF this] usctm_init_Inr(1) [OF assms(2,3)]
  have "hit mem (sys_call_table_address u) ?ni" by (auto simp: search_result_def)
  then have "3 \<le> length f" unfolding f by (rule hit_free_entries [OF assms(3)])
  have k: "k < 3" using assms(13) by (simp add: HACKED_ENTRIES_def)
  have g: "get_entries (int HACKED_ENTRIES) p = Inr (take 3 f, ?ni)"
    using get_entries_first [OF assms(5) f [symmetric], of 3] \<open>3 \<le> length f\<close> by (simp add: HACKED_ENTRIES_def MAX_ACQUIRES_def)
  let ?m = "m\<lparr>monitor := hashed e ie m, restore := take 3 f, the_ni_syscall := ?ni\<rparr>"
  have acq: "acquired ?m p" using acquired_entries [OF g assms(4)] .
  have ins: "install ie ?m = Some (ret, m')"
    using reference_monitor_init_eq [OF assms(8,9,6) g] assms(11) by simp
  then have "install_ok ie" using install_fails [OF acq _ assms(7)] assms(6,10,12) by auto
  then have tbl: "the_syscall_table m' = Some (stored_in p (take 3 f) (new_sys_call_array ie))"
    using install_succeeds [OF acq _ assms(7)] ins assms(6) by auto
  have "free_entries_array u ! k = take 3 f ! k"
    using k \<open>3 \<le> length f\<close> usctm_init_Inr(2) [OF assms(2,3), of k] by (simp add: f)
  moreover have "stored_in p (take 3 f) (new_sys_call_array ie) ! (take 3 f ! k) = new_sys_call_array ie ! k"
    using fold_update_at [of "take 3 f" "new_sys_call_array ie" p k] acquired_bounds [OF acq] assms(7) k \<open>3 \<le> length f\<close>
    by (simp add: stored_in_def HACKED_ENTRIES_def)
  ultimately show ?thesis using tbl by simp
qed

theorem published_numbers_are_installed_witness:
  "\<exists>u ret m' p'. usctm_init sample_mem (sys_vtpmo sample_pt 0) = Some (Inr u) \<and>
     reference_monitor_init sample_env sample_init sample_module = Some (ret, m') \<and>
     the_syscall_table m' = Some p' \<and> p' ! (free_entries_array u ! 2) = 0x3000"
proof -
  obtain u where u: "usctm_init sample_mem (sys_vtpmo sample_pt 0) = Some (Inr u)"
    "sys_call_table_address u = START" "sys_ni_syscall_address u = sample_ni"
    by (rule sample_discovery)
  obtain ret m' where init: "reference_monitor_init sample_env sample_init sample_module = Some (ret, m')" "work_queue m'"
    by (rule sample_load_granted)
  show ?thesis
    using published_numbers_are_installed [OF _ u(1) _ _ _ sample_module_ok(3,5,1,2,4) init, of 2] u
      sample_table_ok(1,2) sample_mem_table init
    by (auto simp: HACKED_ENTRIES_def sample_init_def sample_mem_def)
qed

end
