(* ===== verification/Runs.thy ===== *)
theory Runs
  imports RM_Prelude
begin

text \<open>
  Runs of a labelled step relation, and how a property of runs follows from one of steps. Used for
  the loaded module (\<open>Monitor_Machine\<close>) and for threads inside the operations of the administrator
  (\<open>Monitor_Threads\<close> and \<open>No_Lock\<close>).
\<close>

section \<open>Runs\<close>

inductive run :: "('s \<Rightarrow> 'l \<Rightarrow> 's \<Rightarrow> bool) \<Rightarrow> 's \<Rightarrow> 'l list \<Rightarrow> 's \<Rightarrow> bool" for R where
  run_Nil: "run R s [] s"
| run_Cons: "R s l s' \<Longrightarrow> run R s' ls s'' \<Longrightarrow> run R s (l # ls) s''"

inductive_simps run_Nil_iff [simp]: "run R s [] s'"
inductive_simps run_Cons_iff: "run R s (l # ls) s''"

lemma run_append: "run R s ls s' \<Longrightarrow> run R s' ls' s'' \<Longrightarrow> run R s (ls @ ls') s''"
  by (induction rule: run.induct) (auto simp: run_Cons_iff)

lemma run_single: "R s l s' \<Longrightarrow> run R s [l] s'"
  by (simp add: run_Cons_iff)

lemma run_append_iff: "run R s (ls @ ls') s'' \<longleftrightarrow> (\<exists>s'. run R s ls s' \<and> run R s' ls' s'')"
  by (induction ls arbitrary: s) (auto simp: run_Cons_iff)

text \<open>A state that the run has been through.\<close>

definition once :: "('s \<Rightarrow> 'l \<Rightarrow> 's \<Rightarrow> bool) \<Rightarrow> 's \<Rightarrow> 'l list \<Rightarrow> 's \<Rightarrow> ('s \<Rightarrow> bool) \<Rightarrow> bool" where
  "once R s ls s' P = (\<exists>ls1 ls2 t. ls = ls1 @ ls2 \<and> run R s ls1 t \<and> run R t ls2 s' \<and> P t)"

lemma once_now: "run R s ls s' \<Longrightarrow> P s' \<Longrightarrow> once R s ls s' P"
  unfolding once_def by (intro exI [of _ ls] exI [of _ "[]"] exI [of _ s']) simp

lemma once_later:
  assumes "once R s ls s' P" "R s' l s''"
  shows "once R s (ls @ [l]) s'' P"
proof -
  obtain ls1 ls2 t where "ls = ls1 @ ls2" "run R s ls1 t" "run R t ls2 s'" "P t" using assms(1) by (auto simp: once_def)
  moreover have "run R t (ls2 @ [l]) s''" using calculation(3) assms(2) by (auto simp: run_append_iff run_Cons_iff)
  ultimately show ?thesis
    unfolding once_def by (intro exI [of _ ls1] exI [of _ "ls2 @ [l]"] exI [of _ t]) simp
qed

section \<open>Properties of runs from properties of steps\<close>

locale stepwise =
  fixes R :: "'s \<Rightarrow> 'l \<Rightarrow> 's \<Rightarrow> bool"
    and allowed :: "'l \<Rightarrow> bool"
    and inv :: "'s \<Rightarrow> bool"
    and rel :: "'s \<Rightarrow> 's \<Rightarrow> bool"
  assumes step_inv: "inv s \<Longrightarrow> allowed l \<Longrightarrow> R s l s' \<Longrightarrow> inv s'"
    and step_rel: "inv s \<Longrightarrow> allowed l \<Longrightarrow> R s l s' \<Longrightarrow> rel s s'"
    and rel_refl: "rel s s"
    and rel_trans: "rel s s' \<Longrightarrow> rel s' s'' \<Longrightarrow> rel s s''"
begin

lemma run_inv_rel: "run R s ls s' \<Longrightarrow> inv s \<Longrightarrow> \<forall>l \<in> set ls. allowed l \<Longrightarrow> inv s' \<and> rel s s'"
proof (induction rule: run.induct)
  case (run_Cons s l s' ls s'')
  then have "inv s'" "rel s s'" using step_inv step_rel by auto
  with run_Cons show ?case using rel_trans by auto
qed (simp add: rel_refl)

end

section \<open>Threads\<close>

text \<open>
  A pool of threads over a shared memory: each has its environment and its place in the code, and
  \<open>adv i e p s\<close> is the next step of thread \<open>i\<close> at \<open>p\<close>, or \<open>None\<close> while it cannot go on.
\<close>

record ('e, 'p, 's) pool =
  mem :: 's
  thr :: "('e \<times> 'p) list"

inductive interleave ::
    "(nat \<Rightarrow> 'e \<Rightarrow> 'p \<Rightarrow> 's \<Rightarrow> ('p \<times> 's) option) \<Rightarrow> ('e, 'p, 's) pool \<Rightarrow> nat \<Rightarrow> ('e, 'p, 's) pool \<Rightarrow> bool"
  for adv where
  interleaveI: "i < length (thr c) \<Longrightarrow> thr c ! i = (e, p) \<Longrightarrow> adv i e p (mem c) = Some (p', s) \<Longrightarrow>
     interleave adv c i (c\<lparr>mem := s, thr := (thr c)[i := (e, p')]\<rparr>)"

text \<open>The steps of one thread while no other moves.\<close>

inductive goes :: "('p \<Rightarrow> 's \<Rightarrow> ('p \<times> 's) option) \<Rightarrow> 'p \<times> 's \<Rightarrow> 'p \<times> 's \<Rightarrow> bool" for f where
  goes_refl: "goes f x x"
| goes_step: "f (fst x) (snd x) = Some y \<Longrightarrow> goes f y z \<Longrightarrow> goes f x z"

lemma goes_trans: "goes f x y \<Longrightarrow> goes f y z \<Longrightarrow> goes f x z"
  by (induction rule: goes.induct) (auto intro: goes_step)

lemma goes_one: "f p s = Some y \<Longrightarrow> goes f (p, s) y"
  by (auto intro: goes_step goes_refl)

lemma goes_two: "f p s = Some (p', s') \<Longrightarrow> f p' s' = Some y \<Longrightarrow> goes f (p, s) y"
  by (rule goes_trans [OF goes_one goes_one])

lemma goes_interleave:
  "goes (adv i e) x y \<Longrightarrow> i < length (thr c) \<Longrightarrow> thr c ! i = (e, fst x) \<Longrightarrow> mem c = snd x \<Longrightarrow>
     \<exists>n. run (interleave adv) c (replicate n i) (c\<lparr>mem := snd y, thr := (thr c)[i := (e, fst y)]\<rparr>)"
proof (induction arbitrary: c rule: goes.induct)
  case (goes_refl x)
  then have "c\<lparr>mem := snd x, thr := (thr c)[i := (e, fst x)]\<rparr> = c"
    by (metis list_update_id pool.surjective pool.update_convs(1,2) old.unit.exhaust)
  then show ?case by (intro exI [of _ 0]) simp
next
  case (goes_step x y z)
  let ?c = "c\<lparr>mem := snd y, thr := (thr c)[i := (e, fst y)]\<rparr>"
  have "interleave adv c i ?c" using goes_step.hyps(1) goes_step.prems by (intro interleaveI [of i c e "fst x"]) simp_all
  moreover obtain n where "run (interleave adv) ?c (replicate n i) (?c\<lparr>mem := snd z, thr := (thr ?c)[i := (e, fst z)]\<rparr>)"
    using goes_step.IH [of ?c] goes_step.prems by auto
  ultimately have "run (interleave adv) c (replicate (Suc n) i) (?c\<lparr>mem := snd z, thr := (thr ?c)[i := (e, fst z)]\<rparr>)"
    by (simp add: run_Cons)
  then show ?case by (intro exI [of _ "Suc n"]) simp
qed

lemma run_map:
  assumes "\<And>s l s'. R s l s' \<Longrightarrow> R' s (f l) s'"
  shows "run R s ls s' \<Longrightarrow> run R' s (map f ls) s'"
  by (induction rule: run.induct) (auto intro: run.intros assms)

lemma fold_update_all: "fold (\<lambda>k ys. ys[k := f (ys ! k)]) [0..<n] xs = map f (take n xs) @ drop n xs"
proof (induction n)
  case (Suc n)
  show ?case
  proof (cases "n < length xs")
    case True
    then have "drop n xs = xs ! n # drop (Suc n) xs" by (simp add: Cons_nth_drop_Suc)
    with True Suc show ?thesis by (simp add: take_Suc_conv_app_nth nth_append list_update_append)
  qed (simp add: Suc list_update_beyond)
qed simp

end
