(* ===== verification/Monitor_Machine.thy ===== *)
theory Monitor_Machine
  imports Monitor_Log Monitor_Module Runs
begin

text \<open>
  The loaded monitor as a machine. Its state is the monitor and the mounted log; its steps are the
  entries into the module, each a complete call taken as one transition (\<open>Monitor_Threads\<close> has the administrator's
  operations in the steps between their locks and is the place for calls that overlap): the three system calls, a write to the pseudo file, the four probed kernel functions, one item of the
  worker, and a write of any other program to the log file. A thread steps with the kernel
  environment of its own call. A run is a sequence of such calls of all threads, the worker and
  the writers in any order.
\<close>

section \<open>Definitions\<close>

record system =
  rm :: rm_state
  disk :: sfs
  max_file_size :: nat

datatype call =
    C_change_state "char list option" int
  | C_change_paths "char list option" "char list option" int
  | C_change_password "char list option" "char list option"
  | C_proc_write "char list" nat
  | C_open filename "32 word"
  | C_mkdir "dentry_ptr option"
  | C_rmdir "dentry_ptr option"
  | C_unlink "dentry_ptr option"

text \<open>\<open>orig\<close> is the result of the probed function itself.\<close>

fun run_call :: "(bool \<Rightarrow> inode_table \<Rightarrow> int) \<Rightarrow> kenv \<Rightarrow> call \<Rightarrow> rm_state \<Rightarrow> (int \<times> rm_state) option" where
  "run_call orig e (C_change_state p s) st = sys_change_state e st p s"
| "run_call orig e (C_change_paths p f op) st = sys_change_paths e st p f op"
| "run_call orig e (C_change_password p q) st = sys_change_password e st p q"
| "run_call orig e (C_proc_write u len) st = syscall_proc_write e st u len"
| "run_call orig e (C_open f fl) st = hooked_open e st f fl orig"
| "run_call orig e (C_mkdir d) st = hooked_mkdir e st d orig"
| "run_call orig e (C_rmdir d) st = hooked_rmdir e st d orig"
| "run_call orig e (C_unlink d) st = hooked_unlink e st d orig"

datatype label = Thread kenv call int | Worker | Writer "char list"

text \<open>Process ids are 32-bit integers; a single write is shorter than \<open>2 ^ 61\<close> bytes.\<close>

definition ids_ok :: "kenv \<Rightarrow> bool" where
  "ids_ok e = (\<bar>tgid e\<bar> < 2 ^ 31 \<and> \<bar>pid e\<bar> < 2 ^ 31)"

inductive step :: "system \<Rightarrow> label \<Rightarrow> system \<Rightarrow> bool" where
  thread: "ids_ok e \<Longrightarrow> run_call orig e c (rm s) = Some (r, st') \<Longrightarrow> step s (Thread e c r) (s\<lparr>rm := st'\<rparr>)"
| worker: "deferred_queue (rm s) = w # ws \<Longrightarrow>
     defer_bottom_half e io (kernel_write dev (max_file_size s)) (rm s) w (disk s) = Some fs' \<Longrightarrow>
     step s Worker (s\<lparr>rm := (rm s)\<lparr>deferred_queue := ws\<rparr>, disk := fs'\<rparr>)"
| writer: "length d \<le> 2 ^ 61 \<Longrightarrow> kernel_write dev (max_file_size s) d (disk s) = Some (r, fs') \<Longrightarrow>
     step s (Writer d) (s\<lparr>disk := fs'\<rparr>)"

inductive_cases step_ThreadE: "step s (Thread e c r) s'"
inductive_cases step_WorkerE: "step s Worker s'"
inductive_cases step_WriterE: "step s (Writer d) s'"

section \<open>What a call may change\<close>

definition performed :: "kenv \<Rightarrow> rm_state \<Rightarrow> rm_state \<Rightarrow> bool" where
  "performed e st st' = (st' = st \<or> (\<exists>q r. perform e q st = Some (r, st')))"

lemma performed_refl [simp]: "performed e st st"
  by (simp add: performed_def)

lemma performedI:
  "do_change_state e st pw s = Some (r, st') \<Longrightarrow> performed e st st'"
  "do_change_path e st pw pb op = Some (r, st') \<Longrightarrow> performed e st st'"
  "do_change_password e st old new = Some (r, st') \<Longrightarrow> performed e st st'"
  unfolding performed_def by (metis perform.simps)+

lemma sys_calls_performed:
  "sys_change_state e st p s = Some (r, st') \<Longrightarrow> performed e st st'"
  "sys_change_paths e st p f op = Some (r, st') \<Longrightarrow> performed e st st'"
  "sys_change_password e st p q = Some (r, st') \<Longrightarrow> performed e st st'"
  unfolding sys_change_state_def sys_change_paths_def sys_change_password_def
  by (auto simp: Let_def split: if_splits prod.split_asm dest: performedI)

lemma wrappers_performed:
  "change_state_vfs_sys_wrapper e st a n = Some (r, st') \<Longrightarrow> performed e st st'"
  "change_path_vfs_sys_wrapper e st a n = Some (r, st') \<Longrightarrow> performed e st st'"
  "change_password_vfs_sys_wrapper e st a n = Some (r, st') \<Longrightarrow> performed e st st'"
  unfolding change_state_vfs_sys_wrapper_def change_path_vfs_sys_wrapper_def change_password_vfs_sys_wrapper_def
  by (auto split: if_splits option.split_asm sum.split_asm prod.split_asm Option.bind_split_asm
      dest: performedI)

lemma syscall_proc_write_performed:
  assumes "syscall_proc_write e st u len = Some (r, st')"
  shows "performed e st st'"
  using assms unfolding syscall_proc_write_def
  by (auto simp: Let_def bind_eq_Some_conv split: if_splits prod.split_asm dest: wrappers_performed)

text \<open>A call is a request of the administrator's interface or has the effect of a hook.\<close>

lemma run_call_effect:
  assumes "run_call orig e c st = Some (r, st')"
  shows "performed e st st' \<or> hook_effect e st st'"
  using assms by (cases c) (auto dest: sys_calls_performed syscall_proc_write_performed hooked_effects)

text \<open>A request leaves the queue alone, and without the administrator's id everything.\<close>

lemma do_change_queue:
  "do_change_state e st pw s = Some (r, st') \<Longrightarrow> deferred_queue st' = deferred_queue st"
  "do_change_path e st pw p op = Some (r, st') \<Longrightarrow> deferred_queue st' = deferred_queue st"
  "do_change_password e st old new = Some (r, st') \<Longrightarrow> deferred_queue st' = deferred_queue st"
proof -
  show "do_change_state e st pw s = Some (r, st') \<Longrightarrow> deferred_queue st' = deferred_queue st"
    by (auto simp: do_change_state_def bind_eq_Some_conv Let_def rm_frame split: if_splits)
  show "do_change_path e st pw p op = Some (r, st') \<Longrightarrow> deferred_queue st' = deferred_queue st"
    by (cases "st' = st") (auto simp: rm_frame elim!: do_change_path_Some)
  show "do_change_password e st old new = Some (r, st') \<Longrightarrow> deferred_queue st' = deferred_queue st"
    by (auto simp: do_change_password_def split: if_splits option.split_asm sum.split_asm Option.bind_split_asm)
qed

lemma perform_queue: "perform e q st = Some (r, st') \<Longrightarrow> deferred_queue st' = deferred_queue st"
  by (cases q) (auto dest: do_change_queue)

lemma perform_denied: "perform e q st = Some (r, st') \<Longrightarrow> euid e \<noteq> admin st \<Longrightarrow> st' = st"
  using requests.denied [of e st q] by (simp add: is_admin_def)

lemma performed_frame:
  assumes "performed e st st'"
  shows "deferred_queue st' = deferred_queue st" "wf_rm st \<Longrightarrow> wf_rm st'" "euid e \<noteq> admin st \<Longrightarrow> st' = st"
  using assms perform_queue perform_wf perform_denied by (auto simp: performed_def)

section \<open>Invariants of the machine\<close>

definition system_ok :: "system \<Rightarrow> bool" where
  "system_ok s = (wf_rm (rm s) \<and> (\<forall>w \<in> set (deferred_queue (rm s)). wf_work w) \<and> wf_sfs (disk s))"

text \<open>What only the administrator may change.\<close>

definition config ::
    "rm_state \<Rightarrow> cbuf \<times> cbuf \<times> 32 word \<times> 64 word \<times> string \<times> rcu_restrict list \<times> kretprobe list" where
  "config st = (pwd st, salt st, admin st, current_state st, single_file_name st, restrict_path_list st, probes st)"

definition unprivileged :: "32 word \<Rightarrow> label \<Rightarrow> bool" where
  "unprivileged a l = (case l of Thread e c r \<Rightarrow> euid e \<noteq> a | Worker \<Rightarrow> True | Writer d \<Rightarrow> True)"

lemma own_record_wf: "ids_ok e \<Longrightarrow> own_record e w \<Longrightarrow> wf_work w"
  by (simp add: ids_ok_def own_record_def wf_work_def)

lemma thread_queue:
  assumes "run_call orig e c st = Some (r, st')"
  shows "\<exists>q. deferred_queue st' = deferred_queue st @ q \<and> (\<forall>w \<in> set q. own_record e w)"
  using run_call_effect [OF assms]
proof
  assume "performed e st st'"
  then show ?thesis using performed_frame(1) by force
qed (auto simp: hook_effect_def)

lemma thread_wf: "run_call orig e c st = Some (r, st') \<Longrightarrow> wf_rm st \<Longrightarrow> wf_rm st'"
  using run_call_effect performed_frame(2) hook_effect_wf by blast

lemma thread_config:
  assumes "run_call orig e c st = Some (r, st')" "euid e \<noteq> admin st"
  shows "config st' = config st"
  using run_call_effect [OF assms(1)]
proof
  assume "performed e st st'"
  then show ?thesis using performed_frame(3) assms(2) by blast
next
  assume "hook_effect e st st'"
  from hook_effect_frame [OF this] show ?thesis by (simp add: config_def)
qed

lemma worker_log:
  assumes "wf_sfs fs" "wf_work w" "defer_bottom_half e io (kernel_write dev mx) st w fs = Some fs'"
  shows "wf_sfs fs'" "\<exists>ps. subseq (map fst ps) [w] \<and> content fs' = content fs @ concat (map (\<lambda>(w, h). log_line w h) ps)"
  using sfs_log.run_queue_log [of fs "[w]" e io dev mx st fs'] assms by auto

lemma wf_rm_queue: "wf_rm (st\<lparr>deferred_queue := q\<rparr>) = wf_rm st"
proof -
  have "wf_list (st\<lparr>deferred_queue := q\<rparr>) = wf_list st" by (rule wf_list_cong) simp_all
  then show ?thesis by (simp add: wf_rm_def)
qed

lemma step_ok:
  assumes "step s l s'" "system_ok s"
  shows "system_ok s' \<and> prefix (content (disk s)) (content (disk s'))"
  using assms(1)
proof cases
  case (thread e orig c r st')
  obtain q where "deferred_queue st' = deferred_queue (rm s) @ q" "\<forall>w \<in> set q. own_record e w"
    using thread_queue [OF thread(4)] by blast
  then show ?thesis
    using assms(2) thread thread_wf [OF thread(4)] own_record_wf by (auto simp: system_ok_def)
next
  case (worker w ws e io dev fs')
  have ok: "wf_sfs (disk s)" "wf_work w" using assms(2) worker by (simp_all add: system_ok_def)
  then show ?thesis
    using assms(2) worker worker_log [OF ok worker(4)] by (auto simp: system_ok_def wf_rm_queue)
next
  case (writer d dev r fs')
  then show ?thesis
    using assms(2) sfs_log.append_invar [of "disk s" d] sfs_log.append_prefix [of "disk s" d]
    by (auto simp: system_ok_def)
qed

lemma step_config:
  assumes "step s l s'" "unprivileged (admin (rm s)) l"
  shows "config (rm s') = config (rm s)"
  using assms
  by (cases l) (auto elim!: step_ThreadE step_WorkerE step_WriterE simp: unprivileged_def thread_config, simp_all add: config_def)

interpretation machine: stepwise step "\<lambda>_. True" system_ok "\<lambda>s s'. prefix (content (disk s)) (content (disk s'))"
  by unfold_locales (use step_ok in \<open>auto intro: prefix_order.trans\<close>)

interpretation frozen: stepwise step "unprivileged a" "\<lambda>s. admin (rm s) = a" "\<lambda>s s'. config (rm s') = config (rm s)" for a
  by unfold_locales (use step_config in \<open>auto simp: config_def\<close>)

section \<open>The log of a run\<close>

text \<open>What is appended to the log: the line of an attempt with a digest, or the data of another writer.\<close>

type_synonym piece = "(work_data \<times> string) + char list"

definition piece_bytes :: "piece \<Rightarrow> char list" where
  "piece_bytes p = (case p of Inl (w, h) \<Rightarrow> log_line w h | Inr d \<Rightarrow> d)"

fun attempts :: "piece list \<Rightarrow> work_data list" where
  "attempts [] = []"
| "attempts (Inl (w, h) # ps) = w # attempts ps"
| "attempts (Inr d # ps) = attempts ps"

fun others :: "piece list \<Rightarrow> char list list" where
  "others [] = []"
| "others (Inl x # ps) = others ps"
| "others (Inr d # ps) = d # others ps"

fun written :: "label list \<Rightarrow> char list list" where
  "written [] = []"
| "written (Writer d # ls) = d # written ls"
| "written (l # ls) = written ls"

lemma attempts_append [simp]: "attempts (ps @ qs) = attempts ps @ attempts qs"
  by (induction ps rule: attempts.induct) simp_all

lemma others_append [simp]: "others (ps @ qs) = others ps @ others qs"
  by (induction ps rule: others.induct) simp_all

lemma written_append [simp]: "written (ls @ ls') = written ls @ written ls'"
  by (induction ls rule: written.induct) simp_all

lemma pieces_of_lines [simp]:
  "attempts (map Inl ps) = map fst ps" "others (map Inl ps) = []"
  "map piece_bytes (map Inl ps) = map (\<lambda>(w, h). log_line w h) ps"
  by (induction ps) (auto simp: piece_bytes_def)






lemma defer_bottom_half_cong:
  "salt st = salt st' \<Longrightarrow> single_file_name st = single_file_name st' \<Longrightarrow>
     defer_bottom_half e io la st w fs = defer_bottom_half e io la st' w fs"
  unfolding defer_bottom_half_def by (simp only:)

lemma run_queue_steps:
  "run_queue e io (kernel_write dev (max_file_size s)) st (deferred_queue (rm s)) (disk s) = Some fs' \<Longrightarrow>
   salt st = salt (rm s) \<Longrightarrow> single_file_name st = single_file_name (rm s) \<Longrightarrow>
     run step s (replicate (length (deferred_queue (rm s))) Worker)
       (s\<lparr>rm := (rm s)\<lparr>deferred_queue := []\<rparr>, disk := fs'\<rparr>)"
proof (induction "deferred_queue (rm s)" arbitrary: s)
  case Nil
  have "run_queue e io (kernel_write dev (max_file_size s)) st [] (disk s) = Some fs'"
    using Nil.prems(1) by (simp only: Nil.hyps)
  then have "disk s = fs'" by simp
  moreover have "(rm s)\<lparr>deferred_queue := []\<rparr> = rm s" using Nil.hyps by (cases "rm s") simp
  ultimately have "s\<lparr>rm := (rm s)\<lparr>deferred_queue := []\<rparr>, disk := fs'\<rparr> = s" by (cases s) simp
  then show ?case by (simp flip: Nil.hyps)
next
  case (Cons w ws)
  have same: "defer_bottom_half e io la (rm s) w fs = defer_bottom_half e io la st w fs"
    for la :: "char list \<Rightarrow> sfs \<Rightarrow> (int \<times> sfs) option" and fs
    by (rule defer_bottom_half_cong) (simp_all add: Cons.prems(2,3))
  from Cons.prems(1) obtain fs1 where fs1: "defer_bottom_half e io (kernel_write dev (max_file_size s)) (rm s) w (disk s) = Some fs1"
    "run_queue e io (kernel_write dev (max_file_size s)) st ws fs1 = Some fs'"
    by (auto simp: bind_eq_Some_conv same simp flip: Cons.hyps(2))
  let ?s1 = "s\<lparr>rm := (rm s)\<lparr>deferred_queue := ws\<rparr>, disk := fs1\<rparr>"
  have "step s Worker ?s1" by (rule worker [OF Cons.hyps(2) [symmetric] fs1(1)])
  moreover have "run step ?s1 (replicate (length ws) Worker) (?s1\<lparr>rm := (rm ?s1)\<lparr>deferred_queue := []\<rparr>, disk := fs'\<rparr>)"
    using Cons.hyps(1) [of ?s1] fs1(2) Cons.prems(2,3) by simp
  ultimately show ?case by (simp add: run_Cons_iff flip: Cons.hyps(2)) auto
qed

section \<open>A concrete machine\<close>

definition sample_system :: system where
  "sample_system = \<lparr>rm = sample_state, disk = sample_fs, max_file_size = 10000\<rparr>"

lemma sample_system_ok: "system_ok sample_system"
  using sample_fs_facts(1) sample_wf_rm by (simp add: system_ok_def sample_system_def)

definition sample_pending :: system where
  "sample_pending = sample_system\<lparr>rm := sample_state\<lparr>deferred_queue := [sample_work]\<rparr>\<rparr>"

lemma sample_pending_ok: "system_ok sample_pending"
  using sample_system_ok sample_work_facts(1)
  by (simp add: system_ok_def sample_pending_def sample_system_def wf_rm_queue)

definition sample_refused :: label where
  "sample_refused = Thread (sample_env\<lparr>euid := 1000\<rparr>) (C_change_state (Some ''RefMonitorPwd'') OFF) (- EPERM)"

lemma sample_refused_run: "run step sample_system [sample_refused] sample_system"
proof -
  have "step sample_system sample_refused (sample_system\<lparr>rm := sample_state\<rparr>)"
    unfolding sample_refused_def
    by (rule thread [where orig = "\<lambda>_ _. 0"])
      (simp_all add: ids_ok_def sample_system_def sys_change_state_def do_change_state_def Let_def split_def)
  moreover have "sample_system\<lparr>rm := sample_state\<rparr> = sample_system" by (simp add: sample_system_def)
  ultimately show ?thesis by (simp add: run_Cons_iff)
qed


section \<open>Properties\<close>

text \<open>
  C25: every state between complete calls is in order. From a freshly loaded module with a mounted log,
  after any sequence of system calls, lines written to the pseudo file, probed kernel functions,
  items of the worker and writes of others to the log, in any order of callers but each finished
  before the next begins, the monitor is well formed (one of the four states, the probes armed
  exactly in the protecting ones, no path listed twice, no forbidden path listed), every pending
  record fits its line, the file system is in order, and the log as it was at loading is a prefix of
  the log. Calls that overlap are the subject of \<open>Monitor_Threads\<close>: there \<open>locks_keep_order\<close> shows what
  remains of this, and \<open>concurrent_adds_duplicate\<close> that a path may then be listed twice.
\<close>

theorem reachable_states_in_order:
  assumes "reference_monitor_init e ie m = Some (ret, m')" "work_queue m'" "\<not> work_queue m"
    and "the_syscall_table m = Some p" "256 \<le> length p" "length (new_sys_call_array ie) = HACKED_ENTRIES"
    and "current_state (monitor m) = word_of_int OFF" "restrict_path_list (monitor m) = []"
    and "deferred_queue (monitor m) = []" "rm s = monitor m'" "wf_sfs (disk s)" "run step s ls s'"
  shows "wf_rm (rm s') \<and> (\<forall>w \<in> set (deferred_queue (rm s')). wf_work w) \<and> wf_sfs (disk s') \<and>
    prefix (content (disk s)) (content (disk s'))"
proof -
  have "system_ok s" using load_wf [OF assms(1-8)] assms(9-11) by (simp add: system_ok_def)
  with machine.run_inv_rel [OF assms(12)] show ?thesis by (simp add: system_ok_def)
qed

text \<open>
  C4: nobody but the administrator changes the configuration. If no thread of a run has the
  effective user id of the administrator, then whatever system calls, lines to the pseudo file and
  file operations the threads perform, password, salt, administrator, state, log file name, list
  of restricted paths and probes are at the end what they were at the start. The calls of a run
  are complete calls that leave no defined behaviour (\<open>proc_write_overflow\<close> shows one that does).
\<close>

theorem unprivileged_runs_keep_configuration:
  assumes "run step s ls s'" "\<forall>e c r. Thread e c r \<in> set ls \<longrightarrow> euid e \<noteq> admin (rm s)"
  shows "pwd (rm s') = pwd (rm s) \<and> salt (rm s') = salt (rm s) \<and> admin (rm s') = admin (rm s) \<and>
    current_state (rm s') = current_state (rm s) \<and> single_file_name (rm s') = single_file_name (rm s) \<and>
    restrict_path_list (rm s') = restrict_path_list (rm s) \<and> probes (rm s') = probes (rm s)"
proof -
  have "\<forall>l \<in> set ls. unprivileged (admin (rm s)) l"
    using assms(2) by (auto simp: unprivileged_def split: label.split)
  with frozen.run_inv_rel [OF assms(1)] show ?thesis by (simp add: config_def)
qed

theorem unprivileged_runs_keep_configuration_witness:
  "run step sample_system [sample_refused] sample_system \<and> current_state (rm sample_system) = 8"
  using unprivileged_runs_keep_configuration [OF sample_refused_run] sample_refused_run
  by (simp add: sample_system_def sample_refused_def)


text \<open>
  C27: pending attempts reach the log. Whenever the pending programs can be read, the log opens and
  the device has room for 434 bytes per attempt, the worker can run until nothing is pending,
  and then the log has gained exactly one line per pending attempt, in order; nothing else of the
  monitor changes.
\<close>

theorem pending_attempts_reach_log:
  assumes "system_ok s" "crypto_env e" "log_open io (single_file_name (rm s)) = 0"
    and "\<forall>w \<in> set (deferred_queue (rm s)). full_read io (path_name w) (files w)"
    and "434 * length (deferred_queue (rm s)) \<le> log_room (max_file_size s) (disk s)"
  shows "\<exists>s'. run step s (replicate (length (deferred_queue (rm s))) Worker) s' \<and>
    rm s' = (rm s)\<lparr>deferred_queue := []\<rparr> \<and>
    content (disk s') = content (disk s) @ concat (map
      (\<lambda>w. log_line w (hex_string (digest e (salt (rm s)) (cstr (files w))))) (deferred_queue (rm s)))"
proof -
  have "wf_sfs (disk s)" "\<forall>w \<in> set (deferred_queue (rm s)). wf_work w \<and> full_read io (path_name w) (files w)"
    using assms(1,4) by (simp_all add: system_ok_def)
  then obtain fs' where fs': "run_queue e io (kernel_write (\<lambda>_. True) (max_file_size s)) (rm s) (deferred_queue (rm s)) (disk s) = Some fs'"
    "content fs' = content (disk s) @ concat (map
      (\<lambda>w. log_line w (hex_string (digest e (salt (rm s)) (cstr (files w))))) (deferred_queue (rm s)))"
    using sfs_room.run_queue_complete [of e io "rm s" "disk s" "deferred_queue (rm s)" files] assms(2,3,5)
    by (auto simp: crypto_env_def)
  let ?s' = "s\<lparr>rm := (rm s)\<lparr>deferred_queue := []\<rparr>, disk := fs'\<rparr>"
  have "run step s (replicate (length (deferred_queue (rm s))) Worker) ?s'"
    by (rule run_queue_steps [OF fs'(1)]) simp_all
  then show ?thesis using fs'(2) by (intro exI [of _ ?s']) simp
qed

theorem pending_attempts_reach_log_witness:
  "\<exists>s'. run step sample_pending [Worker] s' \<and> deferred_queue (rm s') = [] \<and>
     content (disk s') = content sample_fs @
       log_line sample_work (hex_string (digest sample_env (''0123456789abcdef'' @ [NUL]) ''ELF''))"
  using pending_attempts_reach_log [OF sample_pending_ok sample_crypto(1), of sample_io "\<lambda>_. ''ELF''"]
    sample_work_facts(2) sample_fs_facts
  by (auto simp: sample_pending_def sample_system_def sample_io_def log_room_def)


text \<open>The administrator switches a freshly loaded monitor to ON.\<close>

definition sample_switch :: label where
  "sample_switch = Thread sample_env (C_change_state (Some (''RefMonitorPwd'' @ [NUL])) ON) 0"

lemma sample_switch_step:
  assumes "reference_monitor_init sample_env sample_init sample_module = Some (ret, m')" "work_queue m'" "rm s = monitor m'"
  shows "step s sample_switch (s\<lparr>rm := switch_state sample_env ON (monitor m')\<rparr>)"
proof -
  note hash = load_hashes [OF sample_module_ok(1,2) assms(1,2) sample_module_ok(4,3) _ sample_module_ok(5)]
  have "cstr (pwd (monitor sample_module)) = ''RefMonitorPwd''" by (simp add: sample_module_def cstr_append)
  then have "stored sample_env (monitor m') ''RefMonitorPwd''"
    using hash(1) sample_table_ok(1) by (simp add: stored_def)
  then have "check_pwd sample_env (monitor m') (Some ''RefMonitorPwd'') = Some 0"
    by (rule check_pwd_correct_pwd [OF sample_module_ok(1)]) simp
  moreover have "admin (monitor m') = 0"
    using load_wf(3) [OF assms(1,2) sample_module_ok(4,3) _ sample_module_ok(5)] sample_table_ok(1) by (simp add: sample_module_def)
  moreover have "current_state (monitor m') = 2"
    using hash(3) sample_table_ok(1) by (simp add: sample_module_def)
  ultimately have "do_change_state sample_env (monitor m') (Some ''RefMonitorPwd'') ON =
      Some (0, switch_state sample_env ON (monitor m'))"
    by (subst do_change_state_eq) (simp_all add: is_rm_state_def)
  then have "run_call (\<lambda>_ _. 0) sample_env (C_change_state (Some (''RefMonitorPwd'' @ [NUL])) ON) (rm s) =
      Some (0, switch_state sample_env ON (monitor m'))"
    using sys_change_state_passes_string [of "''RefMonitorPwd'' @ [NUL]" sample_env "monitor m'" ON] assms(3)
    by (simp add: MAX_FROM_USER_eq cstr_append)
  then show ?thesis
    unfolding sample_switch_def by (intro thread) (simp_all add: ids_ok_def)
qed

theorem reachable_states_in_order_witness:
  "\<exists>ret m' s'. reference_monitor_init sample_env sample_init sample_module = Some (ret, m') \<and>
     run step \<lparr>rm = monitor m', disk = sample_fs, max_file_size = 10000\<rparr> [sample_switch] s' \<and>
     current_state (rm s') = 1 \<and> wf_rm (rm s')"
proof -
  obtain ret m' where init: "reference_monitor_init sample_env sample_init sample_module = Some (ret, m')" "work_queue m'"
    by (rule sample_load_granted)
  let ?s = "\<lparr>rm = monitor m', disk = sample_fs, max_file_size = 10000\<rparr>"
  have "run step ?s [sample_switch] (?s\<lparr>rm := switch_state sample_env ON (monitor m')\<rparr>)"
    using sample_switch_step [OF init, of ?s] by (simp only: run_Cons_iff run_Nil_iff) auto
  moreover from this have "wf_rm (rm (?s\<lparr>rm := switch_state sample_env ON (monitor m')\<rparr>))"
    using reachable_states_in_order [OF init sample_module_ok(4,3) _ sample_module_ok(5), of ?s "[sample_switch]"
        "?s\<lparr>rm := switch_state sample_env ON (monitor m')\<rparr>"]
      sample_table_ok(1) sample_fs_facts(1)
    by (simp add: sample_module_def)
  ultimately show ?thesis using init by (intro exI conjI) (assumption | simp)+
qed

end
