(* ===== verification/Admin_Console.thy ===== *)
theory Admin_Console
  imports Monitor_Module
begin

text \<open>
  \<^verbatim>\<open>user/admin.c\<close>: the administrator's console. It reads commands from standard input, asks for the
  arguments and calls the library, whose plain calls (\<^verbatim>\<open>user/lib/ref_syscall.c\<close>) enter the kernel by
  the numbers the discoverer published. The state of a session is what is left of standard input,
  the array \<open>input\<close> of \<open>main\<close>, the numbers the library keeps, and the monitor. What is printed
  is left out, except for the state and the list of paths, which the console computes. \<open>None\<close> is a
  write outside an array.
\<close>

section \<open>Definitions\<close>

definition MAX_PASSWORD :: nat where "MAX_PASSWORD = 64"
definition MAX_COMMAND :: nat where "MAX_COMMAND = 32"

record console =
  stdin :: "char list"
  input :: string
  cache :: syscall_cache
  kernel :: rm_state
  clock :: nat                                   \<comment> \<open>system calls made so far\<close>

text \<open>
  What surrounds a session: the kernel environment of each of its system calls, the file of free
  entries, the entries the module filled, what any other system call does, and the contents of
  arrays before they are filled and of the memory behind them.
\<close>

record console_env =
  kern :: "nat \<Rightarrow> kenv"
  free_file :: "char list option"
  filled :: "nat list"
  other_syscall :: "int \<Rightarrow> rm_state \<Rightarrow> (int \<times> rm_state) option"
  junk :: "string \<Rightarrow> string"
  beyond :: "char list"

subsection \<open>The plain calls of the library\<close>

text \<open>\<open>syscall\<close> returns -1 when the kernel returned an error.\<close>

definition user_call ::
    "console_env \<Rightarrow> console \<Rightarrow> int \<Rightarrow> (kenv \<Rightarrow> rm_state \<Rightarrow> (int \<times> rm_state) option) \<Rightarrow> (int \<times> console) option" where
  "user_call E c k entry =
     do {
       (n, ca) \<leftarrow> get_syscal_number (free_file E) (cache c) k;
       (r, st) \<leftarrow> (if n = int (filled E ! nat k) then entry (kern E (clock c)) (kernel c)
                    else other_syscall E n (kernel c));
       Some (if r < 0 then -1 else r, c\<lparr>cache := ca, kernel := st, clock := clock c + 1\<rparr>)
     }"

definition change_state :: "console_env \<Rightarrow> console \<Rightarrow> string \<Rightarrow> int \<Rightarrow> (int \<times> console) option" where
  "change_state E c pw state =
     user_call E c 0 (\<lambda>e st. sys_change_state e st (Some (pw @ NUL # beyond E)) state)"

definition change_path :: "console_env \<Rightarrow> console \<Rightarrow> string \<Rightarrow> string \<Rightarrow> int \<Rightarrow> (int \<times> console) option" where
  "change_path E c pw path op =
     user_call E c 1 (\<lambda>e st. sys_change_paths e st (Some (pw @ NUL # beyond E)) (Some (path @ NUL # beyond E)) op)"

definition change_password :: "console_env \<Rightarrow> console \<Rightarrow> string \<Rightarrow> string \<Rightarrow> (int \<times> console) option" where
  "change_password E c old_pwd new_pwd =
     user_call E c 2 (\<lambda>e st. sys_change_password e st (Some (old_pwd @ NUL # beyond E)) (Some (new_pwd @ NUL # beyond E)))"

subsection \<open>Reading a line\<close>

fun take_line :: "nat \<Rightarrow> char list \<Rightarrow> char list" where
  "take_line 0 s = []"
| "take_line (Suc n) [] = []"
| "take_line (Suc n) (c # s) = (if c = CHR 0x0A then [c] else c # take_line n s)"

definition fgets :: "nat \<Rightarrow> char list \<Rightarrow> (char list \<times> char list) option" where
  "fgets sz s =
     (if s = [] then None else let l = take_line (sz - 1) s in Some (l, drop (length l) s))"

text \<open>\<open>read_line\<close>: at the end of input the buffer keeps what it held.\<close>

definition read_line :: "string \<Rightarrow> nat \<Rightarrow> char list \<Rightarrow> string \<times> char list" where
  "read_line buffer sz s =
     (case fgets sz s of
        None \<Rightarrow> (buffer, s)
      | Some (l, rest) \<Rightarrow>
          let b = cstr l
          in (if b \<noteq> [] \<and> last b = CHR 0x0A then butlast b else b, rest))"

definition tolower :: "char \<Rightarrow> char" where
  "tolower c = (if (65 :: nat) \<le> of_char c \<and> (of_char c :: nat) \<le> 90 then char_of (of_char c + 32 :: nat) else c)"

definition to_lowercase :: "string \<Rightarrow> string" where
  "to_lowercase str = map tolower str"

subsection \<open>Handlers\<close>

definition state_choice :: "string \<Rightarrow> int option" where
  "state_choice w =
     (if w = ''0'' \<or> w = ''on'' then Some ON
      else if w = ''1'' \<or> w = ''off'' then Some OFF
      else if w = ''2'' \<or> w = ''rec_on'' then Some REC_ON
      else if w = ''3'' \<or> w = ''rec_off'' then Some REC_OFF
      else None)"

definition handle_change_state :: "console_env \<Rightarrow> console \<Rightarrow> console option" where
  "handle_change_state E c =
     (let (password, s1) = read_line (junk E ''password'') MAX_PASSWORD (stdin c);
          (w, s2) = read_line (junk E ''input'') MAX_COMMAND s1;
          c' = c\<lparr>stdin := s2\<rparr>
      in case state_choice (to_lowercase w) of
           None \<Rightarrow> Some c'
         | Some state \<Rightarrow> map_option snd (change_state E c' password state))"

definition path_choice :: "string \<Rightarrow> int option" where
  "path_choice w =
     (if w = ''0'' \<or> w = ''addpath'' then Some ADD_PATH
      else if w = ''1'' \<or> w = ''rmpath'' then Some REMOVE_PATH
      else None)"

definition handle_change_path :: "console_env \<Rightarrow> console \<Rightarrow> console option" where
  "handle_change_path E c =
     (let (password, s1) = read_line (junk E ''password'') MAX_PASSWORD (stdin c);
          (w, s2) = read_line (junk E ''input'') MAX_COMMAND s1
      in case path_choice (to_lowercase w) of
           None \<Rightarrow> Some (c\<lparr>stdin := s2\<rparr>)
         | Some op \<Rightarrow>
             let (path, s3) = read_line (junk E ''path'') PATH_MAX s2
             in map_option snd (change_path E (c\<lparr>stdin := s3\<rparr>) password path op))"

definition handle_change_password :: "console_env \<Rightarrow> console \<Rightarrow> console option" where
  "handle_change_password E c =
     (let (old_password, s1) = read_line (junk E ''old_password'') MAX_PASSWORD (stdin c);
          (new_password, s2) = read_line (junk E ''new_password'') MAX_PASSWORD s1;
          (w, s3) = read_line (junk E ''input'') MAX_COMMAND s2;
          c' = c\<lparr>stdin := s3\<rparr>
      in if w \<noteq> [] \<and> tolower (hd w) = CHR ''y''
         then map_option snd (change_password E c' old_password new_password)
         else Some c')"

text \<open>
  \<open>print_actual_state\<close>: the number and name printed for the contents of the parameter file, of
  which 16 bytes are read; the last byte read is overwritten by the terminator.
\<close>

definition print_actual_state :: "char list \<Rightarrow> (int \<times> string) option" where
  "print_actual_state file =
     (let buff = take 16 file in
      if buff = [] then None
      else let the_state = atoi (cstr (butlast buff)) in Some (the_state, get_str_state the_state))"

text \<open>\<open>print_black_list\<close>: the bytes printed for the contents of the pseudo file.\<close>

function black_list_loop_out :: "char list \<Rightarrow> char list" where
  "black_list_loop_out s =
     (case fgets PATH_MAX s of None \<Rightarrow> [] | Some (l, rest) \<Rightarrow> cstr l @ black_list_loop_out rest)"
  by pat_completeness auto

lemma fgets_shorter: "2 \<le> sz \<Longrightarrow> fgets sz s = Some (l, rest) \<Longrightarrow> length rest < length s"
  by (cases s; cases "sz - 1") (auto simp: fgets_def Let_def split: if_splits)

lemma fgets_path_shorter: "fgets PATH_MAX s = Some (l, rest) \<Longrightarrow> length rest < length s"
  by (rule fgets_shorter [of PATH_MAX]) (simp_all add: PATH_MAX_def)

termination black_list_loop_out
  by (relation "measure length") (auto dest: fgets_path_shorter)

declare black_list_loop_out.simps [simp del]

subsection \<open>The main loop\<close>

text \<open>
  One round of the loop; the flag tells whether the console leaves it. The commands that only print
  (\<open>get_state\<close>, \<open>blacklist\<close>, \<open>help\<close> and anything else) leave the session as it is.
\<close>

definition admin_round :: "console_env \<Rightarrow> console \<Rightarrow> (bool \<times> console) option" where
  "admin_round E c =
     (let (b, s) = read_line (input c) MAX_COMMAND (stdin c);
          w = to_lowercase b;
          c' = c\<lparr>stdin := s, input := w\<rparr>
      in if w = ''quit'' then Some (True, c')
         else if w = ''0'' \<or> w = ''change_state'' then map_option (Pair False) (handle_change_state E c')
         else if w = ''1'' \<or> w = ''change_path'' then map_option (Pair False) (handle_change_path E c')
         else if w = ''2'' \<or> w = ''change_password'' then map_option (Pair False) (handle_change_password E c')
         else Some (False, c'))"

datatype session = Exited console | Running console | Crashed

text \<open>The loop, for at most \<open>n\<close> rounds.\<close>

primrec admin_loop :: "nat \<Rightarrow> console_env \<Rightarrow> console \<Rightarrow> session" where
  "admin_loop 0 E c = Running c"
| "admin_loop (Suc n) E c =
     (case admin_round E c of
        None \<Rightarrow> Crashed
      | Some (True, c') \<Rightarrow> Exited c'
      | Some (False, c') \<Rightarrow> admin_loop n E c')"

definition admin_main :: "nat \<Rightarrow> console_env \<Rightarrow> console \<Rightarrow> session" where
  "admin_main n E c = (if euid (kern E (clock c)) \<noteq> 0 then Exited c else admin_loop n E c)"

section \<open>Lines\<close>

definition typed :: "nat \<Rightarrow> string \<Rightarrow> bool" where
  "typed sz l = (CHR 0x0A \<notin> set l \<and> NUL \<notin> set l \<and> length l + 2 \<le> sz)"

lemma take_line_typed:
  "CHR 0x0A \<notin> set l \<Longrightarrow> length l < n \<Longrightarrow> take_line n (l @ CHR 0x0A # rest) = l @ [CHR 0x0A]"
proof (induction l arbitrary: n)
  case Nil
  then show ?case by (cases n) simp_all
next
  case (Cons c l)
  then show ?case by (cases n) auto
qed

lemma take_line_prefix: "take_line n s @ drop (length (take_line n s)) s = s"
  by (induction n s rule: take_line.induct) auto

lemma read_line_typed:
  assumes "typed sz l"
  shows "read_line b sz (l @ CHR 0x0A # rest) = (l, rest)"
proof -
  have "length l < sz - 1" using assms unfolding typed_def by linarith
  then have "fgets sz (l @ CHR 0x0A # rest) = Some (l @ [CHR 0x0A], rest)"
    using assms take_line_typed [of l "sz - 1" rest] by (simp add: fgets_def typed_def Let_def)
  moreover have "cstr (l @ [CHR 0x0A]) = l @ [CHR 0x0A]" using assms by (simp add: typed_def cstr_append)
  ultimately show ?thesis by (simp add: read_line_def)
qed

lemma read_line_eof [simp]: "read_line b sz [] = (b, [])"
  by (simp add: read_line_def fgets_def)

lemma tolower_idem [simp]: "tolower (tolower c) = tolower c"
proof (cases "(65 :: nat) \<le> of_char c \<and> (of_char c :: nat) \<le> 90")
  case True
  have "of_char (tolower c) = (of_char c + 32 :: nat)" using True by (simp add: tolower_def)
  with True show ?thesis by (simp add: tolower_def [of "tolower c"])
next
  case False
  then have "tolower c = c" by (auto simp: tolower_def)
  then show ?thesis by simp
qed

lemma to_lowercase_idem [simp]: "to_lowercase (to_lowercase w) = to_lowercase w"
  by (simp add: to_lowercase_def)

lemma to_lowercase_words [simp]:
  "to_lowercase ''quit'' = ''quit''" "to_lowercase ''change_state'' = ''change_state''"
  "to_lowercase ''change_password'' = ''change_password''"
  by (simp_all add: to_lowercase_def tolower_def)

section \<open>Sessions\<close>

lemma typed_bytes: "typed MAX_PASSWORD pw \<Longrightarrow> NUL \<in> set (take MAX_FROM_USER (pw @ NUL # r)) \<and> cstr (pw @ NUL # r) = pw"
  by (simp add: typed_def MAX_PASSWORD_def MAX_FROM_USER_eq cstr_append take_Cons')

lemma sys_change_password_passes_strings:
  assumes "NUL \<in> set (take MAX_FROM_USER m)" "NUL \<in> set (take MAX_FROM_USER m')"
  shows "sys_change_password e st (Some m) (Some m') = do_change_password e st (Some (cstr m)) (Some (cstr m'))"
proof -
  have "NUL \<in> set (snd (copy_from_user m MAX_FROM_USER))" "NUL \<in> set (snd (copy_from_user m' MAX_FROM_USER))"
    using assms by (simp_all add: copy_from_user_def)
  then show ?thesis
    using cstr_copy_from_user [OF assms(1)] cstr_copy_from_user [OF assms(2)]
    by (cases "copy_from_user m MAX_FROM_USER"; cases "copy_from_user m' MAX_FROM_USER")
       (simp add: sys_change_password_def user_bytes_def cstr_append_NUL)
qed

lemma quit_round:
  "stdin c = ''quit'' @ CHR 0x0A # rest \<Longrightarrow> admin_round E c = Some (True, c\<lparr>stdin := rest, input := ''quit''\<rparr>)"
  using read_line_typed [of MAX_COMMAND "''quit''" "input c" rest]
  by (simp add: admin_round_def typed_def MAX_COMMAND_def)

lemma change_state_round:
  assumes "stdin c = ''change_state'' @ CHR 0x0A # pw @ CHR 0x0A # w @ CHR 0x0A # rest"
    and "typed MAX_PASSWORD pw" "typed MAX_COMMAND w" "state_choice (to_lowercase w) = Some s"
    and "get_syscal_number (free_file E) (cache c) 0 = Some (int (filled E ! 0), ca)"
    and "do_change_state (kern E (clock c)) (kernel c) (Some pw) s = Some (r, st')"
  shows "admin_round E c = Some (False, c\<lparr>stdin := rest, input := ''change_state'', cache := ca, kernel := st', clock := clock c + 1\<rparr>)"
proof -
  have l: "read_line b MAX_COMMAND (stdin c) = (''change_state'', pw @ CHR 0x0A # w @ CHR 0x0A # rest)" for b
    unfolding assms(1) by (rule read_line_typed) (simp add: typed_def MAX_COMMAND_def)
  note b = typed_bytes [OF assms(2), of "beyond E"]
  have "sys_change_state (kern E (clock c)) (kernel c) (Some (pw @ NUL # beyond E)) s = Some (r, st')"
    using sys_change_state_passes_string [of "pw @ NUL # beyond E"] b assms(6) by simp
  then show ?thesis
    using l read_line_typed [OF assms(2)] read_line_typed [OF assms(3)] assms(4,5)
    by (simp add: admin_round_def handle_change_state_def change_state_def user_call_def)
qed

lemma change_password_round:
  assumes "stdin c = ''change_password'' @ CHR 0x0A # old @ CHR 0x0A # new @ CHR 0x0A # ''y'' @ CHR 0x0A # rest"
    and "typed MAX_PASSWORD old" "typed MAX_PASSWORD new"
    and "get_syscal_number (free_file E) (cache c) 2 = Some (int (filled E ! 2), ca)"
    and "do_change_password (kern E (clock c)) (kernel c) (Some old) (Some new) = Some (r, st')"
  shows "admin_round E c = Some (False, c\<lparr>stdin := rest, input := ''change_password'', cache := ca, kernel := st', clock := clock c + 1\<rparr>)"
proof -
  have l: "read_line b MAX_COMMAND (stdin c) =
      (''change_password'', old @ CHR 0x0A # new @ CHR 0x0A # ''y'' @ CHR 0x0A # rest)" for b
    unfolding assms(1) by (rule read_line_typed) (simp add: typed_def MAX_COMMAND_def)
  have y: "read_line b MAX_COMMAND (''y'' @ CHR 0x0A # rest) = (''y'', rest)" for b
    by (rule read_line_typed) (simp add: typed_def MAX_COMMAND_def)
  have "sys_change_password (kern E (clock c)) (kernel c) (Some (old @ NUL # beyond E)) (Some (new @ NUL # beyond E)) = Some (r, st')"
    using sys_change_password_passes_strings typed_bytes [OF assms(2), of "beyond E"] typed_bytes [OF assms(3), of "beyond E"] assms(5)
    by simp
  then show ?thesis
    using l y read_line_typed [OF assms(2)] read_line_typed [OF assms(3)] assms(4)
    by (simp add: admin_round_def handle_change_password_def change_password_def user_call_def tolower_def)
qed

text \<open>At the end of input a round repeats the command and leaves input and command as they are.\<close>

lemma user_call_session: "user_call E c k f = Some (r, c') \<Longrightarrow> stdin c' = stdin c \<and> input c' = input c"
  by (auto simp: user_call_def bind_eq_Some_conv)

lemma handlers_eof:
  assumes "stdin c = []"
  shows "handle_change_state E c = Some c' \<Longrightarrow> stdin c' = [] \<and> input c' = input c"
    "handle_change_path E c = Some c' \<Longrightarrow> stdin c' = [] \<and> input c' = input c"
    "handle_change_password E c = Some c' \<Longrightarrow> stdin c' = [] \<and> input c' = input c"
proof -
  show "handle_change_state E c = Some c' \<Longrightarrow> stdin c' = [] \<and> input c' = input c"
    using assms by (auto simp: handle_change_state_def change_state_def Let_def split: option.split_asm dest: user_call_session)
  show "handle_change_path E c = Some c' \<Longrightarrow> stdin c' = [] \<and> input c' = input c"
    using assms by (auto simp: handle_change_path_def change_path_def Let_def split: option.split_asm dest: user_call_session)
  show "handle_change_password E c = Some c' \<Longrightarrow> stdin c' = [] \<and> input c' = input c"
    using assms by (auto simp: handle_change_password_def change_password_def Let_def split: if_splits dest: user_call_session)
qed

lemma round_eof:
  assumes "stdin c = []" "to_lowercase (input c) \<noteq> ''quit''" "admin_round E c = Some (b, c')"
  shows "\<not> b \<and> stdin c' = [] \<and> to_lowercase (input c') \<noteq> ''quit''"
proof -
  define w where w: "w = to_lowercase (input c)"
  define c1 where c1: "c1 = c\<lparr>stdin := [], input := w\<rparr>"
  have c1_facts: "stdin c1 = []" "input c1 = w" "to_lowercase w \<noteq> ''quit''" "w \<noteq> ''quit''"
    using assms(2) by (simp_all add: c1 w)
  have "admin_round E c =
      (if w = ''0'' \<or> w = ''change_state'' then map_option (Pair False) (handle_change_state E c1)
       else if w = ''1'' \<or> w = ''change_path'' then map_option (Pair False) (handle_change_path E c1)
       else if w = ''2'' \<or> w = ''change_password'' then map_option (Pair False) (handle_change_password E c1)
       else Some (False, c1))"
    using assms(1,2) by (simp add: admin_round_def Let_def c1 w)
  from this [unfolded assms(3), symmetric] show ?thesis
    using c1_facts handlers_eof [of c1 E c'] by (auto split: if_split_asm)
qed

section \<open>What is shown\<close>

text \<open>The console shows every byte of the pseudo file, whatever the length of its lines.\<close>

lemma black_list_shows_all: "NUL \<notin> set s \<Longrightarrow> black_list_loop_out s = s"
proof (induction s rule: black_list_loop_out.induct)
  case (1 s)
  show ?case
  proof (cases "fgets PATH_MAX s")
    case None
    then show ?thesis by (simp add: black_list_loop_out.simps [of s] fgets_def Let_def split: if_splits)
  next
    case (Some x)
    obtain l rest where x: "x = (l, rest)" by (cases x)
    have s: "s = l @ rest"
      using Some x take_line_prefix [of "PATH_MAX - 1" s] by (auto simp: fgets_def Let_def split: if_splits)
    then have "NUL \<notin> set l" "NUL \<notin> set rest" using "1.prems" by auto
    moreover have "black_list_loop_out s = cstr l @ black_list_loop_out rest"
      using Some x by (simp add: black_list_loop_out.simps [of s])
    ultimately show ?thesis using x "1.IH" [OF Some] by (simp add: cstr_id flip: s)
  qed
qed

text \<open>The state shown is the state of the monitor, when the file holds its number and a line end.\<close>

lemma state_shown:
  "print_actual_state (''1'' @ [CHR 0x0A]) = Some (ON, ''ON'')"
  "print_actual_state (''2'' @ [CHR 0x0A]) = Some (OFF, ''OFF'')"
  "print_actual_state (''4'' @ [CHR 0x0A]) = Some (REC_ON, ''RON'')"
  "print_actual_state (''8'' @ [CHR 0x0A]) = Some (REC_OFF, ''ROF'')"
  by (simp_all add: print_actual_state_def Let_def atoi_def is_blank_def c_int_def get_str_state_def)

section \<open>Properties\<close>

text \<open>
  C34: a session reaches the monitor. The file of the discoverer lists fifteen entries of the table and
  the module has filled the first three of them, as \<open>published_numbers_are_installed\<close> shows, and the
  library has not read the file before. Then the session of a caller with effective user id 0 that
  types the command for a change of state, a password of at most 62 bytes, one of the eight words for
  a state in upper or lower case, and \<open>quit\<close>, ends, and the monitor is what \<open>do_change_state\<close> makes of it
  for exactly the typed password and the state of that word.
\<close>

theorem session_changes_state:
  assumes "euid (kern E (clock c)) = 0" "2 \<le> n" "typed MAX_PASSWORD pw" "typed MAX_COMMAND w"
    and "free_file E = Some (param_text xs)" "length xs = MAX_FREE" "\<forall>x \<in> set xs. x < 256" "filled E = take 3 xs"
    and "empty (cache c)" "length (numbers (cache c)) = 3"
    and "stdin c = ''change_state'' @ CHR 0x0A # pw @ CHR 0x0A # w @ CHR 0x0A # ''quit'' @ CHR 0x0A # rest"
    and "(to_lowercase w, s) \<in> {(''0'', ON), (''on'', ON), (''1'', OFF), (''off'', OFF),
           (''2'', REC_ON), (''rec_on'', REC_ON), (''3'', REC_OFF), (''rec_off'', REC_OFF)}"
    and "do_change_state (kern E (clock c)) (kernel c) (Some pw) s = Some (r, st')"
  shows "\<exists>c'. admin_main n E c = Exited c' \<and> kernel c' = st' \<and> stdin c' = rest"
proof -
  obtain m where n: "n = Suc (Suc m)" using assms(2) by (metis Suc_le_D Suc_le_mono numeral_2_eq_2)
  have "filled E ! 0 = xs ! 0" using assms(8) by simp
  moreover obtain ca where "get_syscal_number (free_file E) (cache c) 0 = Some (int (xs ! 0), ca)"
  proof -
    have "3 < length xs" "length xs \<le> 60" "(0 :: nat) < 3" using assms(6) by (simp_all add: MAX_FREE_def)
    moreover have "\<forall>x \<in> set xs. x < 1000" using assms(7) by fastforce
    ultimately obtain ca where "get_syscal_number (Some (param_text xs)) (cache c) (int 0) = Some (int (xs ! 0), ca)"
      using numbers_published [OF assms(9,10)] by metis
    with that show thesis using assms(5) by simp
  qed
  ultimately have ca: "get_syscal_number (free_file E) (cache c) 0 = Some (int (filled E ! 0), ca)" by simp
  have "state_choice (to_lowercase w) = Some s"
    using assms(12) unfolding state_choice_def by (elim insertE emptyE; simp)
  from change_state_round [OF assms(11,3,4) this ca assms(13)] show ?thesis
    using assms(1) quit_round [of _ rest E] by (simp add: admin_main_def n)
qed

text \<open>The same for a change of password.\<close>

lemma session_changes_password:
  assumes "euid (kern E (clock c)) = 0" "2 \<le> n" "typed MAX_PASSWORD old" "typed MAX_PASSWORD new"
    and "get_syscal_number (free_file E) (cache c) 2 = Some (int (filled E ! 2), ca)"
    and "stdin c = ''change_password'' @ CHR 0x0A # old @ CHR 0x0A # new @ CHR 0x0A # ''y'' @ CHR 0x0A # ''quit'' @ CHR 0x0A # rest"
    and "do_change_password (kern E (clock c)) (kernel c) (Some old) (Some new) = Some (r, st')"
  shows "\<exists>c'. admin_main n E c = Exited c' \<and> kernel c' = st' \<and> stdin c' = rest"
proof -
  obtain m where n: "n = Suc (Suc m)" using assms(2) by (metis Suc_le_D Suc_le_mono numeral_2_eq_2)
  from change_password_round [OF assms(6,3,4,5,7)] show ?thesis
    using assms(1) quit_round [of _ rest E] by (simp add: admin_main_def n)
qed

text \<open>
  The end of input does not end the console. Once standard input is exhausted and the last command
  was not \<open>quit\<close>, no number of rounds leaves the loop: the console repeats the last command.
\<close>

theorem console_spins_at_end_of_input:
  assumes "euid (kern E (clock c)) = 0" "stdin c = []" "to_lowercase (input c) \<noteq> ''quit''"
  shows "admin_main n E c \<noteq> Exited c'"
proof -
  have "admin_loop n E c \<noteq> Exited c'"
    using assms(2,3)
  proof (induction n arbitrary: c)
    case (Suc n)
    show ?case
    proof (cases "admin_round E c")
      case (Some x)
      obtain b c1 where x: "x = (b, c1)" by (cases x)
      from round_eof [OF Suc.prems] Some x have "\<not> b" "stdin c1 = []" "to_lowercase (input c1) \<noteq> ''quit''" by auto
      with Suc.IH Some x show ?thesis by simp
    qed simp
  qed simp
  then show ?thesis using assms(1) by (simp add: admin_main_def)
qed

text \<open>A console on a machine where the module is loaded.\<close>

definition sample_console_env :: console_env where
  "sample_console_env =
     \<lparr>kern = (\<lambda>_. sample_env), free_file = Some (param_text ([134, 174, 182, 183, 214, 215, 236] @ replicate 8 0)), filled = [134, 174, 182],
      other_syscall = (\<lambda>_ st. Some (-38, st)), junk = (\<lambda>_. []), beyond = []\<rparr>"

definition sample_console :: "char list \<Rightarrow> console" where
  "sample_console s = \<lparr>stdin = s, input = [], cache = \<lparr>numbers = [0, 0, 0], empty = True\<rparr>,
     kernel = sample_state, clock = 0\<rparr>"

lemma sample_switch_on:
  "\<exists>st'. do_change_state sample_env sample_state (Some ''RefMonitorPwd'') ON = Some (0, st')"
proof -
  have "check_pwd sample_env sample_state (Some ''RefMonitorPwd'') = Some 0"
    by (rule check_pwd_correct_pwd [OF sample_crypto]) simp
  then show ?thesis by (simp add: do_change_state_eq is_rm_state_def)
qed

theorem session_changes_state_witness:
  "\<exists>c' st'. admin_main 2 sample_console_env (sample_console (''change_state'' @ CHR 0x0A # ''RefMonitorPwd'' @ CHR 0x0A #
       ''on'' @ CHR 0x0A # ''quit'' @ CHR 0x0A # [])) = Exited c' \<and> kernel c' = st' \<and>
     do_change_state sample_env sample_state (Some ''RefMonitorPwd'') ON = Some (0, st')"
proof -
  let ?c = "sample_console (''change_state'' @ CHR 0x0A # ''RefMonitorPwd'' @ CHR 0x0A # ''on'' @ CHR 0x0A # ''quit'' @ CHR 0x0A # [])"
  have kw: "kern sample_console_env (clock ?c) = sample_env" "kernel ?c = sample_state"
    by (simp_all add: sample_console_env_def sample_console_def)
  obtain st' where st': "do_change_state sample_env sample_state (Some ''RefMonitorPwd'') ON = Some (0, st')"
    using sample_switch_on by blast
  have t: "typed MAX_PASSWORD ''RefMonitorPwd''" "typed MAX_COMMAND ''on''" "to_lowercase ''on'' = ''on''"
    by (simp_all add: typed_def MAX_PASSWORD_def MAX_COMMAND_def to_lowercase_def tolower_def)
  let ?xs = "[134, 174, 182, 183, 214, 215, 236] @ replicate 8 (0 :: nat)"
  have f: "free_file sample_console_env = Some (param_text ?xs)" "filled sample_console_env = take 3 ?xs"
    "length ?xs = MAX_FREE" "\<forall>x \<in> set ?xs. x < 256" "empty (cache ?c)" "length (numbers (cache ?c)) = 3"
    by (simp_all add: sample_console_env_def sample_console_def MAX_FREE_def)
  have "do_change_state (kern sample_console_env (clock ?c)) (kernel ?c) (Some ''RefMonitorPwd'') ON = Some (0, st')"
    using st' by (simp only: kw)
  moreover have "euid (kern sample_console_env (clock ?c)) = 0" by (simp only: kw sample_env_simps)
  moreover have "stdin ?c = ''change_state'' @ CHR 0x0A # ''RefMonitorPwd'' @ CHR 0x0A # ''on'' @ CHR 0x0A # ''quit'' @ CHR 0x0A # []"
    by (simp only: sample_console_def console.select_convs)
  ultimately have "\<exists>c'. admin_main 2 sample_console_env ?c = Exited c' \<and> kernel c' = st' \<and> stdin c' = []"
    by (intro session_changes_state [OF _ order.refl t(1,2) f(1,3,4,2,5,6)]) (simp_all add: t(3))
  with st' show ?thesis by blast
qed

theorem console_spins_at_end_of_input_witness:
  "\<forall>c'. admin_main 1000 sample_console_env (sample_console []) \<noteq> Exited c'"
  using console_spins_at_end_of_input [of sample_console_env "sample_console []" 1000]
  by (simp add: sample_console_env_def sample_console_def to_lowercase_def)

end
