(* ===== verification/Monitor_Spec.thy ===== *)
theory Monitor_Spec
  imports Ref_Syscalls
begin

text \<open>
  What the administrator's interface promises, without arrays, buffers, probes and lists: a monitor
  is in one of four modes, has an owner, a key and a set of restricted paths, and a request is
  answered from these. \<open>spec_perform\<close> is that specification; it answers every request, in the order
  in which \<^verbatim>\<open>reference-monitor/lib/reference_syscalls.c\<close> tests its conditions. The refinement states
  that the operations of that file, run on any well-formed monitor, give the answers of the
  specification and end in a state that stands for the one it ends in.
\<close>

section \<open>The specification\<close>

datatype mode = On | Off | Rec_On | Rec_Off

record monitor =
  mode :: mode
  owner :: "32 word"
  key :: string             \<comment> \<open>hexadecimal digest of the password\<close>
  key_salt :: cbuf
  log_name :: string
  paths :: "string set"

definition mode_code :: "mode \<Rightarrow> int" where
  "mode_code m = (case m of On \<Rightarrow> ON | Off \<Rightarrow> OFF | Rec_On \<Rightarrow> REC_ON | Rec_Off \<Rightarrow> REC_OFF)"

definition mode_of :: "int \<Rightarrow> mode option" where
  "mode_of s = (if s = ON then Some On else if s = OFF then Some Off
     else if s = REC_ON then Some Rec_On else if s = REC_OFF then Some Rec_Off else None)"

definition reconfigurable :: "mode \<Rightarrow> bool" where
  "reconfigurable m = (m = Rec_On \<or> m = Rec_Off)"

definition accepts :: "kenv \<Rightarrow> monitor \<Rightarrow> string option \<Rightarrow> bool" where
  "accepts e a pw = (case pw of None \<Rightarrow> False | Some q \<Rightarrow> hex_string (digest e (key_salt a) q) = key a)"

definition off_limits :: "monitor \<Rightarrow> string \<Rightarrow> bool" where
  "off_limits a p = (p = ''/'' \<or> list_ex (\<lambda>k. prefix k p) forbidden_prefixes \<or> p = cstr (log_name a))"

text \<open>The kernel's own name of the file a name leads to.\<close>

definition canonical :: "kenv \<Rightarrow> string \<Rightarrow> string option" where
  "canonical e p =
     do {
       q \<leftarrow> lookup_name e p;
       (case kern_path e q of
          Inl _ \<Rightarrow> None
        | Inr d \<Rightarrow> (case dentry_path_raw e d PATH_MAX of Inl _ \<Rightarrow> None | Inr full \<Rightarrow> Some full))
     }"

text \<open>
  Both operations on the list test a local variable that nothing has assigned; what the caller may
  rely on is that a request is refused without effect when that variable is not zero.
\<close>

definition edit_paths :: "kenv \<Rightarrow> int \<Rightarrow> string \<Rightarrow> monitor \<Rightarrow> int \<times> monitor" where
  "edit_paths e op p a =
     (if op = ADD_PATH
      then if p \<in> paths a then (- EEXIST, a)
           else if uninit e V_add_path_err \<noteq> 0 then (uninit e V_add_path_err, a)
           else (0, a\<lparr>paths := insert p (paths a)\<rparr>)
      else if uninit e V_del_path_err = 0 \<and> p \<in> paths a then (0, a\<lparr>paths := paths a - {p}\<rparr>)
      else (- ENOENT, a))"

fun spec_perform :: "kenv \<Rightarrow> request \<Rightarrow> monitor \<Rightarrow> int \<times> monitor" where
  "spec_perform e (ChangeState pw s) a =
     (if euid e \<noteq> owner a then (- EPERM, a)
      else if pw = None then (- EINVAL, a)
      else case mode_of s of
        None \<Rightarrow> (- EINVAL, a)
      | Some m \<Rightarrow>
          if \<not> accepts e a pw then (- EACCES, a)
          else if m = mode a then (- ECANCELED, a)
          else (0, a\<lparr>mode := m\<rparr>))"
| "spec_perform e (ChangePath pw pb op) a =
     (if euid e \<noteq> owner a then (- EPERM, a)
      else case pb of
        None \<Rightarrow> (- EINVAL, a)
      | Some b \<Rightarrow>
          if op \<noteq> ADD_PATH \<and> op \<noteq> REMOVE_PATH then (- EINVAL, a)
          else if \<not> accepts e a pw then (- EACCES, a)
          else if \<not> reconfigurable (mode a) then (- ECANCELED, a)
          else case canonical e (cstr b) of
            None \<Rightarrow> (- ENOENT, a)
          | Some full \<Rightarrow> if off_limits a full then (- EINVAL, a) else edit_paths e op full a)"
| "spec_perform e (ChangePassword old new) a =
     (if euid e \<noteq> owner a then (- EPERM, a)
      else case (old, new) of
        (Some p, Some q) \<Rightarrow>
          if length q \<le> 8 \<or> p = q \<or> \<not> accepts e a old then (- EINVAL, a)
          else (0, a\<lparr>key := hex_string (digest e (key_salt a) q)\<rparr>)
      | _ \<Rightarrow> (- EINVAL, a))"

section \<open>What a concrete monitor stands for\<close>

definition abstraction :: "rm_state \<Rightarrow> monitor" where
  "abstraction st =
     \<lparr>mode = (case mode_of (uint (current_state st)) of Some m \<Rightarrow> m | None \<Rightarrow> Off),
      owner = admin st, key = cstr (pwd st), key_salt = salt st, log_name = single_file_name st,
      paths = set (restricted st)\<rparr>"

text \<open>The password array holds a terminated string of the length of a digest.\<close>

definition keyed :: "rm_state \<Rightarrow> bool" where
  "keyed st = (pwd st = cstr (pwd st) @ [NUL] \<and> Suc (length (cstr (pwd st))) = DIGEST_SIZE)"

definition sound :: "rm_state \<Rightarrow> bool" where
  "sound st = (wf_rm st \<and> keyed st)"

text \<open>
  The requests the refinement speaks of: memory is available and zeroed, the hash transform works, path
  lookup works as documented, strings are strings, a path comes in a buffer with a clear tail and the file it leads to has a name that fits
  and leads back to a file. A path to be removed must not be the beginning of another listed one.
\<close>

definition is_text :: "string option \<Rightarrow> bool" where
  "is_text p = (case p of None \<Rightarrow> True | Some s \<Rightarrow> NUL \<notin> set s)"

definition nameable :: "kenv \<Rightarrow> cbuf \<Rightarrow> bool" where
  "nameable e b = (clean b \<and>
     (case lookup_name e (cstr b) of
        None \<Rightarrow> False
      | Some q \<Rightarrow> (case kern_path e q of
            Inl _ \<Rightarrow> True
          | Inr d \<Rightarrow> (case dentry_path_raw e d PATH_MAX of
                Inl _ \<Rightarrow> False
              | Inr full \<Rightarrow> \<not> isl (kern_path e full)))))"

definition exact :: "kenv \<Rightarrow> cbuf \<Rightarrow> monitor \<Rightarrow> bool" where
  "exact e b a = (case canonical e (cstr b) of
     None \<Rightarrow> True | Some full \<Rightarrow> (\<forall>p \<in> paths a. prefix full p \<longrightarrow> p = full))"

fun served :: "kenv \<Rightarrow> request \<Rightarrow> monitor \<Rightarrow> bool" where
  "served e (ChangeState pw s) a = (crypto_env e \<and> is_text pw)"
| "served e (ChangePath pw pb op) a = (crypto_env e \<and> vfs_ok e \<and> is_text pw \<and>
     (case pb of None \<Rightarrow> True | Some b \<Rightarrow> nameable e b \<and> (op = REMOVE_PATH \<longrightarrow> exact e b a)))"
| "served e (ChangePassword old new) a = (crypto_env e \<and> is_text old \<and> is_text new)"

section \<open>Answers under refinement\<close>

text \<open>
  A functional refinement of a request server: on sound states every request served is answered as
  the specification answers it, and the abstraction of the new state is the specification's.
\<close>

primrec run_spec :: "('env \<Rightarrow> 'req \<Rightarrow> 'a \<Rightarrow> int \<times> 'a) \<Rightarrow> ('env \<times> 'req) list \<Rightarrow> 'a \<Rightarrow> int list \<times> 'a" where
  "run_spec f [] a = ([], a)"
| "run_spec f (x # xs) a =
     (let (r, a') = f (fst x) (snd x) a; (rs, a'') = run_spec f xs a' in (r # rs, a''))"

primrec all_served ::
    "('env \<Rightarrow> 'req \<Rightarrow> 'a \<Rightarrow> int \<times> 'a) \<Rightarrow> ('env \<Rightarrow> 'req \<Rightarrow> 'a \<Rightarrow> bool) \<Rightarrow> ('env \<times> 'req) list \<Rightarrow> 'a \<Rightarrow> bool" where
  "all_served f ok [] a = True"
| "all_served f ok (x # xs) a = (ok (fst x) (snd x) a \<and> all_served f ok xs (snd (f (fst x) (snd x) a)))"

locale refined_server =
  fixes conc :: "'env \<Rightarrow> 'req \<Rightarrow> 's \<Rightarrow> (int \<times> 's) option"
    and spec :: "'env \<Rightarrow> 'req \<Rightarrow> 'a \<Rightarrow> int \<times> 'a"
    and abs :: "'s \<Rightarrow> 'a"
    and inv :: "'s \<Rightarrow> bool"
    and ok :: "'env \<Rightarrow> 'req \<Rightarrow> 'a \<Rightarrow> bool"
  assumes refine: "inv s \<Longrightarrow> ok e q (abs s) \<Longrightarrow>
    \<exists>r s'. conc e q s = Some (r, s') \<and> spec e q (abs s) = (r, abs s')"
    and keep: "inv s \<Longrightarrow> ok e q (abs s) \<Longrightarrow> conc e q s = Some (r, s') \<Longrightarrow> inv s'"
begin

lemma run_refines:
  "inv s \<Longrightarrow> all_served spec ok reqs (abs s) \<Longrightarrow>
     \<exists>rs s'. run_requests conc reqs s = Some (rs, s') \<and> run_spec spec reqs (abs s) = (rs, abs s') \<and> inv s'"
proof (induction reqs arbitrary: s)
  case (Cons x xs)
  then obtain r s1 where one: "conc (fst x) (snd x) s = Some (r, s1)"
    "spec (fst x) (snd x) (abs s) = (r, abs s1)"
    using refine by fastforce
  then have "inv s1" "all_served spec ok xs (abs s1)" using Cons.prems keep by auto
  from Cons.IH [OF this] one show ?case by auto
qed simp

end

section \<open>The parts of the refinement\<close>

lemma mode_of_code [simp]: "mode_of (mode_code m) = Some m"
  by (cases m) (simp_all add: mode_code_def mode_of_def)

lemma mode_of_Some: "mode_of s = Some m \<longleftrightarrow> s = mode_code m"
  by (cases m) (auto simp: mode_code_def mode_of_def)

lemma is_rm_state_mode: "is_rm_state s \<longleftrightarrow> (\<exists>m. s = mode_code m)"
proof
  assume "is_rm_state s"
  then have "mode_of s \<noteq> None" by (auto simp: is_rm_state_def mode_of_def)
  then show "\<exists>m. s = mode_code m" by (auto simp: mode_of_Some)
next
  assume "\<exists>m. s = mode_code m"
  then obtain m where "s = mode_code m" ..
  then show "is_rm_state s" by (cases m) (simp_all add: mode_code_def is_rm_state_def)
qed

lemma uint_mode_code [simp]: "uint (word_of_int (mode_code m) :: 64 word) = mode_code m"
  by (cases m) (simp_all add: mode_code_def)

lemma word_mode_code_inj [simp]:
  "(word_of_int (mode_code m) :: 64 word) = word_of_int (mode_code m') \<longleftrightarrow> m = m'"
  by (metis mode_of_code option.inject uint_mode_code)

lemma abstraction_simps [simp]:
  "owner (abstraction st) = admin st" "key (abstraction st) = cstr (pwd st)"
  "key_salt (abstraction st) = salt st" "log_name (abstraction st) = single_file_name st"
  "paths (abstraction st) = set (restricted st)"
  by (simp_all add: abstraction_def)

lemma sound_mode:
  assumes "sound st"
  shows "current_state st = word_of_int (mode_code (mode (abstraction st)))"
proof -
  from assms obtain m where "current_state st = word_of_int (mode_code m)"
    by (auto simp: sound_def wf_rm_def is_rm_state_mode)
  then show ?thesis by (simp add: abstraction_def)
qed

lemma check_pwd_accepts:
  assumes "crypto_env e" "keyed st" "is_text pw"
  shows "\<exists>c. check_pwd e st pw = Some c \<and> (c = 0) = accepts e (abstraction st) pw"
proof (cases pw)
  case None
  then show ?thesis by (simp add: check_pwd_def hash_plaintext_def salt_text_def accepts_def)
next
  case (Some q)
  have "strncmp (digest_string e (salt st) q) (pwd st) DIGEST_SIZE = 0 \<longleftrightarrow>
      hex_string (digest e (salt st) q) = cstr (pwd st)"
    using assms(1,2) by (simp add: strncmp_eq_0 keyed_def crypto_env_def hash_sizes digest_def)
  then show ?thesis
    using Some assms(1,3) by (simp add: check_pwd_def crypto_env_def hash_plaintext_zeroed is_text_def accepts_def)
qed

lemma change_state_refines:
  assumes "sound st" "served e (ChangeState pw s) (abstraction st)"
  shows "\<exists>r st'. do_change_state e st pw s = Some (r, st') \<and>
    spec_perform e (ChangeState pw s) (abstraction st) = (r, abstraction st')"
proof -
  obtain c where c: "check_pwd e st pw = Some c" "(c = 0) = accepts e (abstraction st) pw"
    using check_pwd_accepts [of e st pw] assms by (auto simp: sound_def)
  show ?thesis
  proof (cases "mode_of s")
    case None
    then have "\<not> is_rm_state s" by (auto simp: is_rm_state_mode)
    with None show ?thesis by (simp add: do_change_state_eq [OF c(1)])
  next
    case (Some m)
    then have s: "s = mode_code m" by (simp add: mode_of_Some)
    have "abstraction (switch_state e s st) = (abstraction st)\<lparr>mode := m\<rparr>"
      by (simp add: abstraction_def s)
    moreover have "current_state st = word_of_int s \<longleftrightarrow> m = mode (abstraction st)"
      using sound_mode [OF assms(1)] by (auto simp: s)
    moreover have "is_rm_state s" using s by (auto simp: is_rm_state_mode)
    ultimately show ?thesis
      using Some c(2) by (simp add: do_change_state_eq [OF c(1)])
  qed
qed

lemma change_password_refines:
  assumes "sound st" "served e (ChangePassword old new) (abstraction st)"
  shows "\<exists>r st'. do_change_password e st old new = Some (r, st') \<and> (keyed st \<longrightarrow> keyed st') \<and>
    spec_perform e (ChangePassword old new) (abstraction st) = (r, abstraction st')"
proof -
  obtain c where c: "check_pwd e st old = Some c" "(c = 0) = accepts e (abstraction st) old"
    using check_pwd_accepts [of e st old] assms by (auto simp: sound_def)
  show ?thesis
  proof (cases "\<exists>p q. old = Some p \<and> new = Some q")
    case False
    then show ?thesis by (cases old; cases new) (simp_all add: do_change_password_def)
  next
    case True
    then obtain p q where pq: "old = Some p" "new = Some q" by blast
    with assms(2) have env: "crypto_env e" "NUL \<notin> set p" "NUL \<notin> set q" by (simp_all add: is_text_def)
    let ?d = "digest_string e (salt st) q"
    have h: "hash_plaintext e (Some (salt st)) (Some b) new = Some (Inr ?d)"
      "strncpy_pad DIGEST_SIZE ?d = ?d" for b
      using env pq by (simp_all add: crypto_env_def hash_plaintext_zeroed strncpy_pad_digest)
    have "keyed (st\<lparr>pwd := ?d\<rparr>)"
      using env(1) by (simp add: keyed_def crypto_env_def digest_string_def cstr_append digest_def hash_sizes)
    moreover have "abstraction (st\<lparr>pwd := ?d\<rparr>) = (abstraction st)\<lparr>key := hex_string (digest e (salt st) q)\<rparr>"
      by (simp add: abstraction_def)
    ultimately show ?thesis
      using env(2,3) c pq h by (simp add: do_change_password_def strcmp_eq_0 cstr_id)
  qed
qed

lemma off_limits_forbitten:
  "NUL \<notin> set p \<Longrightarrow> forbitten_path st (Some p) = (if off_limits (abstraction st) p then 1 else 0)"
  by (auto simp: forbitten_path_eq off_limits_def list_ex_iff)

lemma add_path_refines:
  assumes "sound st" "crypto_env e" "NUL \<notin> set p" "d_inode e d = Some i"
  shows "\<exists>r st'. add_path e (Some p) d st = (r, st') \<and> edit_paths e ADD_PATH p (abstraction st) = (r, abstraction st')"
proof -
  have "is_path_in st (Some p) = (if p \<in> set (restricted st) then 0 else 1)"
    using path_in_loop_eq [OF assms(3)] wf_list_no_NUL [of st] assms(1)
    by (simp add: is_path_in_def sound_def wf_rm_def)
  then show ?thesis
    using assms(2,4) by (simp add: add_path_def edit_paths_def crypto_env_def abstraction_def)
qed

lemma del_path_refines:
  assumes "sound st" "crypto_env e" "NUL \<notin> set p" "kern_path e p = Inr d" "d_inode e d = Some i"
    and "\<forall>q \<in> set (restricted st). prefix p q \<longrightarrow> q = p"
  shows "\<exists>r st'. del_path e (Some p) st = (r, st') \<and> edit_paths e REMOVE_PATH p (abstraction st) = (r, abstraction st')"
proof (cases "uninit e V_del_path_err = 0")
  case False
  then show ?thesis by (simp add: del_path_def edit_paths_def)
next
  case clear: True
  have wf: "wf_list st" using assms(1) by (simp add: sound_def wf_rm_def)
  obtain r ino es where loop: "del_loop e p (inodes st) (restrict_path_list st) = (r, ino, es)"
    by (metis prod_cases3)
  then have del: "del_path e (Some p) st = (r, st\<lparr>inodes := ino, restrict_path_list := es\<rparr>)"
    using clear by (simp add: del_path_def)
  have "r = (if p \<in> set (restricted st) then 0 else - ENOENT)"
    "set (map entry_path es) = set (restricted st) - {p}"
    using assms(3) wf_list_no_NUL [OF wf] loop
    by (cases rule: del_loop_cases; use assms(4-6) wf in \<open>auto simp: wf_list_def\<close>)+
  then show ?thesis
    using del clear by (auto simp: edit_paths_def abstraction_def)
qed

lemma nameable_cases:
  assumes "nameable e b" "vfs_ok e" "mem_ok e"
  obtains (missing) b' where "fill_absolute_path e (Some b) = Some (- ENOENT, b')" "canonical e (cstr b) = None"
    | (found) full d i where "fill_absolute_path e (Some b) = Some (0, clean_buf full)"
        "canonical e (cstr b) = Some full" "NUL \<notin> set full" "kern_path e full = Inr d" "d_inode e d = Some i"
proof -
  from assms(1) obtain q where q: "clean b" "lookup_name e (cstr b) = Some q"
    by (auto simp: nameable_def split: option.splits)
  show ?thesis
  proof (cases "kern_path e q")
    case (Inl err)
    with q show ?thesis
      by (intro missing [OF fill_absolute_path_missing [OF assms(2,3) q Inl]]) (simp add: canonical_def)
  next
    case (Inr d0)
    with q assms(1) obtain full where full: "dentry_path_raw e d0 PATH_MAX = Inr full" "\<not> isl (kern_path e full)"
      by (auto simp: nameable_def split: sum.splits)
    then obtain d where d: "kern_path e full = Inr d" by (cases "kern_path e full") auto
    obtain i where "d_inode e d = Some i" using vfs_ok_inodeD [OF assms(2) d] ..
    with Inr q full d show ?thesis
      using vfs_ok_rawD [OF assms(2) full(1)]
      by (intro found [OF fill_absolute_path_found [OF assms(2,3) q Inr full(1)]]) (simp_all add: canonical_def)
  qed
qed

lemma change_path_refines:
  assumes "sound st" "served e (ChangePath pw pb op) (abstraction st)"
  shows "\<exists>r st'. do_change_path e st pw pb op = Some (r, st') \<and>
    spec_perform e (ChangePath pw pb op) (abstraction st) = (r, abstraction st')"
proof -
  obtain c where c: "check_pwd e st pw = Some c" "(c = 0) = accepts e (abstraction st) pw"
    using check_pwd_accepts [of e st pw] assms by (auto simp: sound_def)
  have rec: "current_state st = word_of_int REC_OFF \<or> current_state st = word_of_int REC_ON \<longleftrightarrow>
      reconfigurable (mode (abstraction st))"
    using sound_mode [OF assms(1)]
    by (cases "mode (abstraction st)") (simp_all add: reconfigurable_def mode_code_def)
  show ?thesis
  proof (cases "euid e = admin st \<and> pb \<noteq> None \<and> (op = ADD_PATH \<or> op = REMOVE_PATH) \<and> c = 0 \<and>
      reconfigurable (mode (abstraction st))")
    case False
    then show ?thesis using c rec by (cases pb) (auto simp: do_change_path_def)
  next
    case True
    then obtain b where b: "pb = Some b" by blast
    with assms(2) True have env: "crypto_env e" "vfs_ok e" "nameable e b"
      and ex: "op = REMOVE_PATH \<Longrightarrow> exact e b (abstraction st)" by simp_all
    then have "mem_ok e" by (simp add: crypto_env_def)
    from env(3,2) this show ?thesis
    proof (cases rule: nameable_cases)
      case (missing b')
      with True b c rec show ?thesis by (auto simp: do_change_path_def)
    next
      case (found full d i)
      have masks: "(0x10::int) AND 0x20 = 0" "(0x20::int) AND 0x10 = 0" by simp_all
      have add: "\<exists>r st'. add_path e (Some full) d st = (r, st') \<and>
          edit_paths e ADD_PATH full (abstraction st) = (r, abstraction st')"
        by (rule add_path_refines [OF assms(1) env(1) found(3,5)])
      have del: "\<exists>r st'. del_path e (Some full) st = (r, st') \<and>
          edit_paths e REMOVE_PATH full (abstraction st) = (r, abstraction st')" if "op = REMOVE_PATH"
        using ex [OF that] found(2) by (intro del_path_refines [OF assms(1) env(1) found(3-5)]) (simp add: exact_def)
      show ?thesis
        using True b c rec found masks add del
        by (auto simp: do_change_path_def off_limits_forbitten)
    qed
  qed
qed

lemma perform_keeps_key:
  assumes "sound st" "served e q (abstraction st)" "perform e q st = Some (r, st')"
  shows "keyed st'"
proof (cases q)
  case (ChangeState pw s)
  with assms(3) have "pwd st' = pwd st"
    by (auto simp: do_change_state_def bind_eq_Some_conv Let_def split: if_splits)
  with assms(1) show ?thesis by (simp add: sound_def keyed_def)
next
  case (ChangePath pw pb op)
  with assms(3) have "pwd st' = pwd st"
    by (cases "st' = st") (auto simp: rm_frame elim!: do_change_path_Some)
  with assms(1) show ?thesis by (simp add: sound_def keyed_def)
next
  case (ChangePassword old new)
  with assms show ?thesis using change_password_refines [of st e old new] by (auto simp: sound_def)
qed

interpretation refines: refined_server perform spec_perform abstraction sound served
proof unfold_locales
  fix s e q
  assume "sound s" "served e q (abstraction s)"
  then show "\<exists>r s'. perform e q s = Some (r, s') \<and> spec_perform e q (abstraction s) = (r, abstraction s')"
    using change_state_refines change_path_refines change_password_refines
    by (cases q) (simp_all del: served.simps spec_perform.simps, blast+)
next
  fix s e q r s'
  assume "sound s" "served e q (abstraction s)" "perform e q s = Some (r, s')"
  then show "sound s'"
    using perform_wf [of s e q r s'] perform_keeps_key [of s e q r s'] by (simp add: sound_def)
qed

section \<open>Properties\<close>

text \<open>
  C2: the administrator's interface refines its specification: from a sound monitor, any sequence of
  requests (of any callers, each in its own environment, one finished before the next begins) that
  are served gets exactly the answers the specification gives, errors included, and the monitor
  reached is sound and stands for the state the specification reaches. A request is served if the
  allocator hands out zeroed memory, no allocation and no call of the hash transform fails, its
  strings are terminated, its path comes in a buffer with a clear tail and leads to no file or to one
  with a name that fits and leads back to it, and it does not remove a path that is the beginning of
  another listed one (there the code may drop the other, \<open>del_path_drops_longer\<close>). Where the
  unassigned local of the code is not zero the specification refuses the change as the code does.
\<close>

theorem requests_refine_specification:
  assumes "sound st" "all_served spec_perform served reqs (abstraction st)"
  shows "\<exists>rs st'. run_requests perform reqs st = Some (rs, st') \<and>
    run_spec spec_perform reqs (abstraction st) = (rs, abstraction st') \<and> sound st'"
  using assms by (rule refines.run_refines)

definition sample_requests :: "(kenv \<times> request) list" where
  "sample_requests =
     [(sample_env, ChangePath (Some ''RefMonitorPwd'') (Some (clean_buf ''/home/u/secret'')) ADD_PATH),
      (sample_env, ChangePath (Some ''RefMonitorPwd'') (Some (clean_buf ''/home/u/secret'')) ADD_PATH),
      (sample_env\<lparr>euid := 1000\<rparr>, ChangeState (Some ''RefMonitorPwd'') OFF),
      (sample_env, ChangeState (Some ''RefMonitorPwd'') ON),
      (sample_env, ChangePath (Some ''RefMonitorPwd'') (Some (clean_buf ''/home/u/secret'')) REMOVE_PATH)]"

definition sample_monitor :: "mode \<Rightarrow> string set \<Rightarrow> monitor" where
  "sample_monitor m P =
     \<lparr>mode = m, owner = 0, key = hex_string (digest sample_env (salt sample_state) ''RefMonitorPwd''),
      key_salt = salt sample_state, log_name = single_file_name sample_state, paths = P\<rparr>"

lemma sample_monitor_simps [simp]:
  "mode (sample_monitor m P) = m" "owner (sample_monitor m P) = 0" "paths (sample_monitor m P) = P"
  "(sample_monitor m P)\<lparr>mode := m'\<rparr> = sample_monitor m' P"
  "(sample_monitor m P)\<lparr>paths := P'\<rparr> = sample_monitor m P'"
  "accepts sample_env (sample_monitor m P) (Some ''RefMonitorPwd'')"
  "\<not> off_limits (sample_monitor m P) ''/home/u/secret''"
  by (simp_all add: sample_monitor_def accepts_def off_limits_def forbidden_prefixes_def)

lemma sample_abstraction: "abstraction sample_state = sample_monitor Rec_Off {}"
  using sample_crypto(2) by (simp add: abstraction_def sample_monitor_def mode_of_def stored_def)

lemma sample_sound: "sound sample_state"
  using sample_wf_rm sample_crypto
  by (simp add: sound_def stored_def keyed_def crypto_env_def digest_string_def cstr_append digest_def hash_sizes)

lemma sample_names:
  "canonical sample_env ''/home/u/secret'' = Some ''/home/u/secret''"
  "nameable sample_env (clean_buf ''/home/u/secret'')"
  using sample_clean by (simp_all add: canonical_def nameable_def lookup_name_def)

lemma sample_crypto_user: "crypto_env (sample_env\<lparr>euid := u\<rparr>)"
proof -
  let ?e = "sample_env\<lparr>euid := u\<rparr>"
  have "alloc_ok ?e = alloc_ok sample_env" "crypto_ok ?e = crypto_ok sample_env" "fresh_mem ?e = fresh_mem sample_env"
    "uninit ?e = uninit sample_env" "sha512 ?e = sha512 sample_env" by simp_all
  then show ?thesis
    using sample_crypto(1) unfolding crypto_env_def zeroed_def sha512_ok_def mem_ok_def by metis
qed

lemma sample_spec_run:
  "run_spec spec_perform sample_requests (abstraction sample_state) =
     ([0, - EEXIST, - EPERM, 0, - ECANCELED], sample_monitor On {''/home/u/secret''})"
  by (simp add: sample_requests_def sample_abstraction sample_names reconfigurable_def mode_of_def edit_paths_def)

lemma sample_served: "all_served spec_perform served sample_requests (abstraction sample_state)"
  by (simp add: sample_requests_def sample_abstraction sample_names reconfigurable_def mode_of_def edit_paths_def
      exact_def is_text_def sample_crypto sample_crypto_user sample_env_ok)

theorem requests_refine_specification_witness:
  "\<exists>st'. run_requests perform sample_requests sample_state = Some ([0, - EEXIST, - EPERM, 0, - ECANCELED], st') \<and>
     abstraction st' = sample_monitor On {''/home/u/secret''} \<and> sound st'"
  using requests_refine_specification [OF sample_sound sample_served] sample_spec_run by auto

end
