(* ===== verification/Monitor_Threads.thy ===== *)
theory Monitor_Threads
  imports Ref_Hooks Runs
begin

text \<open>
  The operations of the administrator as threads that run at the same time. \<open>perform\<close> makes each
  operation one transition; here every operation of \<^verbatim>\<open>reference-monitor/lib/reference_syscalls.c\<close> is cut
  where the code gives up or takes a lock: the tests on the arguments, the comparison of the
  password under \<open>password_lock\<close>, the section under \<open>state_lock\<close> with one step for each probe and, inside
  it, the section of \<open>restore_black_list_entries\<close> under \<open>restrict_path_lock\<close> with one step for each
  entry, the read of the state before the list is changed, the search of \<open>add_path\<close> in its RCU read
  section, the copy of the inode, and the sections under \<open>restrict_path_lock\<close> of \<open>add_path\<close> and \<open>del_path\<close>.
  A section that takes no further lock is one step, which has to wait while another thread holds
  the lock. \<open>restore_black_list_entries\<close> and \<open>del_path\<close> call \<open>synchronize_rcu\<close> inside the section of
  \<open>restrict_path_lock\<close>: the wait is a place of its own in the code, from which a thread goes on when every
  thread that held a lock or spun on one as the wait began has allowed preemption since. Every
  thread has a processor of its own. Probed file operations of other threads may come between any
  two steps; each is one step, so no wait begins in the middle of one. The answers of the kernel to one call are
  one environment, as elsewhere.
\<close>

section \<open>Definitions\<close>

text \<open>
  Where a thread is: \<open>S\<close> in \<open>do_change_state\<close>, \<open>P\<close> in \<open>do_change_path\<close>, \<open>A\<close> in \<open>add_path\<close>, \<open>D\<close> in \<open>del_path\<close>, \<open>W\<close> in
  \<open>do_change_password\<close>. \<open>Fault\<close> is a thread that left defined behaviour.
\<close>

datatype pc =
    S_check "string option" int
  | S_pwd "string option" int
  | S_lock int
  | S_state int
  | S_probe int nat
  | S_list_lock
  | S_restore "rcu_restrict list"
  | S_grace
  | S_unlock int
  | P_check "string option" "cbuf option" int
  | P_pwd "string option" cbuf int
  | P_state cbuf int
  | P_resolve cbuf int
  | A_lookup string dentry_ptr
  | A_entry string dentry_ptr
  | A_insert rcu_restrict
  | D_delete string
  | D_grace int
  | W_check "string option" "string option"
  | W_pwd string string
  | W_hash string
  | W_store cbuf
  | Done int
  | Fault

record shared =
  rmst :: rm_state
  state_lock :: "nat option"       \<comment> \<open>the thread that holds it for writing\<close>
  list_lock :: "nat option"        \<comment> \<open>\<open>restrict_path_lock\<close>\<close>
  nopreempt :: "nat set"           \<comment> \<open>the threads whose processor cannot switch: they hold a lock or spin on one\<close>
  grace :: "nat set"               \<comment> \<open>the threads the running \<open>synchronize_rcu\<close> still waits for\<close>

text \<open>
  \<open>spin_lock\<close>, \<open>read_lock\<close> and \<open>write_lock\<close> forbid preemption before they try the lock, and keep it forbidden
  while they spin; the unlock of the outermost lock allows it again, which is a quiescent state of
  the processor. \<open>spin\<close> is an attempt on a lock that another thread holds.
\<close>

definition preempt_disable :: "nat \<Rightarrow> shared \<Rightarrow> shared" where
  "preempt_disable i sh = sh\<lparr>nopreempt := insert i (nopreempt sh)\<rparr>"

definition preempt_enable :: "nat \<Rightarrow> shared \<Rightarrow> shared" where
  "preempt_enable i sh = sh\<lparr>nopreempt := nopreempt sh - {i}, grace := grace sh - {i}\<rparr>"

definition spin :: "nat \<Rightarrow> pc \<Rightarrow> shared \<Rightarrow> (pc \<times> shared) option" where
  "spin i p sh = (if i \<in> nopreempt sh then None else Some (p, preempt_disable i sh))"

text \<open>
  The begin of \<open>synchronize_rcu\<close>: a grace period ends when every other processor that could not switch
  when it began has passed a quiescent state. The caller sleeps, so it does not wait for itself.
\<close>

definition start_grace :: "nat \<Rightarrow> shared \<Rightarrow> shared" where
  "start_grace i sh = sh\<lparr>grace := nopreempt sh - {i}\<rparr>"

lemmas preempt_defs = preempt_disable_def preempt_enable_def spin_def start_grace_def

lemma spin_iff [simp]:
  "spin i p sh = Some (p', sh') \<longleftrightarrow> i \<notin> nopreempt sh \<and> p' = p \<and> sh' = preempt_disable i sh"
  "spin i p sh = None \<longleftrightarrow> i \<in> nopreempt sh"
  by (auto simp: spin_def)

definition set_probe :: "bool \<Rightarrow> nat \<Rightarrow> rm_state \<Rightarrow> rm_state" where
  "set_probe on k st = st\<lparr>probes := (probes st)[k := (probes st ! k)\<lparr>enabled := on\<rparr>]\<rparr>"

text \<open>\<open>advance i e pc s\<close>: the next step of thread \<open>i\<close>, or \<open>None\<close> while it waits or after it has finished.\<close>

fun advance :: "nat \<Rightarrow> kenv \<Rightarrow> pc \<Rightarrow> shared \<Rightarrow> (pc \<times> shared) option" where
  "advance i e (S_check pw s) sh =
     Some (if euid e \<noteq> admin (rmst sh) then Done (- EPERM)
           else if pw = None \<or> (s \<noteq> ON \<and> s \<noteq> OFF \<and> s \<noteq> REC_ON \<and> s \<noteq> REC_OFF) then Done (- EINVAL)
           else S_pwd pw s, sh)"
| "advance i e (S_pwd pw s) sh =
     Some (case check_pwd e (rmst sh) pw of
             None \<Rightarrow> Fault | Some ret \<Rightarrow> if ret \<noteq> 0 then Done (- EACCES) else S_lock s, sh)"
| "advance i e (S_lock s) sh =
     (if state_lock sh \<noteq> None then spin i (S_lock s) sh
      else Some (S_state s, (preempt_disable i sh)\<lparr>state_lock := Some i\<rparr>))"
| "advance i e (S_state s) sh =
     Some (if current_state (rmst sh) = word_of_int s then (S_unlock (- ECANCELED), sh)
           else (S_probe s 0, sh\<lparr>rmst := (rmst sh)\<lparr>current_state := word_of_int s\<rparr>\<rparr>))"
| "advance i e (S_probe s k) sh =
     (let on = (current_state (rmst sh) AND word_of_int REC_ON \<noteq> 0 \<or> current_state (rmst sh) AND word_of_int ON \<noteq> 0) in
      Some (if k < HOOKS_SIZE then (S_probe s (Suc k), sh\<lparr>rmst := set_probe on k (rmst sh)\<rparr>)
            else if on then (S_unlock 0, sh)
            else (S_list_lock, sh)))"
| "advance i e S_list_lock sh =
     (if list_lock sh \<noteq> None then spin i S_list_lock sh
      else Some (S_restore (restrict_path_list (rmst sh)), sh\<lparr>list_lock := Some i\<rparr>))"
| "advance i e (S_restore es) sh =
     Some (case es of
             [] \<Rightarrow> (S_grace, start_grace i sh)
           | entry # es' \<Rightarrow>
               (S_restore es', sh\<lparr>rmst := (rmst sh)\<lparr>inodes := snd (restore_loop e [entry] (0, inodes (rmst sh)))\<rparr>\<rparr>))"
| "advance i e S_grace sh =
     (if grace sh \<noteq> {} then None else Some (S_unlock 0, sh\<lparr>list_lock := None\<rparr>))"
| "advance i e (S_unlock r) sh = Some (Done r, (preempt_enable i sh)\<lparr>state_lock := None\<rparr>)"
| "advance i e (P_check pw pb op) sh =
     Some (if euid e \<noteq> admin (rmst sh) then Done (- EPERM)
           else case pb of
                  None \<Rightarrow> Done (- EINVAL)
                | Some b \<Rightarrow> if op \<noteq> ADD_PATH \<and> op \<noteq> REMOVE_PATH then Done (- EINVAL) else P_pwd pw b op, sh)"
| "advance i e (P_pwd pw b op) sh =
     Some (case check_pwd e (rmst sh) pw of
             None \<Rightarrow> Fault | Some ret \<Rightarrow> if ret \<noteq> 0 then Done (- EACCES) else P_state b op, sh)"
| "advance i e (P_state b op) sh =
     (if state_lock sh \<noteq> None then spin i (P_state b op) sh
      else Some (if current_state (rmst sh) = word_of_int REC_OFF \<or> current_state (rmst sh) = word_of_int REC_ON
                 then P_resolve b op else Done (- ECANCELED), preempt_enable i sh))"
| "advance i e (P_resolve b op) sh =
     Some (case fill_absolute_path e (Some b) of
             None \<Rightarrow> Fault
           | Some (ret, b') \<Rightarrow>
               if ret \<noteq> 0 then Done ret
               else if forbitten_path (rmst sh) (Some (cstr b')) \<noteq> 0 then Done (- EINVAL)
               else case kern_path e (cstr b') of
                      Inl err \<Rightarrow> Done err
                    | Inr d \<Rightarrow> if op AND ADD_PATH \<noteq> 0 then A_lookup (cstr b') d else D_delete (cstr b'), sh)"
| "advance i e (A_lookup p d) sh =
     Some (if is_path_in (rmst sh) (Some p) = 0 then Done (- EEXIST) else A_entry p d, sh)"
| "advance i e (A_entry p d) sh =
     Some (if uninit e V_add_path_err \<noteq> 0 then Done (uninit e V_add_path_err)
           else if \<not> alloc_ok e A_restrict_entry then Done (- ENOMEM)
           else if \<not> alloc_ok e A_restrict_path then Done (- ENOMEM)
           else case d_inode e d of
                  None \<Rightarrow> Done (- ENOENT)
                | Some k \<Rightarrow> let n = inodes (rmst sh) k in
                    A_insert \<lparr>entry_path = p, entry_i_ino = i_ino n, o_mode = ucast (i_mode n), o_flags = i_flags n\<rparr>, sh)"
| "advance i e (A_insert entry) sh =
     (if list_lock sh \<noteq> None then spin i (A_insert entry) sh
      else Some (Done 0, (preempt_enable i sh)\<lparr>rmst := (rmst sh)\<lparr>restrict_path_list := entry # restrict_path_list (rmst sh)\<rparr>\<rparr>))"
| "advance i e (D_delete p) sh =
     (if uninit e V_del_path_err \<noteq> 0 then Some (Done (- ENOENT), sh)
      else if list_lock sh \<noteq> None then spin i (D_delete p) sh
      else let (ret, st) = del_path e (Some p) (rmst sh) in
        Some (if list_ex (\<lambda>x. strncmp p (entry_path x) (length p) = 0) (restrict_path_list (rmst sh))
              then (D_grace ret, start_grace i (preempt_disable i sh)\<lparr>rmst := st, list_lock := Some i\<rparr>)
              else (Done ret, (preempt_enable i sh)\<lparr>rmst := st\<rparr>)))"
| "advance i e (D_grace ret) sh =
     (if grace sh \<noteq> {} then None else Some (Done ret, (preempt_enable i sh)\<lparr>list_lock := None\<rparr>))"
| "advance i e (W_check old new) sh =
     Some (if euid e \<noteq> admin (rmst sh) then Done (- EPERM)
           else case (old, new) of
                  (Some p, Some q) \<Rightarrow>
                    if length q \<le> 8 then Done (- EINVAL)
                    else if strcmp p q = 0 then Done (- EINVAL) else W_pwd p q
                | _ \<Rightarrow> Done (- EINVAL), sh)"
| "advance i e (W_pwd p q) sh =
     Some (case check_pwd e (rmst sh) (Some p) of
             None \<Rightarrow> Fault | Some ret \<Rightarrow> if ret \<noteq> 0 then Done (- EINVAL) else W_hash q, sh)"
| "advance i e (W_hash q) sh =
     Some (case hash_plaintext e (Some (salt (rmst sh))) (Some (replicate DIGEST_SIZE NUL)) (Some q) of
             None \<Rightarrow> Fault | Some (Inl err) \<Rightarrow> Done err | Some (Inr tmp) \<Rightarrow> W_store tmp, sh)"
| "advance i e (W_store tmp) sh =
     Some (Done 0, sh\<lparr>rmst := (rmst sh)\<lparr>pwd := strncpy_pad DIGEST_SIZE tmp\<rparr>\<rparr>)"
| "advance i e (Done r) sh = None"
| "advance i e Fault sh = None"

fun entry_pc :: "request \<Rightarrow> pc" where
  "entry_pc (ChangeState pw s) = S_check pw s"
| "entry_pc (ChangePath pw pb op) = P_check pw pb op"
| "entry_pc (ChangePassword old new) = W_check old new"

text \<open>A pool of threads, and the probed file operations of other threads between their steps.\<close>

type_synonym tpool = "(kenv, pc, shared) pool"

datatype file_op = F_open filename "32 word" | F_mkdir "dentry_ptr option" | F_rmdir "dentry_ptr option" | F_unlink "dentry_ptr option"

fun file_call :: "(bool \<Rightarrow> inode_table \<Rightarrow> int) \<Rightarrow> kenv \<Rightarrow> file_op \<Rightarrow> rm_state \<Rightarrow> (int \<times> rm_state) option" where
  "file_call orig e (F_open f fl) st = hooked_open e st f fl orig"
| "file_call orig e (F_mkdir d) st = hooked_mkdir e st d orig"
| "file_call orig e (F_rmdir d) st = hooked_rmdir e st d orig"
| "file_call orig e (F_unlink d) st = hooked_unlink e st d orig"

datatype turn = Turn nat | File kenv file_op int

inductive tstep :: "tpool \<Rightarrow> turn \<Rightarrow> tpool \<Rightarrow> bool" where
  tstep_turn: "i < length (thr c) \<Longrightarrow> thr c ! i = (e, p) \<Longrightarrow> advance i e p (mem c) = Some (p', sh) \<Longrightarrow>
     tstep c (Turn i) (c\<lparr>mem := sh, thr := (thr c)[i := (e, p')]\<rparr>)"
| tstep_file: "file_call orig e f (rmst (mem c)) = Some (r, st) \<Longrightarrow>
     tstep c (File e f r) (c\<lparr>mem := (mem c)\<lparr>rmst := st\<rparr>\<rparr>)"

inductive_cases tstep_TurnE: "tstep c (Turn i) c'"
inductive_cases tstep_FileE: "tstep c (File e f r) c'"

definition unlocked :: "rm_state \<Rightarrow> shared" where
  "unlocked st = \<lparr>rmst = st, state_lock = None, list_lock = None, nopreempt = {}, grace = {}\<rparr>"

definition launch :: "rm_state \<Rightarrow> (kenv \<times> request) list \<Rightarrow> tpool" where
  "launch st reqs = \<lparr>mem = unlocked st, thr = map (\<lambda>(e, q). (e, entry_pc q)) reqs\<rparr>"

definition finished :: "pc \<Rightarrow> bool" where
  "finished p = (case p of Done _ \<Rightarrow> True | Fault \<Rightarrow> True | _ \<Rightarrow> False)"

lemma finished_simps [simp]: "finished (Done r)" "finished Fault"
  by (simp_all add: finished_def)

lemma advance_finished: "finished p \<Longrightarrow> advance i e p sh = None"
  by (cases p) (simp_all add: finished_def)

section \<open>A thread that runs undisturbed\<close>

lemma interleave_tstep: "interleave advance c i c' \<Longrightarrow> tstep c (Turn i) c'"
  by (auto elim!: interleave.cases intro: tstep_turn)

lemma goes_turns:
  assumes "goes (advance i e) x y" "i < length (thr c)" "thr c ! i = (e, fst x)" "mem c = snd x"
  shows "\<exists>n. run tstep c (replicate n (Turn i)) (c\<lparr>mem := snd y, thr := (thr c)[i := (e, fst y)]\<rparr>)"
proof -
  obtain n where "run (interleave advance) c (replicate n i) (c\<lparr>mem := snd y, thr := (thr c)[i := (e, fst y)]\<rparr>)"
    using goes_interleave [of advance, OF assms] ..
  from run_map [of _ tstep Turn, OF interleave_tstep this] show ?thesis by auto
qed

definition single :: "kenv \<Rightarrow> pc \<times> shared \<Rightarrow> tpool" where
  "single e x = \<lparr>mem = snd x, thr = [(e, fst x)]\<rparr>"

lemma single_inj [simp]: "single e x = single e y \<longleftrightarrow> x = y"
  by (auto simp: single_def prod_eq_iff)

lemma single_turn: "tstep (single e x) (Turn 0) c \<Longrightarrow> \<exists>y. advance 0 e (fst x) (snd x) = Some y \<and> c = single e y"
  by (auto elim!: tstep_TurnE simp: single_def)

text \<open>A thread without company has one way to go, so all its complete runs end in the same state.\<close>

lemma run_single_unique:
  "goes (advance 0 e) x y \<Longrightarrow> finished (fst y) \<Longrightarrow> run tstep (single e x) (replicate n (Turn 0)) (single e z) \<Longrightarrow>
     finished (fst z) \<Longrightarrow> z = y"
proof (induction arbitrary: n rule: goes.induct)
  case (goes_refl x)
  then show ?case
    using advance_finished by (cases n) (auto simp: run_Cons_iff dest!: single_turn)
next
  case (goes_step x y' y)
  show ?case
  proof (cases n)
    case 0
    with goes_step.hyps(1) goes_step.prems(2,3) advance_finished show ?thesis by force
  next
    case (Suc k)
    with goes_step show ?thesis by (auto simp: run_Cons_iff dest!: single_turn)
  qed
qed

lemma goes_probes:
  assumes "on = (current_state st AND word_of_int REC_ON \<noteq> 0 \<or> current_state st AND word_of_int ON \<noteq> 0)"
  shows "k \<le> HOOKS_SIZE \<Longrightarrow>
    goes (advance i e) (S_probe s 0, sh\<lparr>rmst := st\<rparr>)
     (S_probe s k, sh\<lparr>rmst := st\<lparr>probes := fold (\<lambda>k ys. ys[k := (ys ! k)\<lparr>enabled := on\<rparr>]) [0..<k] (probes st)\<rparr>\<rparr>)"
proof (induction k)
  case 0
  show ?case by (simp add: goes_refl)
next
  case (Suc k)
  then show ?case using assms by (intro goes_trans [OF Suc.IH goes_one]) (simp_all add: set_probe_def Let_def)
qed

lemma restore_loop_inodes: "snd (restore_loop e es (r, ino)) = snd (restore_loop e es (r', ino))"
  by (induction es arbitrary: r r' ino) (auto split: sum.split option.split)

lemma restore_loop_Cons:
  "snd (restore_loop e (x # es) (r, ino)) = snd (restore_loop e es (r, snd (restore_loop e [x] (r', ino))))"
  by (auto intro: restore_loop_inodes split: sum.split option.split)

lemma goes_restore:
  "goes (advance i e) (S_restore es, sh\<lparr>rmst := st\<rparr>)
     (S_restore [], sh\<lparr>rmst := st\<lparr>inodes := snd (restore_loop e es (r, inodes st))\<rparr>\<rparr>)"
proof (induction es arbitrary: st)
  case Nil
  show ?case by (simp add: goes_refl)
next
  case (Cons x es)
  let ?ino = "snd (restore_loop e [x] (0, inodes st))"
  have "goes (advance i e) (S_restore (x # es), sh\<lparr>rmst := st\<rparr>) (S_restore es, sh\<lparr>rmst := st\<lparr>inodes := ?ino\<rparr>\<rparr>)"
    by (rule goes_one) (simp del: restore_loop.simps)
  from goes_trans [OF this Cons.IH] show ?case
    using restore_loop_Cons [of e x es r "inodes st" 0] by (simp del: restore_loop.simps)
qed

lemma unlocked_simps [simp]:
  "rmst (unlocked st) = st" "state_lock (unlocked st) = None" "list_lock (unlocked st) = None"
  "nopreempt (unlocked st) = {}" "grace (unlocked st) = {}"
  "(unlocked st)\<lparr>rmst := st'\<rparr> = unlocked st'"
  by (simp_all add: unlocked_def)

lemma preempt_simps [simp]:
  "rmst (preempt_disable i sh) = rmst sh" "rmst (preempt_enable i sh) = rmst sh" "rmst (start_grace i sh) = rmst sh"
  "state_lock (preempt_disable i sh) = state_lock sh" "state_lock (preempt_enable i sh) = state_lock sh"
  "state_lock (start_grace i sh) = state_lock sh" "list_lock (preempt_disable i sh) = list_lock sh"
  "list_lock (preempt_enable i sh) = list_lock sh" "list_lock (start_grace i sh) = list_lock sh"
  "preempt_enable i (unlocked st) = unlocked st"
  by (simp_all add: preempt_defs unlocked_def)

text \<open>The memory while thread \<open>i\<close> alone is in the section of \<open>state_lock\<close>, and of \<open>restrict_path_lock\<close> in it.\<close>

abbreviation in_section :: "nat \<Rightarrow> nat option \<Rightarrow> rm_state \<Rightarrow> shared" where
  "in_section i l st \<equiv> \<lparr>rmst = st, state_lock = Some i, list_lock = l, nopreempt = {i}, grace = {}\<rparr>"

lemma goes_to_probed:
  assumes "is_rm_state s" "current_state st \<noteq> word_of_int s"
  shows "goes (advance i e) (S_lock s, unlocked st)
    (S_probe s HOOKS_SIZE, in_section i None (set_probes (enabling s) (st\<lparr>current_state := word_of_int s\<rparr>)))"
proof -
  let ?st1 = "st\<lparr>current_state := word_of_int s\<rparr>"
  have "goes (advance i e) (S_lock s, unlocked st) (S_probe s 0, in_section i None ?st1)"
    using assms(2) by (intro goes_two [where p' = "S_state s" and s' = "in_section i None st"])
      (simp_all add: unlocked_def preempt_defs)
  moreover have "goes (advance i e) (S_probe s 0, in_section i None ?st1)
      (S_probe s HOOKS_SIZE, in_section i None (set_probes (enabling s) ?st1))"
    using goes_probes [of "enabling s" ?st1 HOOKS_SIZE i e s "in_section i None ?st1"] enabling_mask [OF assms(1)]
      fold_update_all [of "enabled_update (\<lambda>_. enabling s)" HOOKS_SIZE "probes st"]
    by (simp add: set_probes_def)
  ultimately show ?thesis by (rule goes_trans)
qed

lemma goes_to_grace:
  assumes "is_rm_state s" "current_state st \<noteq> word_of_int s" "\<not> enabling s"
  shows "goes (advance i e) (S_lock s, unlocked st) (S_restore [], in_section i (Some i) (switch_state e s st))"
proof -
  let ?st = "set_probes False (st\<lparr>current_state := word_of_int s\<rparr>)"
  have "goes (advance i e) (S_probe s HOOKS_SIZE, in_section i None ?st)
      (S_restore (restrict_path_list ?st), in_section i (Some i) ?st)"
    using enabling_mask [OF assms(1)] assms(3)
    by (intro goes_two [where p' = S_list_lock and s' = "in_section i None ?st"]) simp_all
  moreover have "goes (advance i e) (S_restore (restrict_path_list ?st), in_section i (Some i) ?st)
      (S_restore [], in_section i (Some i) (switch_state e s st))"
    using assms(3) goes_restore [of i e "restrict_path_list ?st" ?st "in_section i (Some i) ?st" "uninit e V_restore_ret"]
    by (simp add: switch_state_def Let_def restore_black_list_entries_def split_def)
  moreover have "goes (advance i e) (S_lock s, unlocked st) (S_probe s HOOKS_SIZE, in_section i None ?st)"
    using goes_to_probed [OF assms(1,2)] assms(3) by simp
  ultimately show ?thesis by (blast intro: goes_trans)
qed

lemma goes_section:
  assumes "is_rm_state s" "current_state st \<noteq> word_of_int s"
  shows "goes (advance i e) (S_lock s, unlocked st) (Done 0, unlocked (switch_state e s st))"
proof -
  have "goes (advance i e) (S_lock s, unlocked st) (S_unlock 0, in_section i None (switch_state e s st))"
  proof (cases "enabling s")
    case True
    then show ?thesis using enabling_mask [OF assms(1)]
      by (intro goes_trans [OF goes_to_probed [OF assms] goes_one]) (simp add: switch_state_def)
  next
    case False
    then have "goes (advance i e) (S_restore [], in_section i (Some i) (switch_state e s st))
        (S_unlock 0, in_section i None (switch_state e s st))"
      by (intro goes_two [where p' = S_grace and s' = "in_section i (Some i) (switch_state e s st)"])
         (simp_all add: start_grace_def)
    with goes_to_grace [OF assms False] show ?thesis by (rule goes_trans)
  qed
  moreover have "goes (advance i e) (S_unlock 0, in_section i None (switch_state e s st)) (Done 0, unlocked (switch_state e s st))"
    by (rule goes_one) (simp add: unlocked_def preempt_defs)
  ultimately show ?thesis by (rule goes_trans)
qed

text \<open>The value of an operation as the end of a thread.\<close>

definition outcome :: "rm_state \<Rightarrow> (int \<times> rm_state) option \<Rightarrow> pc \<times> shared" where
  "outcome st x = (case x of None \<Rightarrow> (Fault, unlocked st) | Some (r, st') \<Rightarrow> (Done r, unlocked st'))"

lemma outcome_simps [simp]:
  "outcome st None = (Fault, unlocked st)" "outcome st (Some (r, st')) = (Done r, unlocked st')"
  by (simp_all add: outcome_def)

lemma goes_change_state: "goes (advance i e) (S_check pw s, unlocked st) (outcome st (do_change_state e st pw s))"
proof (cases "euid e = admin st \<and> pw \<noteq> None \<and> is_rm_state s")
  case False
  then show ?thesis by (intro goes_one) (auto simp: do_change_state_def is_rm_state_def)
next
  case True
  then have first: "goes (advance i e) (S_check pw s, unlocked st) (S_pwd pw s, unlocked st)"
    by (intro goes_one) (auto simp: is_rm_state_def)
  show ?thesis
  proof (cases "check_pwd e st pw")
    case None
    with True have "do_change_state e st pw s = None" by (auto simp: do_change_state_def is_rm_state_def)
    with None show ?thesis by (intro goes_trans [OF first goes_one]) simp
  next
    case (Some c)
    note eq = do_change_state_eq [OF Some]
    show ?thesis
    proof (cases "c = 0")
      case False
      with True Some show ?thesis by (intro goes_trans [OF first goes_one]) (simp add: eq)
    next
      case c: True
      with Some have "goes (advance i e) (S_pwd pw s, unlocked st) (S_lock s, unlocked st)" by (intro goes_one) simp
      with first have two: "goes (advance i e) (S_check pw s, unlocked st) (S_lock s, unlocked st)" by (rule goes_trans)
      show ?thesis
      proof (cases "current_state st = word_of_int s")
        case False
        with True c show ?thesis using goes_trans [OF two goes_section] by (auto simp: eq)
      next
        case same: True
        have "goes (advance i e) (S_lock s, unlocked st) (Done (- ECANCELED), unlocked st)"
        proof -
          let ?sh = "in_section i None st"
          have "goes (advance i e) (S_lock s, unlocked st) (S_unlock (- ECANCELED), ?sh)"
            using same by (intro goes_two [where p' = "S_state s" and s' = ?sh]) (simp_all add: unlocked_def preempt_defs)
          moreover have "goes (advance i e) (S_unlock (- ECANCELED), ?sh) (Done (- ECANCELED), unlocked st)"
            by (rule goes_one) (simp add: unlocked_def preempt_defs)
          ultimately show ?thesis by (rule goes_trans)
        qed
        from goes_trans [OF two this] show ?thesis using True c same by (auto simp: eq)
      qed
    qed
  qed
qed

lemma goes_change_password: "goes (advance i e) (W_check old new, unlocked st) (outcome st (do_change_password e st old new))"
proof (cases "\<exists>p q. euid e = admin st \<and> old = Some p \<and> new = Some q \<and> 8 < length q \<and> strcmp p q \<noteq> 0")
  case False
  then show ?thesis by (intro goes_one) (auto simp: do_change_password_def split: option.split)
next
  case True
  then obtain p q where *: "euid e = admin st" "old = Some p" "new = Some q" "8 < length q" "strcmp p q \<noteq> 0" by blast
  then have "goes (advance i e) (W_check old new, unlocked st) (W_pwd p q, unlocked st)" by (intro goes_one) simp
  moreover have "goes (advance i e) (W_pwd p q, unlocked st) (outcome st (do_change_password e st old new))"
  proof (cases "check_pwd e st (Some p) = Some 0")
    case False
    with * show ?thesis by (intro goes_one) (auto simp: do_change_password_def split: option.split)
  next
    case True
    then have "goes (advance i e) (W_pwd p q, unlocked st) (W_hash q, unlocked st)" by (intro goes_one) simp
    moreover have "goes (advance i e) (W_hash q, unlocked st) (outcome st (do_change_password e st old new))"
    proof (cases "\<exists>tmp. hash_plaintext e (Some (salt st)) (Some (replicate DIGEST_SIZE NUL)) (Some q) = Some (Inr tmp)")
      case False
      with * True show ?thesis
        by (intro goes_one) (auto simp: do_change_password_def split: option.split sum.split)
    next
      case hash: True
      with * True show ?thesis by (auto simp: do_change_password_def intro: goes_two)
    qed
    ultimately show ?thesis by (rule goes_trans)
  qed
  ultimately show ?thesis by (rule goes_trans)
qed

lemma goes_add: "goes (advance i e) (A_lookup p d, unlocked st) (outcome st (Some (add_path e (Some p) d st)))"
proof (cases "is_path_in st (Some p) = 0")
  case True
  then show ?thesis by (intro goes_one) (simp add: add_path_def)
next
  case False
  then have "goes (advance i e) (A_lookup p d, unlocked st) (A_entry p d, unlocked st)" by (intro goes_one) simp
  moreover have "goes (advance i e) (A_entry p d, unlocked st) (outcome st (Some (add_path e (Some p) d st)))"
  proof (cases "uninit e V_add_path_err = 0 \<and> alloc_ok e A_restrict_entry \<and> alloc_ok e A_restrict_path \<and> d_inode e d \<noteq> None")
    case True
    then obtain k where "d_inode e d = Some k" by blast
    with True False show ?thesis
      by (intro goes_two [where p' = "A_insert \<lparr>entry_path = p, entry_i_ino = i_ino (inodes st k),
            o_mode = ucast (i_mode (inodes st k)), o_flags = i_flags (inodes st k)\<rparr>" and s' = "unlocked st"])
         (simp_all add: add_path_def Let_def)
  next
    case failed: False
    with False show ?thesis by (intro goes_one) (auto simp: add_path_def split: option.split)
  qed
  ultimately show ?thesis by (rule goes_trans)
qed

lemma goes_del: "goes (advance i e) (D_delete p, unlocked st) (outcome st (Some (del_path e (Some p) st)))"
proof -
  obtain r st' where del: "del_path e (Some p) st = (r, st')" by fastforce
  show ?thesis
  proof (cases "uninit e V_del_path_err = 0 \<and> list_ex (\<lambda>x. strncmp p (entry_path x) (length p) = 0) (restrict_path_list st)")
    case True
    let ?sh = "\<lparr>rmst = st', state_lock = None, list_lock = Some i, nopreempt = {i}, grace = {}\<rparr>"
    from True del show ?thesis
      by (intro goes_two [where p' = "D_grace r" and s' = ?sh]) (simp_all add: preempt_defs unlocked_def)
  next
    case False
    with del show ?thesis by (intro goes_one) (auto simp: del_path_def)
  qed
qed

lemma goes_change_path: "goes (advance i e) (P_check pw pb op, unlocked st) (outcome st (do_change_path e st pw pb op))"
proof (cases "\<exists>b. euid e = admin st \<and> pb = Some b \<and> (op = ADD_PATH \<or> op = REMOVE_PATH)")
  case False
  then show ?thesis by (intro goes_one) (cases pb, auto simp: do_change_path_def)
next
  case True
  then obtain b where *: "euid e = admin st" "pb = Some b" "op = ADD_PATH \<or> op = REMOVE_PATH" by blast
  then have "goes (advance i e) (P_check pw pb op, unlocked st) (P_pwd pw b op, unlocked st)" by (intro goes_one) auto
  moreover have "goes (advance i e) (P_pwd pw b op, unlocked st) (outcome st (do_change_path e st pw pb op))"
  proof (cases "check_pwd e st pw = Some 0 \<and> (current_state st = word_of_int REC_OFF \<or> current_state st = word_of_int REC_ON)")
    case False
    show ?thesis
    proof (cases "check_pwd e st pw = Some 0")
      case True
      with * False show ?thesis by (intro goes_two [where p' = "P_state b op"]) (auto simp: do_change_path_def)
    next
      case wrong: False
      with * show ?thesis by (intro goes_one) (auto simp: do_change_path_def split: option.split)
    qed
  next
    case rec: True
    then have "goes (advance i e) (P_pwd pw b op, unlocked st) (P_resolve b op, unlocked st)"
      by (intro goes_two [where p' = "P_state b op"]) auto
    moreover have "goes (advance i e) (P_resolve b op, unlocked st) (outcome st (do_change_path e st pw pb op))"
    proof (cases "\<exists>b' d. fill_absolute_path e (Some b) = Some (0, b') \<and> forbitten_path st (Some (cstr b')) = 0 \<and> kern_path e (cstr b') = Inr d")
      case False
      with * rec show ?thesis
        by (intro goes_one) (auto simp: do_change_path_def split: option.split prod.split sum.split)
    next
      case True
      then obtain b' d where r: "fill_absolute_path e (Some b) = Some (0, b')" "forbitten_path st (Some (cstr b')) = 0"
        "kern_path e (cstr b') = Inr d" by blast
      have masks: "(0x10::int) AND 0x20 = 0" "(0x20::int) AND 0x10 = 0" by simp_all
      from *(3) show ?thesis
      proof
        assume op: "op = ADD_PATH"
        then have "advance i e (P_resolve b op) (unlocked st) = Some (A_lookup (cstr b') d, unlocked st)"
          using r by simp
        moreover have "do_change_path e st pw pb op = Some (add_path e (Some (cstr b')) d st)"
          using op * rec r masks by (cases "add_path e (Some (cstr b')) d st") (auto simp: do_change_path_def)
        ultimately show ?thesis
          using goes_trans [OF goes_one goes_add] by simp
      next
        assume op: "op = REMOVE_PATH"
        then have "advance i e (P_resolve b op) (unlocked st) = Some (D_delete (cstr b'), unlocked st)"
          using r masks by simp
        moreover have "do_change_path e st pw pb op = Some (del_path e (Some (cstr b')) st)"
          using op * rec r masks by (auto simp: do_change_path_def)
        ultimately show ?thesis
          using goes_trans [OF goes_one goes_del] by simp
      qed
    qed
    ultimately show ?thesis by (rule goes_trans)
  qed
  ultimately show ?thesis by (rule goes_trans)
qed

lemma goes_perform: "goes (advance i e) (entry_pc q, unlocked st) (outcome st (perform e q st))"
  by (cases q) (simp_all add: goes_change_state goes_change_path goes_change_password)

section \<open>The invariant of the locks\<close>

fun in_state :: "pc \<Rightarrow> bool" where
  "in_state (S_state s) = True"
| "in_state (S_probe s k) = True"
| "in_state S_list_lock = True"
| "in_state (S_restore es) = True"
| "in_state S_grace = True"
| "in_state (S_unlock r) = True"
| "in_state _ = False"

fun in_list :: "pc \<Rightarrow> bool" where
  "in_list (S_restore es) = True"
| "in_list S_grace = True"
| "in_list (D_grace r) = True"
| "in_list _ = False"

text \<open>The state is one of the four and the probes are armed accordingly.\<close>

definition agrees :: "rm_state \<Rightarrow> bool" where
  "agrees st = (\<exists>s. is_rm_state s \<and> current_state st = word_of_int s \<and> (\<forall>p \<in> set (probes st). enabled p = enabling s))"

definition permitted :: "rm_state \<Rightarrow> string \<Rightarrow> bool" where
  "permitted st p = (NUL \<notin> set p \<and> forbitten_path st (Some p) = 0)"

fun pc_ok :: "rm_state \<Rightarrow> pc \<Rightarrow> bool" where
  "pc_ok st (S_pwd pw s) = is_rm_state s"
| "pc_ok st (S_lock s) = is_rm_state s"
| "pc_ok st (S_state s) = (is_rm_state s \<and> agrees st)"
| "pc_ok st (S_probe s k) = (is_rm_state s \<and> current_state st = word_of_int s \<and> k \<le> HOOKS_SIZE \<and>
     (\<forall>j < k. enabled (probes st ! j) = enabling s))"
| "pc_ok st S_list_lock = agrees st"
| "pc_ok st (S_restore es) = agrees st"
| "pc_ok st S_grace = agrees st"
| "pc_ok st (S_unlock r) = agrees st"
| "pc_ok st (A_lookup p d) = permitted st p"
| "pc_ok st (A_entry p d) = permitted st p"
| "pc_ok st (A_insert x) = permitted st (entry_path x)"
| "pc_ok st _ = True"

definition data_ok :: "rm_state \<Rightarrow> bool" where
  "data_ok st = (length (probes st) = HOOKS_SIZE \<and> (\<forall>p \<in> set (restricted st). permitted st p))"

lemma agrees_cong: "current_state st' = current_state st \<Longrightarrow> probes st' = probes st \<Longrightarrow> agrees st' = agrees st"
  by (simp add: agrees_def)

lemma permitted_cong: "single_file_name st' = single_file_name st \<Longrightarrow> permitted st' = permitted st"
  by (rule ext) (simp add: permitted_def forbitten_path_cong [of st' st])

lemma pc_ok_cong:
  assumes "single_file_name st' = single_file_name st"
    and "in_state p \<Longrightarrow> current_state st' = current_state st \<and> probes st' = probes st"
  shows "pc_ok st' p = pc_ok st p"
  using assms agrees_cong [of st' st] permitted_cong [OF assms(1)] by (cases p) simp_all

lemma data_ok_cong:
  "single_file_name st' = single_file_name st \<Longrightarrow> probes st' = probes st \<Longrightarrow>
     set (restricted st') \<subseteq> set (restricted st) \<Longrightarrow> data_ok st \<Longrightarrow> data_ok st'"
  using permitted_cong [of st' st] unfolding data_ok_def by auto

lemma advance_names: "advance i e p sh = Some (p', sh') \<Longrightarrow> single_file_name (rmst sh') = single_file_name (rmst sh)"
  by (cases p) (auto simp: Let_def set_probe_def rm_frame split: if_splits list.splits prod.splits)

lemma advance_frame:
  "advance i e p sh = Some (p', sh') \<Longrightarrow> \<not> in_state p \<Longrightarrow>
     current_state (rmst sh') = current_state (rmst sh) \<and> probes (rmst sh') = probes (rmst sh)"
  by (cases p) (auto simp: rm_frame split: if_splits prod.splits)

lemma advance_locks:
  assumes "advance i e p sh = Some (p', sh')" "(state_lock sh = Some i) = in_state p" "(list_lock sh = Some i) = in_list p"
  shows "(state_lock sh' = Some i) = in_state p'" "(list_lock sh' = Some i) = in_list p'"
    "j \<noteq> i \<Longrightarrow> (state_lock sh' = Some j) = (state_lock sh = Some j)"
    "j \<noteq> i \<Longrightarrow> (list_lock sh' = Some j) = (list_lock sh = Some j)"
  by (use assms in \<open>cases p; force simp: Let_def split: if_splits list.splits prod.splits option.splits sum.splits\<close>)+

lemma agrees_probed:
  assumes "pc_ok st (S_probe s HOOKS_SIZE)" "data_ok st"
  shows "agrees st"
  unfolding agrees_def using assms by (intro exI [of _ s]) (auto simp: data_ok_def in_set_conv_nth)

lemma set_probe_ok:
  assumes "pc_ok st (S_probe s k)" "data_ok st" "k < HOOKS_SIZE"
  shows "pc_ok (set_probe (enabling s) k st) (S_probe s (Suc k)) \<and> data_ok (set_probe (enabling s) k st)"
proof -
  have "permitted (set_probe (enabling s) k st) = permitted st"
    by (rule permitted_cong) (simp add: set_probe_def)
  with assms show ?thesis
    by (auto simp: data_ok_def set_probe_def nth_list_update less_Suc_eq)
qed

lemma switch_entered:
  assumes "is_rm_state s" "data_ok st"
  shows "pc_ok (st\<lparr>current_state := word_of_int s\<rparr>) (S_probe s 0) \<and> data_ok (st\<lparr>current_state := word_of_int s\<rparr>)"
  using assms data_ok_cong [of "st\<lparr>current_state := word_of_int s\<rparr>" st] by simp

lemma del_path_data:
  assumes "del_path e (Some p) st = (r, st')" "data_ok st"
  shows "data_ok st'"
proof -
  have "set (restricted st') \<subseteq> set (restricted st)"
    using set_subseq_subset [OF conjunct1 [OF del_path_subseq [OF assms(1)]]] by (rule subsetI)
  from data_ok_cong [OF del_path_frame(5,6) [OF assms(1)] this assms(2)] show ?thesis .
qed

lemma insert_data:
  assumes "permitted st (entry_path x)" "data_ok st"
  shows "data_ok (st\<lparr>restrict_path_list := x # restrict_path_list st\<rparr>)"
  using assms permitted_cong [of "st\<lparr>restrict_path_list := x # restrict_path_list st\<rparr>" st] by (simp add: data_ok_def)

lemma advance_ok:
  assumes "advance i e p sh = Some (p', sh')" "pc_ok (rmst sh) p" "data_ok (rmst sh)"
    and "state_lock sh = None \<Longrightarrow> agrees (rmst sh)"
  shows "pc_ok (rmst sh') p' \<and> data_ok (rmst sh')"
proof (cases p)
  case (S_probe s k)
  have on: "(current_state (rmst sh) AND word_of_int REC_ON \<noteq> 0 \<or> current_state (rmst sh) AND word_of_int ON \<noteq> 0) = enabling s"
    using assms(2) enabling_mask [of s] S_probe by simp
  show ?thesis
  proof (cases "k < HOOKS_SIZE")
    case True
    with assms(1) S_probe on have "p' = S_probe s (Suc k)" "rmst sh' = set_probe (enabling s) k (rmst sh)"
      by (auto simp: Let_def)
    with set_probe_ok [of "rmst sh" s k] assms(2,3) S_probe True show ?thesis by simp
  next
    case False
    with assms(2) S_probe have "k = HOOKS_SIZE" by simp
    with agrees_probed [of "rmst sh" s] assms(1-3) S_probe show ?thesis by (auto simp: Let_def split: if_splits)
  qed
next
  case (S_state s)
  then show ?thesis using assms(1-3) switch_entered [of s "rmst sh"] by (auto split: if_splits)
next
  case (S_restore es)
  then show ?thesis
    using assms(1-3) agrees_cong [of "rmst sh'" "rmst sh"] data_ok_cong [of "rmst sh'" "rmst sh"]
    by (auto split: list.splits)
next
  case (A_insert x)
  then show ?thesis using assms(1-3) insert_data [of "rmst sh" x] by (auto split: if_splits)
next
  case (D_delete q)
  then show ?thesis using assms(1-3) del_path_data [of e q "rmst sh"] by (auto split: if_splits prod.splits)
next
  case (W_store tmp)
  then show ?thesis using assms(1-3) data_ok_cong [of "rmst sh'" "rmst sh"] by auto
qed (use assms in \<open>auto simp: is_rm_state_def permitted_def Let_def split: if_splits option.splits prod.splits sum.splits\<close>)

definition pool_ok :: "tpool \<Rightarrow> bool" where
  "pool_ok c = (data_ok (rmst (mem c)) \<and> (state_lock (mem c) = None \<longrightarrow> agrees (rmst (mem c))) \<and>
     (\<forall>i. state_lock (mem c) = Some i \<longleftrightarrow> i < length (thr c) \<and> in_state (snd (thr c ! i))) \<and>
     (\<forall>i. list_lock (mem c) = Some i \<longleftrightarrow> i < length (thr c) \<and> in_list (snd (thr c ! i))) \<and>
     (\<forall>i < length (thr c). pc_ok (rmst (mem c)) (snd (thr c ! i))))"

lemma turn_ok:
  assumes "i < length (thr c)" "thr c ! i = (e, p)" "advance i e p (mem c) = Some (p', sh)" "pool_ok c"
  shows "pool_ok (c\<lparr>mem := sh, thr := (thr c)[i := (e, p')]\<rparr>)"
proof -
  have own: "(state_lock (mem c) = Some i) = in_state p" "(list_lock (mem c) = Some i) = in_list p" "pc_ok (rmst (mem c)) p"
    using assms(1,2,4) by (auto simp: pool_ok_def)
  note locks = advance_locks [OF assms(3) own(1,2)]
  have ok: "pc_ok (rmst sh) p'" "data_ok (rmst sh)"
    using advance_ok [OF assms(3) own(3)] assms(4) by (auto simp: pool_ok_def)
  have others: "pc_ok (rmst sh) (snd (thr c ! j)) = pc_ok (rmst (mem c)) (snd (thr c ! j))" if "j < length (thr c)" "j \<noteq> i" for j
  proof (rule pc_ok_cong [OF advance_names [OF assms(3)]])
    assume "in_state (snd (thr c ! j))"
    with that assms(4) have "state_lock (mem c) = Some j" by (auto simp: pool_ok_def)
    with that own(1) have "\<not> in_state p" by auto
    with advance_frame [OF assms(3)] show "current_state (rmst sh) = current_state (rmst (mem c)) \<and> probes (rmst sh) = probes (rmst (mem c))"
      by blast
  qed
  have "agrees (rmst sh)" if free: "state_lock sh = None"
  proof (cases "in_state p")
    case True
    then have "\<not> in_state p'" using free locks(1) by simp
    with True assms(3) have "\<exists>r. p = S_unlock r" by (cases p) (auto simp: Let_def split: if_splits list.splits)
    with assms(3) own(3) show ?thesis by auto
  next
    case False
    then have "state_lock (mem c) = None" using locks(3) own(1) free by (metis not_None_eq)
    then show ?thesis
      using agrees_cong [of "rmst sh" "rmst (mem c)"] advance_frame [OF assms(3) False] assms(4) by (simp add: pool_ok_def)
  qed
  moreover have "(state_lock sh = Some j) = (j < length (thr c) \<and> in_state (snd ((thr c)[i := (e, p')] ! j)))"
    "(list_lock sh = Some j) = (j < length (thr c) \<and> in_list (snd ((thr c)[i := (e, p')] ! j)))" for j
    using locks(1,2) locks(3,4) [of j] assms(1,4) by (cases "j = i"; simp add: pool_ok_def)+
  moreover have "pc_ok (rmst sh) (snd ((thr c)[i := (e, p')] ! j))" if "j < length (thr c)" for j
    using ok(1) others [OF that] that assms(4) by (cases "j = i") (simp_all add: pool_ok_def)
  ultimately show ?thesis using ok(2) by (simp add: pool_ok_def)
qed

lemma file_call_effect: "file_call orig e f st = Some (r, st') \<Longrightarrow> hook_effect e st st'"
  by (cases f) (auto dest: hooked_effects)

lemma tstep_ok:
  assumes "tstep c l c'" "pool_ok c"
  shows "pool_ok c'"
  using assms(1)
proof cases
  case (tstep_turn i e p p' sh)
  with turn_ok [OF tstep_turn(3-5) assms(2)] show ?thesis by simp
next
  case (tstep_file orig e f r st)
  note f = hook_effect_frame [OF file_call_effect [OF tstep_file(3)]]
  have "pc_ok st p = pc_ok (rmst (mem c)) p" for p by (rule pc_ok_cong) (simp_all add: f)
  moreover have "data_ok (rmst (mem c)) \<Longrightarrow> data_ok st" by (rule data_ok_cong [OF f(5,7)]) (simp add: f(6))
  ultimately show ?thesis
    using assms(2) agrees_cong [OF f(4,7)] by (simp add: pool_ok_def tstep_file(2))
qed

interpretation threads: stepwise tstep "\<lambda>_. True" pool_ok "\<lambda>c c'. length (thr c') = length (thr c)"
  by unfold_locales (use tstep_ok in \<open>auto elim: tstep.cases\<close>)

lemma launch_ok:
  assumes "wf_rm st"
  shows "pool_ok (launch st reqs)"
proof -
  have "\<not> in_state (entry_pc q) \<and> \<not> in_list (entry_pc q) \<and> pc_ok st (entry_pc q)" for q by (cases q) simp_all
  moreover have "data_ok st" "agrees st"
    using assms by (auto simp: wf_rm_def wf_list_def data_ok_def permitted_def agrees_def)
  ultimately show ?thesis by (auto simp: pool_ok_def launch_def split: prod.splits)
qed

section \<open>Who cannot be preempted\<close>

definition waits_rcu :: "pc \<Rightarrow> bool" where
  "waits_rcu p = (case p of S_grace \<Rightarrow> True | D_grace _ \<Rightarrow> True | _ \<Rightarrow> False)"

lemma waits_rcu_simps [simp]: "waits_rcu S_grace" "waits_rcu (D_grace r)"
  by (simp_all add: waits_rcu_def)

text \<open>Where a thread may hold a lock or spin on one.\<close>

fun at_lock :: "kenv \<Rightarrow> pc \<Rightarrow> bool" where
  "at_lock e (S_lock s) = True"
| "at_lock e (P_state b op) = True"
| "at_lock e (A_insert x) = True"
| "at_lock e (D_delete p) = (uninit e V_del_path_err = 0)"
| "at_lock e (D_grace r) = True"
| "at_lock e p = in_state p"

definition preempt_ok :: "tpool \<Rightarrow> bool" where
  "preempt_ok c = (grace (mem c) \<subseteq> nopreempt (mem c) \<and>
     (\<forall>i \<in> nopreempt (mem c). i < length (thr c) \<and> at_lock (fst (thr c ! i)) (snd (thr c ! i))) \<and>
     (\<forall>i < length (thr c). waits_rcu (snd (thr c ! i)) \<longrightarrow> i \<notin> grace (mem c)))"

lemma advance_preempt:
  assumes "advance i e p sh = Some (p', sh')"
  shows "nopreempt sh' - {i} = nopreempt sh - {i}"
    and "grace sh \<subseteq> nopreempt sh \<Longrightarrow> grace sh' \<subseteq> nopreempt sh'"
    and "i \<in> nopreempt sh' \<Longrightarrow> i \<in> nopreempt sh \<longrightarrow> at_lock e p \<Longrightarrow> at_lock e p'"
    and "waits_rcu p' \<Longrightarrow> i \<notin> grace sh'"
    and "grace sh' \<subseteq> grace sh \<or> list_lock sh = None \<or> in_list p"
  by (use assms in \<open>cases p; force simp: Let_def preempt_defs waits_rcu_def split: if_splits list.splits prod.splits option.splits sum.splits\<close>)+

lemma turn_preempt:
  assumes "i < length (thr c)" "thr c ! i = (e, p)" "advance i e p (mem c) = Some (p', sh)" "pool_ok c" "preempt_ok c"
  shows "preempt_ok (c\<lparr>mem := sh, thr := (thr c)[i := (e, p')]\<rparr>)"
proof -
  note adv = advance_preempt [OF assms(3)]
  have old: "grace (mem c) \<subseteq> nopreempt (mem c)" "i \<in> nopreempt (mem c) \<longrightarrow> at_lock e p"
    using assms(1,2,5) by (auto simp: preempt_ok_def)
  have "j < length (thr c) \<and> at_lock (fst ((thr c)[i := (e, p')] ! j)) (snd ((thr c)[i := (e, p')] ! j))" if "j \<in> nopreempt sh" for j
  proof (cases "j = i")
    case True
    with adv(3) that old(2) assms(1) show ?thesis by simp
  next
    case False
    with adv(1) that have "j \<in> nopreempt (mem c)" by blast
    with False assms(5) show ?thesis by (simp add: preempt_ok_def)
  qed
  moreover have "j \<notin> grace sh" if "j < length (thr c)" "waits_rcu (snd ((thr c)[i := (e, p')] ! j))" for j
  proof (cases "j = i")
    case True
    with adv(4) that assms(1) show ?thesis by simp
  next
    case False
    with that have j: "waits_rcu (snd (thr c ! j))" by simp
    then have "in_list (snd (thr c ! j))" by (cases "snd (thr c ! j)") (simp_all add: waits_rcu_def)
    with that(1) assms(4) have "list_lock (mem c) = Some j" by (auto simp: pool_ok_def)
    then have "list_lock (mem c) \<noteq> None" "\<not> in_list p" using False assms(1,2,4) by (auto simp: pool_ok_def)
    with adv(5) have "grace sh \<subseteq> grace (mem c)" by blast
    with j that(1) assms(5) show ?thesis by (auto simp: preempt_ok_def)
  qed
  ultimately show ?thesis using adv(2) [OF old(1)] by (simp add: preempt_ok_def)
qed

lemma tstep_preempt:
  assumes "tstep c l c'" "pool_ok c" "preempt_ok c"
  shows "preempt_ok c'"
  using assms(1)
proof cases
  case (tstep_turn i e p p' sh)
  with turn_preempt [OF tstep_turn(3-5) assms(2,3)] show ?thesis by simp
next
  case (tstep_file orig e f r st)
  with assms(3) show ?thesis by (simp add: preempt_ok_def)
qed

interpretation preemption: stepwise tstep "\<lambda>_. True" "\<lambda>c. pool_ok c \<and> preempt_ok c" "\<lambda>_ _. True"
  by unfold_locales (use tstep_ok tstep_preempt in blast)+

lemma launch_preempt: "preempt_ok (launch st reqs)"
proof -
  have "\<not> waits_rcu (entry_pc q)" for q by (cases q) (simp_all add: waits_rcu_def)
  then show ?thesis by (auto simp: preempt_ok_def launch_def split: prod.splits)
qed

section \<open>Progress\<close>

text \<open>
  A thread waits for a lock or for the end of a grace period. The locks are taken in one order, so
  that only the wait for a grace period, which comes with the lock of the list held, can stop all.
\<close>

lemma advance_in_list: "advance i e p sh = None \<Longrightarrow> in_list p \<Longrightarrow> waits_rcu p \<and> grace sh \<noteq> {}"
  by (cases p) (auto split: if_splits)

lemma advance_unlocked:
  "advance i e p sh = None \<Longrightarrow> list_lock sh = None \<Longrightarrow> \<not> in_list p \<Longrightarrow> state_lock sh = None \<or> in_state p \<Longrightarrow> finished p"
  by (cases p) (auto simp: Let_def split: if_splits prod.splits)

lemma stuck_in_grace:
  assumes "pool_ok c" "i < length (thr c)" "\<not> finished (snd (thr c ! i))" "\<nexists>j c'. tstep c (Turn j) c'"
  shows "\<exists>j < length (thr c). waits_rcu (snd (thr c ! j)) \<and> grace (mem c) \<noteq> {}"
proof -
  have stuck: "advance j (fst (thr c ! j)) (snd (thr c ! j)) (mem c) = None" if "j < length (thr c)" for j
  proof (rule ccontr)
    assume "advance j (fst (thr c ! j)) (snd (thr c ! j)) (mem c) \<noteq> None"
    then obtain p' sh where "advance j (fst (thr c ! j)) (snd (thr c ! j)) (mem c) = Some (p', sh)" by auto
    from tstep_turn [OF that prod.collapse [symmetric] this] assms(4) show False by blast
  qed
  show ?thesis
  proof (cases "list_lock (mem c)")
    case (Some k)
    then have "k < length (thr c)" "in_list (snd (thr c ! k))" using assms(1) by (auto simp: pool_ok_def)
    with advance_in_list [OF stuck] show ?thesis by blast
  next
    case None
    then have free: "\<not> in_list (snd (thr c ! j))" if "j < length (thr c)" for j
      using assms(1) that by (metis pool_ok_def option.distinct(1))
    have fin: "finished (snd (thr c ! j))" if "j < length (thr c)" "state_lock (mem c) = None \<or> in_state (snd (thr c ! j))" for j
      by (rule advance_unlocked [OF stuck [OF that(1)] None free [OF that(1)] that(2)])
    have "\<not> finished p" if "in_state p" for p using that by (cases p) (simp_all add: finished_def)
    then have "\<not> in_state (snd (thr c ! j))" if "j < length (thr c)" for j using fin that by blast
    then have "state_lock (mem c) = None" using assms(1) unfolding pool_ok_def by (metis not_None_eq)
    with fin assms(2,3) show ?thesis by blast
  qed
qed

text \<open>The threads that never come to a wait for a grace period.\<close>

fun calm :: "pc \<Rightarrow> bool" where
  "calm (S_check pw s) = (s \<noteq> OFF \<and> s \<noteq> REC_OFF)"
| "calm (S_pwd pw s) = enabling s"
| "calm (S_lock s) = enabling s"
| "calm (S_state s) = enabling s"
| "calm (S_probe s k) = enabling s"
| "calm S_list_lock = False"
| "calm (S_restore es) = False"
| "calm S_grace = False"
| "calm (P_check pw pb op) = (op \<noteq> REMOVE_PATH)"
| "calm (P_pwd pw b op) = (op = ADD_PATH)"
| "calm (P_state b op) = (op = ADD_PATH)"
| "calm (P_resolve b op) = (op = ADD_PATH)"
| "calm (D_delete p) = False"
| "calm (D_grace r) = False"
| "calm _ = True"

lemma advance_calm:
  assumes "advance i e p sh = Some (p', sh')" "pc_ok (rmst sh) p" "calm p"
  shows "calm p'"
proof (cases p)
  case (S_probe s k)
  with assms enabling_mask [of s] show ?thesis by (auto simp: Let_def split: if_splits)
next
  case (P_resolve b op)
  with assms show ?thesis by (auto split: if_splits option.splits prod.splits sum.splits)
qed (use assms in \<open>auto simp: enabling_def Let_def split: if_splits option.splits prod.splits sum.splits\<close>)

lemma tstep_calm:
  assumes "tstep c l c'" "pool_ok c" "\<forall>x \<in> set (thr c). calm (snd x)"
  shows "\<forall>x \<in> set (thr c'). calm (snd x)"
  using assms(1)
proof cases
  case (tstep_turn i e p p' sh)
  have "pc_ok (rmst (mem c)) p" using assms(2) tstep_turn(3,4) by (auto simp: pool_ok_def)
  moreover have "calm p" using assms(3) nth_mem [OF tstep_turn(3)] tstep_turn(4) by force
  ultimately have "calm p'" by (rule advance_calm [OF tstep_turn(5)])
  with assms(3) show ?thesis
    using set_update_subset_insert [of "thr c" i "(e, p')"] by (auto simp: tstep_turn(2))
qed (use assms(3) in auto)

interpretation calmness: stepwise tstep "\<lambda>_. True" "\<lambda>c. pool_ok c \<and> (\<forall>x \<in> set (thr c). calm (snd x))" "\<lambda>_ _. True"
  by unfold_locales (use tstep_ok tstep_calm in blast)+

lemma calm_waits: "calm p \<Longrightarrow> \<not> waits_rcu p"
  by (cases p) (simp_all add: waits_rcu_def)

section \<open>Termination\<close>

text \<open>
  How many steps a thread still has to take at most, if the list never gets longer than \<open>n\<close>. A thread
  that may still insert counts for one place of the list.
\<close>

fun todo :: "nat \<Rightarrow> pc \<Rightarrow> nat" where
  "todo n (S_check pw s) = 13 + n"
| "todo n (S_pwd pw s) = 12 + n"
| "todo n (S_lock s) = 11 + n"
| "todo n (S_state s) = 10 + n"
| "todo n (S_probe s k) = 5 + n + (HOOKS_SIZE - k)"
| "todo n S_list_lock = 4 + n"
| "todo n (S_restore es) = 3 + length es"
| "todo n S_grace = 2"
| "todo n (S_unlock r) = 1"
| "todo n (P_check pw pb op) = 7"
| "todo n (P_pwd pw b op) = 6"
| "todo n (P_state b op) = 5"
| "todo n (P_resolve b op) = 4"
| "todo n (A_lookup p d) = 3"
| "todo n (A_entry p d) = 2"
| "todo n (A_insert x) = 1"
| "todo n (D_delete p) = 2"
| "todo n (D_grace r) = 1"
| "todo n (W_check old new) = 4"
| "todo n (W_pwd p q) = 3"
| "todo n (W_hash q) = 2"
| "todo n (W_store tmp) = 1"
| "todo n (Done r) = 0"
| "todo n Fault = 0"

fun may_insert :: "pc \<Rightarrow> nat" where
  "may_insert (P_check pw pb op) = 1"
| "may_insert (P_pwd pw b op) = 1"
| "may_insert (P_state b op) = 1"
| "may_insert (P_resolve b op) = 1"
| "may_insert (A_lookup p d) = 1"
| "may_insert (A_entry p d) = 1"
| "may_insert (A_insert x) = 1"
| "may_insert _ = 0"

definition room :: "tpool \<Rightarrow> nat" where
  "room c = length (restrict_path_list (rmst (mem c))) + (\<Sum>x \<leftarrow> thr c. may_insert (snd x))"

text \<open>The first try on a lock that is taken costs a step too, but no thread spins twice in a row.\<close>

definition work :: "tpool \<Rightarrow> nat" where
  "work c = 2 * (\<Sum>x \<leftarrow> thr c. todo (room c) (snd x)) + card {j. j < length (thr c) \<and> j \<notin> nopreempt (mem c)}"

lemma todo_mono: "m \<le> n \<Longrightarrow> todo m p \<le> todo n p"
  by (cases p) simp_all

lemma advance_room:
  "advance i e p sh = Some (p', sh') \<Longrightarrow>
     length (restrict_path_list (rmst sh')) + may_insert p' \<le> length (restrict_path_list (rmst sh)) + may_insert p"
  using del_path_subseq list_emb_length
  by (cases p) (fastforce simp: Let_def set_probe_def split: if_splits list.splits prod.splits option.splits sum.splits)+

lemma advance_todo:
  "advance i e p sh = Some (p', sh') \<Longrightarrow> length (restrict_path_list (rmst sh)) \<le> n \<Longrightarrow>
     todo n p' < todo n p \<or> p' = p \<and> i \<notin> nopreempt sh \<and> nopreempt sh' = insert i (nopreempt sh)"
  by (cases p) (auto simp: Let_def HOOKS_SIZE_def preempt_disable_def split: if_splits list.splits prod.splits option.splits sum.splits)

lemma sum_list_update:
  "i < length xs \<Longrightarrow> (\<Sum>x \<leftarrow> xs[i := y]. f x) + f (xs ! i) = (\<Sum>x \<leftarrow> xs. f x) + (f y :: nat)"
  by (induction xs arbitrary: i) (auto split: nat.splits)

lemma turn_work:
  assumes "tstep c (Turn i) c'"
  shows "work c' < work c"
proof -
  from assms obtain e p p' sh where t: "i < length (thr c)" "thr c ! i = (e, p)" "advance i e p (mem c) = Some (p', sh)"
    and c': "c' = c\<lparr>mem := sh, thr := (thr c)[i := (e, p')]\<rparr>" by (auto elim!: tstep_TurnE)
  have room: "room c' \<le> room c"
    using advance_room [OF t(3)] sum_list_update [OF t(1), where y = "(e, p')" and f = "\<lambda>x. may_insert (snd x)"]
    by (simp add: room_def c' t(2))
  let ?sum = "\<lambda>n ts. \<Sum>x \<leftarrow> ts. todo n (snd x)" and ?idle = "\<lambda>s. {j. j < length (thr c) \<and> j \<notin> nopreempt s}"
  have sum: "?sum (room c') (thr c') + todo (room c) p \<le> ?sum (room c) (thr c) + todo (room c) p'"
  proof -
    have "?sum (room c') (thr c') \<le> ?sum (room c) ((thr c)[i := (e, p')])"
      using room unfolding c' by (simp add: sum_list_mono todo_mono)
    then show ?thesis using sum_list_update [OF t(1), where y = "(e, p')" and f = "\<lambda>x. todo (room c) (snd x)"] by (simp add: t(2))
  qed
  have "length (restrict_path_list (rmst (mem c))) \<le> room c" by (simp add: room_def)
  from advance_todo [OF t(3) this] have "2 * ?sum (room c') (thr c') + card (?idle sh) < 2 * ?sum (room c) (thr c) + card (?idle (mem c))"
  proof
    assume "todo (room c) p' < todo (room c) p"
    moreover have "card (?idle sh) \<le> card (insert i (?idle (mem c)))"
      using advance_preempt(1) [OF t(3)] by (intro card_mono) auto
    moreover have "card (insert i (?idle (mem c))) \<le> Suc (card (?idle (mem c)))" by (rule card_insert_le_m1) simp_all
    ultimately show ?thesis using sum by linarith
  next
    assume spin: "p' = p \<and> i \<notin> nopreempt (mem c) \<and> nopreempt sh = insert i (nopreempt (mem c))"
    then have "?idle sh \<subset> ?idle (mem c)" using t(1) by auto
    then have "card (?idle sh) < card (?idle (mem c))" by (intro psubset_card_mono) simp_all
    with sum spin show ?thesis by simp
  qed
  then show ?thesis by (simp add: work_def c')
qed

lemma file_work: "tstep c (File e f r) c' \<Longrightarrow> work c' = work c"
  by (auto elim!: tstep_FileE dest!: file_call_effect hook_effect_frame(6) simp: work_def room_def)

definition is_turn :: "turn \<Rightarrow> bool" where
  "is_turn l = (case l of Turn _ \<Rightarrow> True | File _ _ _ \<Rightarrow> False)"

lemma run_work: "run tstep c ls c' \<Longrightarrow> length (filter is_turn ls) + work c' \<le> work c"
proof (induction rule: run.induct)
  case (run_Cons c l c1 ls c')
  then show ?case
    using turn_work [of c _ c1] file_work [of c _ _ _ c1] by (cases l) (fastforce simp: is_turn_def)+
qed simp

lemma launch_work:
  "work (launch st reqs) \<le> length reqs * (27 + 2 * (length (restrict_path_list st) + length reqs))"
proof -
  have m: "may_insert (entry_pc q) \<le> 1" for q by (cases q) simp_all
  have "(\<Sum>x \<leftarrow> thr (launch st reqs). may_insert (snd x)) \<le> length reqs"
    using sum_list_mono [of reqs "\<lambda>x. may_insert (entry_pc (snd x))" "\<lambda>_. 1"] m
    by (simp add: launch_def comp_def split_def sum_list_triv)
  then have r: "room (launch st reqs) \<le> length (restrict_path_list st) + length reqs"
    by (simp add: room_def) (simp add: launch_def)
  have t: "todo n (entry_pc q) \<le> 13 + n" for n q by (cases q) simp_all
  have "todo (room (launch st reqs)) (entry_pc q) \<le> 13 + length (restrict_path_list st) + length reqs" for q
    using t [of "room (launch st reqs)" q] r by simp
  then have "(\<Sum>x \<leftarrow> thr (launch st reqs). todo (room (launch st reqs)) (snd x))
      \<le> length reqs * (13 + length (restrict_path_list st) + length reqs)"
    using sum_list_mono [of reqs "\<lambda>x. todo (room (launch st reqs)) (entry_pc (snd x))"
        "\<lambda>_. 13 + length (restrict_path_list st) + length reqs"]
    by (simp add: launch_def comp_def split_def sum_list_triv)
  moreover have "card {j. j < length (thr (launch st reqs)) \<and> j \<notin> nopreempt (mem (launch st reqs))} = length reqs"
    by (simp add: launch_def)
  ultimately show ?thesis unfolding work_def by (simp add: algebra_simps)
qed


section \<open>A request on its way into the list\<close>

lemma goes_to_insert:
  assumes "vfs_ok e" "mem_ok e" "zeroed e" "euid e = admin st" "check_pwd e st pw = Some 0" "wf_list st"
    and "current_state st = word_of_int REC_ON \<or> current_state st = word_of_int REC_OFF"
    and "clean b" "lookup_name e (cstr b) = Some q" "kern_path e q = Inr d0"
    and "dentry_path_raw e d0 PATH_MAX = Inr full" "forbitten_path st (Some full) = 0" "kern_path e full = Inr d"
    and "d_inode e d = Some k" "full \<notin> set (restricted st)" "uninit e V_add_path_err = 0"
  shows "goes (advance i e) (entry_pc (ChangePath pw (Some b) ADD_PATH), unlocked st)
    (A_insert \<lparr>entry_path = full, entry_i_ino = i_ino (inodes st k), o_mode = ucast (i_mode (inodes st k)),
               o_flags = i_flags (inodes st k)\<rparr>, unlocked st)"
proof -
  have fill: "fill_absolute_path e (Some b) = Some (0, clean_buf full)"
    by (rule fill_absolute_path_found [OF assms(1,2,8-11)])
  have full: "NUL \<notin> set full" "cstr (clean_buf full) = full" using vfs_ok_rawD [OF assms(1,11)] by simp_all
  have out: "is_path_in st (Some full) \<noteq> 0"
    using path_in_loop_eq [OF full(1) wf_list_no_NUL [OF assms(6)]] assms(15) by (simp add: is_path_in_def)
  have "goes (advance i e) (P_check pw (Some b) ADD_PATH, unlocked st) (P_state b ADD_PATH, unlocked st)"
    using assms(4,5) by (intro goes_two [where p' = "P_pwd pw b ADD_PATH" and s' = "unlocked st"]) simp_all
  moreover have "goes (advance i e) (P_state b ADD_PATH, unlocked st) (A_lookup full d, unlocked st)"
    using assms(7,12,13) fill full by (intro goes_two [where p' = "P_resolve b ADD_PATH" and s' = "unlocked st"]) auto
  moreover have "goes (advance i e) (A_lookup full d, unlocked st)
      (A_insert \<lparr>entry_path = full, entry_i_ino = i_ino (inodes st k), o_mode = ucast (i_mode (inodes st k)),
                 o_flags = i_flags (inodes st k)\<rparr>, unlocked st)"
    using out assms(2,14,16) by (intro goes_two [where p' = "A_entry full d" and s' = "unlocked st"]) (simp_all add: Let_def)
  ultimately show ?thesis by (auto intro: goes_trans)
qed

section \<open>A grace period that never ends\<close>

text \<open>Once a thread waits for a grace period with both locks held and another spins on the lock of the state, nothing moves.\<close>

definition jammed :: "cbuf \<Rightarrow> int \<Rightarrow> tpool \<Rightarrow> bool" where
  "jammed b op c = (map snd (thr c) = [S_grace, P_state b op] \<and> state_lock (mem c) = Some 0 \<and> list_lock (mem c) = Some 0 \<and>
     nopreempt (mem c) = {0, 1} \<and> grace (mem c) = {1})"

lemma tstep_jammed:
  assumes "tstep c l c'" "jammed b op c"
  shows "jammed b op c' \<and> \<not> is_turn l"
  using assms(1)
proof cases
  case (tstep_turn i e p p' sh)
  have two: "map snd (thr c) = [S_grace, P_state b op]" using assms(2) by (simp add: jammed_def)
  have "i < 2" using arg_cong [OF two, of length] tstep_turn(3) by simp
  moreover have "p = [S_grace, P_state b op] ! i" using two tstep_turn(3,4) by (metis nth_map snd_conv)
  ultimately have "i = 0 \<and> p = S_grace \<or> i = 1 \<and> p = P_state b op" by (cases i) auto
  moreover have "state_lock (mem c) = Some 0" "nopreempt (mem c) = {0, 1}" "grace (mem c) = {1}"
    using assms(2) by (simp_all add: jammed_def)
  ultimately have "advance i e p (mem c) = None" by (elim disjE conjE) simp_all
  with tstep_turn(5) show ?thesis by simp
qed (use assms(2) in \<open>simp add: jammed_def is_turn_def\<close>)

lemma run_jammed: "run tstep c ls c' \<Longrightarrow> jammed b op c \<Longrightarrow> filter is_turn ls = [] \<and> jammed b op c'"
  by (induction rule: run.induct) (auto dest: tstep_jammed)

section \<open>What a request has been through before it changes the list\<close>

text \<open>\<open>H P\<close> reads: some state of the run so far satisfied \<open>P\<close>.\<close>

definition accepted :: "((tpool \<Rightarrow> bool) \<Rightarrow> bool) \<Rightarrow> 32 word \<Rightarrow> kenv \<Rightarrow> request \<Rightarrow> bool" where
  "accepted H a e q = (\<exists>pw b op. q = ChangePath pw (Some b) op \<and> euid e = a \<and> H (\<lambda>c. check_pwd e (rmst (mem c)) pw = Some 0))"

definition cleared :: "((tpool \<Rightarrow> bool) \<Rightarrow> bool) \<Rightarrow> 32 word \<Rightarrow> kenv \<Rightarrow> request \<Rightarrow> bool" where
  "cleared H a e q = (accepted H a e q \<and>
     H (\<lambda>c. current_state (rmst (mem c)) = word_of_int REC_OFF \<or> current_state (rmst (mem c)) = word_of_int REC_ON))"

fun earned :: "((tpool \<Rightarrow> bool) \<Rightarrow> bool) \<Rightarrow> 32 word \<Rightarrow> kenv \<Rightarrow> request \<Rightarrow> pc \<Rightarrow> bool" where
  "earned H a e q (P_check pw pb op) = (q = ChangePath pw pb op)"
| "earned H a e q (P_pwd pw b op) = (q = ChangePath pw (Some b) op \<and> euid e = a)"
| "earned H a e q (P_state b op) = accepted H a e q"
| "earned H a e q (P_resolve b op) = cleared H a e q"
| "earned H a e q (A_lookup p d) = cleared H a e q"
| "earned H a e q (A_entry p d) = cleared H a e q"
| "earned H a e q (A_insert x) = cleared H a e q"
| "earned H a e q (D_delete p) = cleared H a e q"
| "earned H a e q _ = True"

lemma earned_mono: "(\<And>P. H P \<Longrightarrow> H' P) \<Longrightarrow> earned H a e q p \<Longrightarrow> earned H' a e q p"
  by (cases p) (auto simp: accepted_def cleared_def)

lemma advance_earned:
  assumes "advance i e p (mem c) = Some (p', sh)" "earned H a e q p" "admin (rmst (mem c)) = a" "\<And>P. P c \<Longrightarrow> H P"
  shows "earned H a e q p'"
proof (cases p)
  case (P_pwd pw b op)
  have "H (\<lambda>c. check_pwd e (rmst (mem c)) pw = Some 0)" if "check_pwd e (rmst (mem c)) pw = Some 0"
    using assms(4) [of "\<lambda>c. check_pwd e (rmst (mem c)) pw = Some 0", OF that] .
  with P_pwd assms(1,2) show ?thesis by (auto simp: accepted_def split: if_splits option.splits)
next
  case (P_state b op)
  let ?rec = "\<lambda>c. current_state (rmst (mem c)) = word_of_int REC_OFF \<or> current_state (rmst (mem c)) = word_of_int REC_ON"
  have "H ?rec" if "?rec c" using assms(4) [of ?rec, OF that] .
  with P_state assms(1,2) show ?thesis by (auto simp: cleared_def split: if_splits)
qed (use assms(1-3) in \<open>auto simp: Let_def split: if_splits option.splits prod.splits sum.splits list.splits\<close>)

lemma advance_admin: "advance i e p sh = Some (p', sh') \<Longrightarrow> admin (rmst sh') = admin (rmst sh)"
  by (cases p) (auto simp: Let_def set_probe_def rm_frame split: if_splits list.splits prod.splits)

lemma advance_list:
  "advance i e p sh = Some (p', sh') \<Longrightarrow> restrict_path_list (rmst sh') \<noteq> restrict_path_list (rmst sh) \<Longrightarrow>
     (\<exists>x. p = A_insert x) \<or> (\<exists>d. p = D_delete d)"
  by (cases p) (auto simp: Let_def set_probe_def split: if_splits list.splits prod.splits)

lemma run_earned:
  "run tstep (launch st reqs) ls c \<Longrightarrow>
     admin (rmst (mem c)) = admin st \<and> length (thr c) = length reqs \<and>
     (\<forall>i < length reqs. fst (thr c ! i) = fst (reqs ! i) \<and>
        earned (once tstep (launch st reqs) ls c) (admin st) (fst (reqs ! i)) (snd (reqs ! i)) (snd (thr c ! i)))"
proof (induction ls arbitrary: c rule: rev_induct)
  case Nil
  have "earned H a e q (entry_pc q)" for H a e q by (cases q) simp_all
  with Nil show ?case by (auto simp: launch_def split_def)
next
  case (snoc l ls)
  then obtain c1 where r: "run tstep (launch st reqs) ls c1" and t: "tstep c1 l c" by (auto simp: run_append_iff run_Cons_iff)
  note IH = snoc.IH [OF r]
  let ?H = "once tstep (launch st reqs) ls c1" and ?H' = "once tstep (launch st reqs) (ls @ [l]) c"
  have now: "?H' P" if "P c1" for P
    by (rule once_later [where R = tstep, OF once_now [where R = tstep and P = P, OF r that] t])
  have later: "?H' P" if "?H P" for P by (rule once_later [where R = tstep, OF that t])
  from t show ?case
  proof cases
    case (tstep_turn i e p p' sh)
    have i: "fst (reqs ! i) = e" "earned ?H' (admin st) e (snd (reqs ! i)) p"
      using IH tstep_turn(3,4) earned_mono [of ?H ?H', OF later] by auto
    have "earned ?H' (admin st) e (snd (reqs ! i)) p'"
      using advance_earned [OF tstep_turn(5) i(2)] IH now by blast
    with IH i(1) show ?thesis
      using advance_admin [OF tstep_turn(5)] earned_mono [of ?H ?H', OF later] tstep_turn(3)
      by (auto simp: tstep_turn(2) nth_list_update)
  next
    case (tstep_file orig e f r st')
    with IH show ?thesis
      using hook_effect_frame [OF file_call_effect [OF tstep_file(3)]] earned_mono [of ?H ?H', OF later] by auto
  qed
qed

section \<open>Properties\<close>

text \<open>
  C3: the transitions of the model are what the code does when nobody interferes: a thread that runs
  an operation alone, lock by lock and loop by loop, comes to its end after finitely many steps,
  with the result, the monitor and the free locks that the atomic operation \<open>perform\<close> gives, or with a
  fault where that is undefined; and no run of it ends in anything else.
\<close>

theorem lone_thread_performs:
  "(\<exists>n. run tstep (launch st [(e, q)]) (replicate n (Turn 0)) (single e (outcome st (perform e q st)))) \<and>
   (\<forall>n z. run tstep (launch st [(e, q)]) (replicate n (Turn 0)) (single e z) \<and> finished (fst z) \<longrightarrow>
      z = outcome st (perform e q st))"
proof -
  have start: "launch st [(e, q)] = single e (entry_pc q, unlocked st)" by (simp add: launch_def single_def)
  have fin: "finished (fst (outcome st x))" for x by (simp add: outcome_def split: option.split prod.split)
  obtain n where "run tstep (single e (entry_pc q, unlocked st)) (replicate n (Turn 0)) (single e (outcome st (perform e q st)))"
    using goes_turns [OF goes_perform, of 0 "single e (entry_pc q, unlocked st)" e q st] by (auto simp: single_def)
  moreover have "z = outcome st (perform e q st)"
    if "run tstep (single e (entry_pc q, unlocked st)) (replicate n (Turn 0)) (single e z)" "finished (fst z)" for n z
    using run_single_unique [OF goes_perform fin that] .
  ultimately show ?thesis unfolding start by blast
qed

text \<open>
  C5: what the locks guarantee in every interleaving of any number of requests and of file operations
  of other threads. At most one thread is between taking and releasing the state lock, and at most
  one holds the lock of the list there. Whenever no thread is in the section of the state lock, the
  state is one of the four and the four probes are armed exactly if it protects. No forbidden path
  and no unterminated path is ever listed.
\<close>

theorem locks_keep_order:
  assumes "wf_rm st" "run tstep (launch st reqs) ls c"
  shows "length (thr c) = length reqs \<and> length (probes (rmst (mem c))) = HOOKS_SIZE \<and>
    (\<forall>p \<in> set (restricted (rmst (mem c))). NUL \<notin> set p \<and> forbitten_path (rmst (mem c)) (Some p) = 0) \<and>
    (\<forall>i j. i < length reqs \<and> j < length reqs \<and> in_state (snd (thr c ! i)) \<and> in_state (snd (thr c ! j)) \<longrightarrow> i = j) \<and>
    (\<forall>i j. i < length reqs \<and> j < length reqs \<and> in_list (snd (thr c ! i)) \<and> in_list (snd (thr c ! j)) \<longrightarrow> i = j) \<and>
    ((\<forall>i < length reqs. \<not> in_state (snd (thr c ! i))) \<longrightarrow>
       (\<exists>s. is_rm_state s \<and> current_state (rmst (mem c)) = word_of_int s \<and>
            (\<forall>p \<in> set (probes (rmst (mem c))). enabled p = enabling s)))"
proof -
  have ok: "pool_ok c" and len: "length (thr c) = length reqs"
    using threads.run_inv_rel [OF assms(2) launch_ok [OF assms(1)]] by (auto simp: launch_def)
  have "state_lock (mem c) = None" if "\<forall>i < length reqs. \<not> in_state (snd (thr c ! i))"
    using ok that len by (cases "state_lock (mem c)") (auto simp: pool_ok_def)
  then have "agrees (rmst (mem c))" if "\<forall>i < length reqs. \<not> in_state (snd (thr c ! i))"
    using ok that by (simp add: pool_ok_def)
  moreover have "i = j" if "i < length reqs" "j < length reqs" "in_state (snd (thr c ! i))" "in_state (snd (thr c ! j))" for i j
    using ok that len unfolding pool_ok_def by (metis option.inject)
  moreover have "i = j" if "i < length reqs" "j < length reqs" "in_list (snd (thr c ! i))" "in_list (snd (thr c ! j))" for i j
    using ok that len unfolding pool_ok_def by (metis option.inject)
  ultimately show ?thesis
    using ok len unfolding agrees_def pool_ok_def data_ok_def permitted_def by blast
qed

text \<open>
  C6: how requests that run at the same time end. In every interleaving \<open>k\<close> requests take at most
  \<open>k * (27 + 2 * (n + k))\<close> steps in all, \<open>n\<close> being the length of the list at the start. As long as a
  request is neither answered nor stopped by a fault some thread can take its next step, with one
  exception: a thread waits in \<open>synchronize_rcu\<close>, with the lock of the list held, for another one that
  holds or spins on a lock (\<open>grace_period_deadlock\<close> shows that this may be the end). If no request
  switches the monitor off or removes a path there is no exception, so that every schedule that
  goes on while it can brings all requests to their end.
\<close>

theorem threads_finish:
  assumes "wf_rm st" "run tstep (launch st reqs) ls c"
  shows "length (filter is_turn ls) \<le> length reqs * (27 + 2 * (length (restrict_path_list st) + length reqs)) \<and>
    ((\<exists>i < length reqs. \<not> finished (snd (thr c ! i))) \<longrightarrow>
       (\<exists>j c'. tstep c (Turn j) c') \<or>
       (\<exists>j < length reqs. \<exists>i \<in> grace (mem c). waits_rcu (snd (thr c ! j)) \<and> list_lock (mem c) = Some j \<and>
          i < length reqs \<and> i \<noteq> j \<and> at_lock (fst (thr c ! i)) (snd (thr c ! i)))) \<and>
    ((\<forall>(e, q) \<in> set reqs. \<forall>pw pb. q \<noteq> ChangeState pw OFF \<and> q \<noteq> ChangeState pw REC_OFF \<and> q \<noteq> ChangePath pw pb REMOVE_PATH) \<and>
     (\<exists>i < length reqs. \<not> finished (snd (thr c ! i))) \<longrightarrow> (\<exists>j c'. tstep c (Turn j) c'))"
proof -
  note launched = launch_ok [OF assms(1)] launch_preempt
  have ok: "pool_ok c" "preempt_ok c" and len: "length (thr c) = length reqs"
    using preemption.run_inv_rel [OF assms(2)] threads.run_inv_rel [OF assms(2)] launched by (auto simp: launch_def)
  have bound: "length (filter is_turn ls) \<le> length reqs * (27 + 2 * (length (restrict_path_list st) + length reqs))"
    using run_work [OF assms(2)] launch_work [of st reqs] by linarith
  have stuck: "\<exists>j < length reqs. \<exists>i \<in> grace (mem c). waits_rcu (snd (thr c ! j)) \<and> list_lock (mem c) = Some j \<and>
      i < length reqs \<and> i \<noteq> j \<and> at_lock (fst (thr c ! i)) (snd (thr c ! i))"
    if un: "\<exists>i < length reqs. \<not> finished (snd (thr c ! i))" "\<nexists>j c'. tstep c (Turn j) c'"
  proof -
    obtain j i where j: "j < length reqs" "waits_rcu (snd (thr c ! j))" "i \<in> grace (mem c)"
      using stuck_in_grace [OF ok(1)] un len by (metis ex_in_conv)
    have "in_list p" if "waits_rcu p" for p using that by (cases p) (simp_all add: waits_rcu_def)
    with j ok(1) len have "list_lock (mem c) = Some j" by (simp add: pool_ok_def)
    with j ok(2) len show ?thesis by (auto simp: preempt_ok_def)
  qed
  have "\<not> waits_rcu (snd (thr c ! j))" if "j < length reqs" and
    calm: "\<forall>(e, q) \<in> set reqs. \<forall>pw pb. q \<noteq> ChangeState pw OFF \<and> q \<noteq> ChangeState pw REC_OFF \<and> q \<noteq> ChangePath pw pb REMOVE_PATH" for j
  proof -
    have "calm (entry_pc q)" if "(e, q) \<in> set reqs" for e q using calm that by (cases q) auto
    then have "\<forall>x \<in> set (thr (launch st reqs)). calm (snd x)" by (auto simp: launch_def)
    with calmness.run_inv_rel [OF assms(2)] launched(1) have "\<forall>x \<in> set (thr c). calm (snd x)" by blast
    then show ?thesis using that(1) len by (intro calm_waits) simp
  qed
  with bound stuck show ?thesis by blast
qed

text \<open>
  C7: what stands between a thread and the list, in every interleaving of any number of requests and
  file operations. A step that changes the list belongs to a request to add or remove a path that
  the administrator made, whose password the monitor has accepted earlier in the run, and that has
  found the monitor in a reconfiguration state earlier in the run (the state may be another by now,
  as \<open>list_changes_outside_reconfiguration\<close> shows). File operations never change the list.
\<close>

theorem list_changes_authorised:
  assumes "run tstep (launch st reqs) ls c" "tstep c l c'" "restrict_path_list (rmst (mem c')) \<noteq> restrict_path_list (rmst (mem c))"
  shows "\<exists>i e pw b op. l = Turn i \<and> i < length reqs \<and> reqs ! i = (e, ChangePath pw (Some b) op) \<and> euid e = admin st \<and>
    once tstep (launch st reqs) ls c (\<lambda>x. check_pwd e (rmst (mem x)) pw = Some 0) \<and>
    once tstep (launch st reqs) ls c
      (\<lambda>x. current_state (rmst (mem x)) = word_of_int REC_OFF \<or> current_state (rmst (mem x)) = word_of_int REC_ON)"
  using assms(2)
proof cases
  case (tstep_turn i e p p' sh)
  have "earned (once tstep (launch st reqs) ls c) (admin st) e (snd (reqs ! i)) p" "fst (reqs ! i) = e" "i < length reqs"
    using run_earned [OF assms(1)] tstep_turn(3,4) by auto
  moreover have "(\<exists>x. p = A_insert x) \<or> (\<exists>d. p = D_delete d)"
    using advance_list [OF tstep_turn(5)] assms(3) tstep_turn(2) by simp
  ultimately have c: "cleared (once tstep (launch st reqs) ls c) (admin st) e (snd (reqs ! i))" and i: "fst (reqs ! i) = e" "i < length reqs"
    by auto
  from c obtain pw b op where "snd (reqs ! i) = ChangePath pw (Some b) op" "euid e = admin st"
    "once tstep (launch st reqs) ls c (\<lambda>x. check_pwd e (rmst (mem x)) pw = Some 0)" by (auto simp: cleared_def accepted_def)
  with c i tstep_turn(1) show ?thesis
    by (intro exI [of _ i] exI [of _ e] exI [of _ pw] exI [of _ b] exI [of _ op]) (simp add: cleared_def prod_eq_iff)
next
  case (tstep_file orig e f r st')
  with hook_effect_frame [OF file_call_effect [OF tstep_file(3)]] assms(3) show ?thesis by simp
qed

text \<open>
  Adding a path is not one step. Two requests of the administrator to add the same unlisted path
  can both look for it before either inserts it: both succeed and the path is listed twice.
  Removing it once then succeeds and leaves it restricted.
\<close>

theorem concurrent_adds_duplicate:
  assumes "crypto_env e" "vfs_ok e" "stored e st p" "NUL \<notin> set p" "euid e = admin st" "wf_list st"
    and "current_state st = word_of_int REC_ON \<or> current_state st = word_of_int REC_OFF"
    and "clean b" "lookup_name e (cstr b) = Some q" "kern_path e q = Inr d0"
    and "dentry_path_raw e d0 PATH_MAX = Inr full" "forbitten_path st (Some full) = 0" "kern_path e full = Inr d"
    and "full \<notin> set (restricted st)" "uninit e V_add_path_err = 0" "uninit e V_del_path_err = 0"
  shows "\<exists>ls c st'.
    run tstep (launch st [(e, ChangePath (Some p) (Some b) ADD_PATH), (e, ChangePath (Some p) (Some b) ADD_PATH)]) ls c \<and>
    map snd (thr c) = [Done 0, Done 0] \<and> restricted (rmst (mem c)) = full # full # restricted st \<and>
    perform e (ChangePath (Some p) (Some b) REMOVE_PATH) (rmst (mem c)) = Some (0, st') \<and> full \<in> set (restricted st')"
proof -
  have env: "mem_ok e" "zeroed e" using assms(1) by (simp_all add: crypto_env_def)
  obtain k where k: "d_inode e d = Some k" using vfs_ok_inodeD [OF assms(2,13)] ..
  have full: "NUL \<notin> set full" using vfs_ok_rawD [OF assms(2,11)] by simp
  have pw: "check_pwd e s (Some p) = Some 0" if "pwd s = pwd st" "salt s = salt st" for s
    using assms(3) that by (intro check_pwd_correct_pwd [OF assms(1) _ assms(4)]) (simp add: stored_def)
  let ?q = "ChangePath (Some p) (Some b) ADD_PATH"
  let ?x = "\<lparr>entry_path = full, entry_i_ino = i_ino (inodes st k), o_mode = ucast (i_mode (inodes st k)), o_flags = i_flags (inodes st k)\<rparr>"
  let ?start = "launch st [(e, ?q), (e, ?q)]"
  let ?c = "\<lambda>l p0 p1. \<lparr>mem = unlocked (st\<lparr>restrict_path_list := l @ restrict_path_list st\<rparr>), thr = [(e, p0), (e, p1)]\<rparr>"
  have go: "goes (advance i e) (entry_pc ?q, unlocked st) (A_insert ?x, unlocked st)" for i
    by (rule goes_to_insert [OF assms(2) env assms(5) pw assms(6-13) k assms(14,15)]) simp_all
  obtain n0 where r0: "run tstep ?start (replicate n0 (Turn 0)) (?c [] (A_insert ?x) (entry_pc ?q))"
    using goes_turns [OF go, of 0 ?start] by (auto simp: launch_def)
  obtain n1 where r1: "run tstep (?c [] (A_insert ?x) (entry_pc ?q)) (replicate n1 (Turn 1)) (?c [] (A_insert ?x) (A_insert ?x))"
    using goes_turns [OF go, of 1 "?c [] (A_insert ?x) (entry_pc ?q)"] by auto
  have "tstep (?c [] (A_insert ?x) (A_insert ?x)) (Turn 0) (?c [?x] (Done 0) (A_insert ?x))"
    using tstep_turn [of 0 "?c [] (A_insert ?x) (A_insert ?x)" e "A_insert ?x"] by simp
  moreover have "tstep (?c [?x] (Done 0) (A_insert ?x)) (Turn 1) (?c [?x, ?x] (Done 0) (Done 0))"
    using tstep_turn [of 1 "?c [?x] (Done 0) (A_insert ?x)" e "A_insert ?x"] by simp
  ultimately have r2: "run tstep (?c [] (A_insert ?x) (A_insert ?x)) [Turn 0, Turn 1] (?c [?x, ?x] (Done 0) (Done 0))"
    by (auto intro: run.intros)
  let ?st = "st\<lparr>restrict_path_list := [?x, ?x] @ restrict_path_list st\<rparr>"
  have "do_change_path e ?st (Some p) (Some b) REMOVE_PATH = Some (del_path e (Some full) ?st)"
    using assms(5,7,12) forbitten_path_cong [of ?st st "Some full"]
    by (intro do_change_path_granted(2) [OF assms(2) env(1) _ pw _ assms(8-11) _ assms(13)]) simp_all
  moreover have "del_path e (Some full) ?st =
      (0, st\<lparr>restrict_path_list := ?x # restrict_path_list st, inodes := (inodes st)(k := restore_inode ?x (current_time e k) (inodes st k))\<rparr>)"
    using full assms(13,16) k by (simp add: del_path_def strncmp_strlen_prefix cstr_id)
  ultimately have "perform e (ChangePath (Some p) (Some b) REMOVE_PATH) ?st =
      Some (0, st\<lparr>restrict_path_list := ?x # restrict_path_list st, inodes := (inodes st)(k := restore_inode ?x (current_time e k) (inodes st k))\<rparr>)"
    by simp
  with run_append [OF run_append [OF r0 r1] r2] show ?thesis
    by (intro exI conjI) (assumption | simp)+
qed

text \<open>
  The list is not tied to the state. A request to add a path that has read the state under
  reconfiguration inserts the path even if another request has switched the monitor to ON in
  between: both succeed, and the list has changed in a state in which it must not.
\<close>

theorem list_changes_outside_reconfiguration:
  assumes "crypto_env e" "vfs_ok e" "stored e st p" "NUL \<notin> set p" "euid e = admin st" "wf_list st"
    and "current_state st = word_of_int REC_ON \<or> current_state st = word_of_int REC_OFF"
    and "clean b" "lookup_name e (cstr b) = Some q" "kern_path e q = Inr d0"
    and "dentry_path_raw e d0 PATH_MAX = Inr full" "forbitten_path st (Some full) = 0" "kern_path e full = Inr d"
    and "full \<notin> set (restricted st)" "uninit e V_add_path_err = 0"
  shows "\<exists>ls1 c1 ls2 c2.
    run tstep (launch st [(e, ChangePath (Some p) (Some b) ADD_PATH), (e, ChangeState (Some p) ON)]) ls1 c1 \<and>
    snd (thr c1 ! 1) = Done 0 \<and> current_state (rmst (mem c1)) = word_of_int ON \<and> restricted (rmst (mem c1)) = restricted st \<and>
    run tstep c1 ls2 c2 \<and> map snd (thr c2) = [Done 0, Done 0] \<and>
    current_state (rmst (mem c2)) = word_of_int ON \<and> restricted (rmst (mem c2)) = full # restricted st"
proof -
  have env: "mem_ok e" "zeroed e" using assms(1) by (simp_all add: crypto_env_def)
  obtain k where k: "d_inode e d = Some k" using vfs_ok_inodeD [OF assms(2,13)] ..
  have pw: "check_pwd e st (Some p) = Some 0" by (rule check_pwd_correct_pwd [OF assms(1,3,4)])
  let ?q = "ChangePath (Some p) (Some b) ADD_PATH" and ?q' = "ChangeState (Some p) ON"
  let ?x = "\<lparr>entry_path = full, entry_i_ino = i_ino (inodes st k), o_mode = ucast (i_mode (inodes st k)), o_flags = i_flags (inodes st k)\<rparr>"
  let ?start = "launch st [(e, ?q), (e, ?q')]"
  let ?st1 = "switch_state e ON st"
  let ?st2 = "?st1\<lparr>restrict_path_list := ?x # restrict_path_list st\<rparr>"
  let ?c = "\<lambda>st p0 p1. \<lparr>mem = unlocked st, thr = [(e, p0), (e, p1)]\<rparr>"
  have "do_change_state e st (Some p) ON = Some (0, ?st1)"
    using assms(5,7) by (subst do_change_state_eq [OF pw]) (auto simp: is_rm_state_def)
  then have go: "goes (advance 1 e) (entry_pc ?q', unlocked st) (Done 0, unlocked ?st1)"
    using goes_change_state [of 1 e "Some p" ON st] by simp
  obtain n0 where r0: "run tstep ?start (replicate n0 (Turn 0)) (?c st (A_insert ?x) (entry_pc ?q'))"
    using goes_turns [OF goes_to_insert [OF assms(2) env assms(5) pw assms(6-13) k assms(14,15)], of 0 ?start] by (auto simp: launch_def)
  obtain n1 where r1: "run tstep (?c st (A_insert ?x) (entry_pc ?q')) (replicate n1 (Turn 1)) (?c ?st1 (A_insert ?x) (Done 0))"
    using goes_turns [OF go, of "?c st (A_insert ?x) (entry_pc ?q')"] by auto
  have "tstep (?c ?st1 (A_insert ?x) (Done 0)) (Turn 0) (?c ?st2 (Done 0) (Done 0))"
    using tstep_turn [of 0 "?c ?st1 (A_insert ?x) (Done 0)" e "A_insert ?x"] by simp
  then have r2: "run tstep (?c ?st1 (A_insert ?x) (Done 0)) [Turn 0] (?c ?st2 (Done 0) (Done 0))" by (rule run_single)
  from run_append [OF r0 r1] r2 show ?thesis
    by (intro exI [of _ "?c ?st2 (Done 0) (Done 0)"] exI [of _ "[Turn 0]"] exI [of _ "?c ?st1 (A_insert ?x) (Done 0)"] exI conjI)
       (assumption | simp)+
qed

text \<open>
  C38: a deadlock. \<open>restore_black_list_entries\<close> calls \<open>synchronize_rcu\<close> while the locks of the state and of
  the list are held. If the administrator switches the monitor off while another of his requests
  spins on the lock of the state, the spinning processor never passes a quiescent state, the grace
  period never ends and the lock is never released: there is a schedule after which, whatever comes
  next, neither request takes a further step and neither is answered. (Memory is zeroed, allocation and
  hash work and the password is right, so that both requests come as far as their locks.)
\<close>

theorem grace_period_deadlock:
  assumes "crypto_env e" "stored e st p" "NUL \<notin> set p" "euid e = admin st" "s = OFF \<or> s = REC_OFF" "current_state st \<noteq> word_of_int s"
    and "op = ADD_PATH \<or> op = REMOVE_PATH"
  shows "\<exists>ls c. run tstep (launch st [(e, ChangeState (Some p) s), (e, ChangePath (Some p) (Some b) op)]) ls c \<and>
    (\<forall>ls' c'. run tstep c ls' c' \<longrightarrow> filter is_turn ls' = [] \<and> map snd (thr c') = [S_grace, P_state b op])"
proof -
  let ?q = "ChangeState (Some p) s" and ?q' = "ChangePath (Some p) (Some b) op"
  let ?st = "switch_state e s st" and ?start = "launch st [(e, ?q), (e, ?q')]"
  let ?sh = "\<lambda>n g. \<lparr>rmst = ?st, state_lock = Some 0, list_lock = Some 0, nopreempt = n, grace = g\<rparr>"
  let ?c = "\<lambda>n g p0 p1. \<lparr>mem = ?sh n g, thr = [(e, p0), (e, p1)]\<rparr>"
  have s: "is_rm_state s" "\<not> enabling s" using assms(5) by (auto simp: is_rm_state_def enabling_def)
  have pw: "check_pwd e x (Some p) = Some 0" if "pwd x = pwd st" "salt x = salt st" for x
    using assms(2) that by (intro check_pwd_correct_pwd [OF assms(1) _ assms(3)]) (simp add: stored_def)
  have frame: "pwd ?st = pwd st" "salt ?st = salt st" "admin ?st = admin st" by simp_all
  have "goes (advance 0 e) (entry_pc ?q, unlocked st) (S_lock s, unlocked st)"
    using assms(4) s(1) pw [of st] by (intro goes_two [where p' = "S_pwd (Some p) s" and s' = "unlocked st"]) (auto simp: is_rm_state_def)
  from goes_trans [OF this goes_to_grace [OF s(1) assms(6) s(2)]]
  obtain n0 where r0: "run tstep ?start (replicate n0 (Turn 0)) (?c {0} {} (S_restore []) (entry_pc ?q'))"
    using goes_turns [of 0 e _ _ ?start] by (fastforce simp: launch_def)
  have "goes (advance 1 e) (entry_pc ?q', ?sh {0} {}) (P_state b op, ?sh {0} {})"
    using assms(4,7) frame pw [OF frame(1,2)] by (intro goes_two [where p' = "P_pwd (Some p) b op" and s' = "?sh {0} {}"]) auto
  moreover have "goes (advance 1 e) (P_state b op, ?sh {0} {}) (P_state b op, ?sh {0, 1} {})"
    by (rule goes_one) (simp add: preempt_disable_def insert_commute)
  ultimately have "goes (advance 1 e) (entry_pc ?q', ?sh {0} {}) (P_state b op, ?sh {0, 1} {})" by (rule goes_trans)
  then obtain n1 where r1: "run tstep (?c {0} {} (S_restore []) (entry_pc ?q')) (replicate n1 (Turn 1)) (?c {0, 1} {} (S_restore []) (P_state b op))"
    using goes_turns [of 1 e _ _ "?c {0} {} (S_restore []) (entry_pc ?q')"] by fastforce
  have "tstep (?c {0, 1} {} (S_restore []) (P_state b op)) (Turn 0) (?c {0, 1} {1} S_grace (P_state b op))"
    using tstep_turn [of 0 "?c {0, 1} {} (S_restore []) (P_state b op)" e "S_restore []"] by (simp add: start_grace_def)
  then have "run tstep (?c {0, 1} {} (S_restore []) (P_state b op)) [Turn 0] (?c {0, 1} {1} S_grace (P_state b op))"
    by (rule run_single)
  from run_append [OF run_append [OF r0 r1] this] show ?thesis
    using run_jammed [of "?c {0, 1} {1} S_grace (P_state b op)" _ _ b op] by (fastforce simp: jammed_def)
qed

section \<open>Concrete threads\<close>

text \<open>Two requests of the administrator, to switch to ON and to OFF; the first is answered.\<close>

definition sample_duel :: "(kenv \<times> request) list" where
  "sample_duel = [(sample_env, ChangeState (Some ''RefMonitorPwd'') ON), (sample_env, ChangeState (Some ''RefMonitorPwd'') OFF)]"

lemma sample_switch: "perform sample_env (ChangeState (Some ''RefMonitorPwd'') ON) sample_state =
    Some (0, switch_state sample_env ON sample_state)"
proof -
  have "check_pwd sample_env sample_state (Some ''RefMonitorPwd'') = Some 0"
    by (rule check_pwd_correct_pwd [OF sample_crypto]) simp
  from do_change_state_eq [OF this] show ?thesis by (simp add: is_rm_state_def)
qed

lemma sample_duel_run:
  obtains n where "run tstep (launch sample_state sample_duel) (replicate n (Turn 0))
    \<lparr>mem = unlocked (switch_state sample_env ON sample_state),
     thr = [(sample_env, Done 0), (sample_env, S_check (Some ''RefMonitorPwd'') OFF)]\<rparr>"
  using goes_turns [OF goes_perform [of 0 sample_env "ChangeState (Some ''RefMonitorPwd'') ON" sample_state],
      of "launch sample_state sample_duel"] sample_switch that
  by (auto simp: launch_def sample_duel_def)

theorem lone_thread_performs_witness:
  "\<exists>n c. run tstep (launch sample_state [(sample_env, ChangeState (Some ''RefMonitorPwd'') ON)]) (replicate n (Turn 0)) c \<and>
     snd (hd (thr c)) = Done 0 \<and> current_state (rmst (mem c)) = 1 \<and> state_lock (mem c) = None"
proof -
  obtain n where "run tstep (launch sample_state [(sample_env, ChangeState (Some ''RefMonitorPwd'') ON)]) (replicate n (Turn 0))
      (single sample_env (Done 0, unlocked (switch_state sample_env ON sample_state)))"
    using lone_thread_performs [of sample_state sample_env "ChangeState (Some ''RefMonitorPwd'') ON"]
    unfolding sample_switch outcome_simps by blast
  then show ?thesis by (intro exI conjI) (assumption | simp add: single_def)+
qed

theorem locks_keep_order_witness:
  "\<exists>n c. run tstep (launch sample_state sample_duel) (replicate n (Turn 0)) c \<and> snd (thr c ! 0) = Done 0 \<and>
     (\<exists>s. current_state (rmst (mem c)) = word_of_int s \<and> (\<forall>p \<in> set (probes (rmst (mem c))). enabled p = enabling s))"
proof -
  obtain n where r: "run tstep (launch sample_state sample_duel) (replicate n (Turn 0))
    \<lparr>mem = unlocked (switch_state sample_env ON sample_state),
     thr = [(sample_env, Done 0), (sample_env, S_check (Some ''RefMonitorPwd'') OFF)]\<rparr>" by (rule sample_duel_run)
  have two: "\<forall>i < length sample_duel. \<not> in_state (snd ([(sample_env, Done 0), (sample_env, S_check (Some ''RefMonitorPwd'') OFF)] ! i))"
    by (auto simp: sample_duel_def less_Suc_eq)
  with locks_keep_order [OF sample_wf_rm r] obtain s where "current_state (switch_state sample_env ON sample_state) = word_of_int s"
    "\<forall>p \<in> set (probes (switch_state sample_env ON sample_state)). enabled p = enabling s" by auto
  with r show ?thesis by (intro exI conjI) (assumption | simp)+
qed

theorem threads_finish_witness:
  "\<exists>n c. run tstep (launch sample_state sample_duel) (replicate n (Turn 0)) c \<and> n \<le> 62 \<and> (\<exists>j c'. tstep c (Turn j) c')"
proof -
  obtain n where r: "run tstep (launch sample_state sample_duel) (replicate n (Turn 0))
    \<lparr>mem = unlocked (switch_state sample_env ON sample_state),
     thr = [(sample_env, Done 0), (sample_env, S_check (Some ''RefMonitorPwd'') OFF)]\<rparr>" by (rule sample_duel_run)
  have "\<exists>i < length sample_duel. \<not> finished (snd ([(sample_env, Done 0), (sample_env, S_check (Some ''RefMonitorPwd'') OFF)] ! i))"
    by (rule exI [of _ 1]) (simp add: sample_duel_def finished_def)
  moreover have "filter is_turn (replicate n (Turn 0)) = replicate n (Turn 0)" by (induction n) (simp_all add: is_turn_def)
  ultimately have "n \<le> 62" "(\<exists>j c'. tstep \<lparr>mem = unlocked (switch_state sample_env ON sample_state),
      thr = [(sample_env, Done 0), (sample_env, S_check (Some ''RefMonitorPwd'') OFF)]\<rparr> (Turn j) c')"
    using threads_finish [OF sample_wf_rm r] by (simp_all add: sample_duel_def)
  with r show ?thesis by blast
qed

theorem grace_period_deadlock_witness:
  "\<exists>ls c. run tstep (launch sample_state [(sample_env, ChangeState (Some ''RefMonitorPwd'') OFF),
       (sample_env, ChangePath (Some ''RefMonitorPwd'') (Some (clean_buf ''/home/u/secret'')) ADD_PATH)]) ls c \<and>
     (\<forall>ls' c'. run tstep c ls' c' \<longrightarrow> filter is_turn ls' = [] \<and> map snd (thr c') = [S_grace, P_state (clean_buf ''/home/u/secret'') ADD_PATH])"
  by (rule grace_period_deadlock [OF sample_crypto]) simp_all

lemmas sample_path_facts = sample_crypto sample_env_ok sample_wf_list sample_clean sample_forbitten

theorem list_changes_authorised_witness:
  "\<exists>ls c c'. run tstep (launch sample_state [(sample_env, ChangePath (Some ''RefMonitorPwd'') (Some (clean_buf ''/home/u/secret'')) ADD_PATH)]) ls c \<and>
     tstep c (Turn 0) c' \<and> restricted (rmst (mem c)) = [] \<and> restricted (rmst (mem c')) = [''/home/u/secret''] \<and>
     once tstep (launch sample_state [(sample_env, ChangePath (Some ''RefMonitorPwd'') (Some (clean_buf ''/home/u/secret'')) ADD_PATH)]) ls c
       (\<lambda>x. check_pwd sample_env (rmst (mem x)) (Some ''RefMonitorPwd'') = Some 0)"
proof -
  let ?q = "ChangePath (Some ''RefMonitorPwd'') (Some (clean_buf ''/home/u/secret'')) ADD_PATH"
  let ?n = "inodes sample_state 11" and ?start = "launch sample_state [(sample_env, ?q)]"
  let ?x = "\<lparr>entry_path = ''/home/u/secret'', entry_i_ino = i_ino ?n, o_mode = ucast (i_mode ?n), o_flags = i_flags ?n\<rparr>"
  let ?c = "single sample_env (A_insert ?x, unlocked sample_state)"
  let ?c' = "single sample_env (Done 0, unlocked (sample_state\<lparr>restrict_path_list := [?x]\<rparr>))"
  have "check_pwd sample_env sample_state (Some ''RefMonitorPwd'') = Some 0"
    by (rule check_pwd_correct_pwd [OF sample_crypto]) simp
  then have "goes (advance 0 sample_env) (entry_pc ?q, unlocked sample_state) (A_insert ?x, unlocked sample_state)"
    using goes_to_insert [of sample_env sample_state "Some ''RefMonitorPwd''" "clean_buf ''/home/u/secret''"
        "''/home/u/secret''" 1 "''/home/u/secret''" 1 11 0]
    by (simp add: sample_path_facts lookup_name_def)
  from goes_turns [OF this, of ?start] obtain n where r: "run tstep ?start (replicate n (Turn 0)) ?c"
    by (auto simp: launch_def single_def)
  have t: "tstep ?c (Turn 0) ?c'"
    using tstep_turn [of 0 ?c sample_env "A_insert ?x"] by (simp add: single_def)
  from list_changes_authorised [OF r t] have "once tstep ?start (replicate n (Turn 0)) ?c
      (\<lambda>x. check_pwd sample_env (rmst (mem x)) (Some ''RefMonitorPwd'') = Some 0)"
    by (auto simp: single_def)
  with r t show ?thesis by (intro exI conjI) (assumption | simp add: single_def)+
qed

theorem concurrent_adds_duplicate_witness:
  "\<exists>ls c. run tstep (launch sample_state
       [(sample_env, ChangePath (Some ''RefMonitorPwd'') (Some (clean_buf ''/home/u/secret'')) ADD_PATH),
        (sample_env, ChangePath (Some ''RefMonitorPwd'') (Some (clean_buf ''/home/u/secret'')) ADD_PATH)]) ls c \<and>
     restricted (rmst (mem c)) = [''/home/u/secret'', ''/home/u/secret'']"
  using concurrent_adds_duplicate [of sample_env sample_state "''RefMonitorPwd''" "clean_buf ''/home/u/secret''"
      "''/home/u/secret''" 1 "''/home/u/secret''" 1]
  by (simp add: sample_path_facts lookup_name_def) (elim exE conjE, intro exI conjI, assumption+)

theorem list_changes_outside_reconfiguration_witness:
  "\<exists>ls c ls' c'. run tstep (launch sample_state
       [(sample_env, ChangePath (Some ''RefMonitorPwd'') (Some (clean_buf ''/home/u/secret'')) ADD_PATH),
        (sample_env, ChangeState (Some ''RefMonitorPwd'') ON)]) ls c \<and> current_state (rmst (mem c)) = 1 \<and>
     restricted (rmst (mem c)) = [] \<and> run tstep c ls' c' \<and> restricted (rmst (mem c')) = [''/home/u/secret'']"
  using list_changes_outside_reconfiguration [of sample_env sample_state "''RefMonitorPwd''" "clean_buf ''/home/u/secret''"
      "''/home/u/secret''" 1 "''/home/u/secret''" 1]
  by (simp add: sample_path_facts lookup_name_def) (elim exE conjE, intro exI conjI, assumption+)

end
