(* ===== verification/No_Lock.thy ===== *)
theory No_Lock
  imports Monitor_Threads
begin

text \<open>
  The build with \<open>NO_LOCK\<close> (the target \<open>no_lock\<close> of the Makefile): \<open>do_change_state\<close> decides by a
  compare-and-exchange on \<open>atomic_current_state\<close> instead of a lock.
  The variable \<open>current_state\<close> and the probes are then written without any lock. Run alone the
  operation does what the build with the lock does; run by two threads it does not keep probes and
  state together. The wait for a grace period at the end of \<open>restore_black_list_entries\<close>, which
  \<open>Monitor_Threads\<close> has as a place of its own, is part of the last step here: no thread spins in the
  runs below, so that it ends at once.
\<close>

section \<open>Definitions\<close>

datatype npc =
    N_check "string option" int
  | N_pwd "string option" int
  | N_read int
  | N_swap int "64 word"
  | N_state int
  | N_probe int nat
  | N_list_lock
  | N_restore "rcu_restrict list"
  | N_done int
  | N_fault

record nshared =
  nrmst :: rm_state
  atomic_current_state :: "64 word"
  nlist_lock :: "nat option"

fun advance_no_lock :: "nat \<Rightarrow> kenv \<Rightarrow> npc \<Rightarrow> nshared \<Rightarrow> (npc \<times> nshared) option" where
  "advance_no_lock i e (N_check pw s) sh =
     Some (if euid e \<noteq> admin (nrmst sh) then N_done (- EPERM)
           else if pw = None \<or> (s \<noteq> ON \<and> s \<noteq> OFF \<and> s \<noteq> REC_ON \<and> s \<noteq> REC_OFF) then N_done (- EINVAL)
           else N_pwd pw s, sh)"
| "advance_no_lock i e (N_pwd pw s) sh =
     Some (case check_pwd e (nrmst sh) pw of
             None \<Rightarrow> N_fault | Some ret \<Rightarrow> if ret \<noteq> 0 then N_done (- EACCES) else N_read s, sh)"
| "advance_no_lock i e (N_read s) sh = Some (N_swap s (atomic_current_state sh), sh)"
| "advance_no_lock i e (N_swap s old) sh =
     Some (if atomic_current_state sh = old
           then (if old = word_of_int s then N_done (- ECANCELED) else N_state s,
                 sh\<lparr>atomic_current_state := word_of_int s\<rparr>)
           else (N_done (- ECANCELED), sh))"
| "advance_no_lock i e (N_state s) sh =
     Some (N_probe s 0, sh\<lparr>nrmst := (nrmst sh)\<lparr>current_state := word_of_int s\<rparr>\<rparr>)"
| "advance_no_lock i e (N_probe s k) sh =
     (let on = (s AND REC_ON \<noteq> 0 \<or> s AND ON \<noteq> 0) in
      Some (if k < HOOKS_SIZE then (N_probe s (Suc k), sh\<lparr>nrmst := set_probe on k (nrmst sh)\<rparr>)
            else if on then (N_done 0, sh)
            else (N_list_lock, sh)))"
| "advance_no_lock i e N_list_lock sh =
     (if nlist_lock sh \<noteq> None then None
      else Some (N_restore (restrict_path_list (nrmst sh)), sh\<lparr>nlist_lock := Some i\<rparr>))"
| "advance_no_lock i e (N_restore es) sh =
     Some (case es of
             [] \<Rightarrow> (N_done 0, sh\<lparr>nlist_lock := None\<rparr>)
           | entry # es' \<Rightarrow>
               (N_restore es', sh\<lparr>nrmst := (nrmst sh)\<lparr>inodes := snd (restore_loop e [entry] (0, inodes (nrmst sh)))\<rparr>\<rparr>))"
| "advance_no_lock i e (N_done r) sh = None"
| "advance_no_lock i e N_fault sh = None"

text \<open>A monitor whose two copies of the state agree and whose list is free.\<close>

definition nfree :: "rm_state \<Rightarrow> nshared" where
  "nfree st = \<lparr>nrmst = st, atomic_current_state = current_state st, nlist_lock = None\<rparr>"

definition noutcome :: "rm_state \<Rightarrow> (int \<times> rm_state) option \<Rightarrow> npc \<times> nshared" where
  "noutcome st x = (case x of None \<Rightarrow> (N_fault, nfree st) | Some (r, st') \<Rightarrow> (N_done r, nfree st'))"

section \<open>The section without a lock\<close>

lemma nfree_simps [simp]:
  "nrmst (nfree st) = st" "atomic_current_state (nfree st) = current_state st" "nlist_lock (nfree st) = None"
  by (simp_all add: nfree_def)

lemma noutcome_simps [simp]:
  "noutcome st None = (N_fault, nfree st)" "noutcome st (Some (r, st')) = (N_done r, nfree st')"
  by (simp_all add: noutcome_def)

lemma int_mask: "is_rm_state s \<Longrightarrow> (s AND REC_ON \<noteq> 0 \<or> s AND ON \<noteq> 0) = enabling s"
  by (auto simp: is_rm_state_def enabling_def)

lemma goes_nprobes:
  assumes "is_rm_state s"
  shows "k \<le> HOOKS_SIZE \<Longrightarrow>
    goes (advance_no_lock i e) (N_probe s 0, \<lparr>nrmst = st, atomic_current_state = a, nlist_lock = l\<rparr>)
     (N_probe s k, \<lparr>nrmst = st\<lparr>probes := fold (\<lambda>k ys. ys[k := (ys ! k)\<lparr>enabled := enabling s\<rparr>]) [0..<k] (probes st)\<rparr>,
                    atomic_current_state = a, nlist_lock = l\<rparr>)"
proof (induction k)
  case 0
  show ?case by (simp add: goes_refl)
next
  case (Suc k)
  then show ?case
    using int_mask [OF assms] by (intro goes_trans [OF Suc.IH goes_one]) (simp_all add: set_probe_def Let_def)
qed

lemma goes_nrestore:
  "goes (advance_no_lock i e) (N_restore es, \<lparr>nrmst = st, atomic_current_state = a, nlist_lock = l\<rparr>)
     (N_done 0, \<lparr>nrmst = st\<lparr>inodes := snd (restore_loop e es (r, inodes st))\<rparr>, atomic_current_state = a, nlist_lock = None\<rparr>)"
proof (induction es arbitrary: st)
  case Nil
  show ?case by (rule goes_one) simp
next
  case (Cons x es)
  let ?ino = "snd (restore_loop e [x] (0, inodes st))"
  have "goes (advance_no_lock i e) (N_restore (x # es), \<lparr>nrmst = st, atomic_current_state = a, nlist_lock = l\<rparr>)
      (N_restore es, \<lparr>nrmst = st\<lparr>inodes := ?ino\<rparr>, atomic_current_state = a, nlist_lock = l\<rparr>)"
    by (rule goes_one) (simp del: restore_loop.simps)
  from goes_trans [OF this Cons.IH] show ?case
    using restore_loop_Cons [of e x es r "inodes st" 0] by (simp del: restore_loop.simps)
qed

text \<open>
  From the store to \<open>current_state\<close> on, whatever the atomic variable says meanwhile: the thread carries
  its own request through.
\<close>

lemma goes_nsection:
  assumes "is_rm_state s"
  shows "goes (advance_no_lock i e) (N_state s, \<lparr>nrmst = st, atomic_current_state = a, nlist_lock = None\<rparr>)
    (N_done 0, \<lparr>nrmst = switch_state e s st, atomic_current_state = a, nlist_lock = None\<rparr>)"
proof -
  let ?st1 = "st\<lparr>current_state := word_of_int s\<rparr>"
  let ?st2 = "set_probes (enabling s) ?st1"
  let ?sh = "\<lambda>st. \<lparr>nrmst = st, atomic_current_state = a, nlist_lock = None\<rparr>"
  have "goes (advance_no_lock i e) (N_state s, ?sh st) (N_probe s 0, ?sh ?st1)" by (rule goes_one) simp
  moreover have "goes (advance_no_lock i e) (N_probe s 0, ?sh ?st1) (N_probe s HOOKS_SIZE, ?sh ?st2)"
    using goes_nprobes [OF assms order_refl, of i e ?st1 a None]
      fold_update_all [of "enabled_update (\<lambda>_. enabling s)" HOOKS_SIZE "probes st"]
    by (simp add: set_probes_def)
  moreover have "goes (advance_no_lock i e) (N_probe s HOOKS_SIZE, ?sh ?st2) (N_done 0, ?sh (switch_state e s st))"
  proof (cases "enabling s")
    case True
    then show ?thesis using int_mask [OF assms] by (intro goes_one) (simp add: switch_state_def)
  next
    case False
    then have "goes (advance_no_lock i e) (N_probe s HOOKS_SIZE, ?sh ?st2)
        (N_restore (restrict_path_list ?st2), (?sh ?st2)\<lparr>nlist_lock := Some i\<rparr>)"
      using int_mask [OF assms] by (intro goes_two [where p' = N_list_lock and s' = "?sh ?st2"]) simp_all
    moreover have "goes (advance_no_lock i e) (N_restore (restrict_path_list ?st2), (?sh ?st2)\<lparr>nlist_lock := Some i\<rparr>)
        (N_done 0, ?sh (switch_state e s st))"
      using False goes_nrestore [of i e "restrict_path_list ?st2" ?st2 a "Some i" "uninit e V_restore_ret"]
      by (simp add: switch_state_def Let_def restore_black_list_entries_def split_def)
    ultimately show ?thesis by (rule goes_trans)
  qed
  ultimately show ?thesis by (blast intro: goes_trans)
qed

lemma goes_nswap:
  assumes "euid e = admin st" "is_rm_state s" "check_pwd e st (Some p) = Some 0" "a \<noteq> word_of_int s"
  shows "goes (advance_no_lock i e) (N_check (Some p) s, \<lparr>nrmst = st, atomic_current_state = a, nlist_lock = l\<rparr>)
    (N_state s, \<lparr>nrmst = st, atomic_current_state = word_of_int s, nlist_lock = l\<rparr>)"
proof -
  let ?sh = "\<lparr>nrmst = st, atomic_current_state = a, nlist_lock = l\<rparr>"
  have "goes (advance_no_lock i e) (N_check (Some p) s, ?sh) (N_read s, ?sh)"
    using assms(1-3) by (intro goes_two [where p' = "N_pwd (Some p) s" and s' = ?sh]) (auto simp: is_rm_state_def)
  moreover have "goes (advance_no_lock i e) (N_read s, ?sh) (N_state s, ?sh\<lparr>atomic_current_state := word_of_int s\<rparr>)"
    using assms(4) by (intro goes_two [where p' = "N_swap s a" and s' = ?sh]) simp_all
  ultimately show ?thesis using goes_trans by fastforce
qed

section \<open>Properties\<close>

text \<open>
  C39: without competition the build without locks does the same. From a monitor whose two copies of
  the state agree, a thread that runs \<open>do_change_state\<close> of that build alone ends with the result and the
  monitor of the build with locks, and the two copies agree again.
\<close>

theorem no_lock_agrees_alone:
  "goes (advance_no_lock i e) (N_check pw s, nfree st) (noutcome st (do_change_state e st pw s))"
proof (cases "euid e = admin st \<and> pw \<noteq> None \<and> is_rm_state s")
  case False
  then show ?thesis by (intro goes_one) (auto simp: do_change_state_def is_rm_state_def)
next
  case True
  then obtain p where p: "pw = Some p" by blast
  have first: "goes (advance_no_lock i e) (N_check pw s, nfree st) (N_pwd pw s, nfree st)"
    using True by (intro goes_one) (auto simp: is_rm_state_def)
  show ?thesis
  proof (cases "check_pwd e st pw = Some 0")
    case wrong: False
    with True have "do_change_state e st pw s = (if check_pwd e st pw = None then None else Some (- EACCES, st))"
      by (auto simp: do_change_state_def is_rm_state_def split: option.split)
    with wrong show ?thesis by (intro goes_trans [OF first goes_one]) (auto split: option.split)
  next
    case right: True
    note eq = do_change_state_eq [OF right]
    show ?thesis
    proof (cases "current_state st = word_of_int s")
      case same: True
      have "goes (advance_no_lock i e) (N_pwd pw s, nfree st) (N_swap s (current_state st), nfree st)"
        using right by (intro goes_two [where p' = "N_read s" and s' = "nfree st"]) simp_all
      moreover have "goes (advance_no_lock i e) (N_swap s (current_state st), nfree st) (N_done (- ECANCELED), nfree st)"
        using same by (intro goes_one) (simp add: nfree_def)
      ultimately have "goes (advance_no_lock i e) (N_check pw s, nfree st) (N_done (- ECANCELED), nfree st)"
        using goes_trans [OF first] goes_trans by blast
      moreover have "do_change_state e st pw s = Some (- ECANCELED, st)" using True same by (auto simp: eq)
      ultimately show ?thesis by simp
    next
      case False
      have "goes (advance_no_lock i e) (N_check (Some p) s, nfree st)
          (N_state s, \<lparr>nrmst = st, atomic_current_state = word_of_int s, nlist_lock = None\<rparr>)"
        unfolding nfree_def using goes_nswap [of e st s p "current_state st"] True right p False by simp
      moreover have "goes (advance_no_lock i e) (N_state s, \<lparr>nrmst = st, atomic_current_state = word_of_int s, nlist_lock = None\<rparr>)
          (N_done 0, nfree (switch_state e s st))"
        using goes_nsection [of s i e st "word_of_int s"] True by (simp add: nfree_def)
      ultimately have "goes (advance_no_lock i e) (N_check pw s, nfree st) (N_done 0, nfree (switch_state e s st))"
        unfolding p by (rule goes_trans)
      moreover have "do_change_state e st pw s = Some (0, switch_state e s st)" using True False by (auto simp: eq)
      ultimately show ?thesis by simp
    qed
  qed
qed

text \<open>
  C40: with competition it does not keep the monitor consistent. In state ON a request for OFF that has
  exchanged the state is overtaken by a request for ON; both are answered with 0, the state that
  decides further requests is ON, and no probe is armed: the monitor claims to protect and lets
  every operation through.
\<close>

theorem no_lock_loses_protection:
  assumes "crypto_env e" "stored e st p" "NUL \<notin> set p" "euid e = admin st"
    and "current_state st = word_of_int ON" "length (probes st) = HOOKS_SIZE"
  shows "\<exists>ls c. run (interleave advance_no_lock)
      \<lparr>mem = nfree st, thr = [(e, N_check (Some p) OFF), (e, N_check (Some p) ON)]\<rparr> ls c \<and>
    map snd (thr c) = [N_done 0, N_done 0] \<and> atomic_current_state (mem c) = word_of_int ON \<and>
    current_state (nrmst (mem c)) = word_of_int OFF \<and> (\<forall>pr \<in> set (probes (nrmst (mem c))). \<not> enabled pr)"
proof -
  let ?sh = "\<lambda>st a. \<lparr>nrmst = st, atomic_current_state = word_of_int a, nlist_lock = None\<rparr>"
  let ?c = "\<lambda>sh p0 p1. \<lparr>mem = sh, thr = [(e, p0), (e, p1)]\<rparr>"
  let ?on = "switch_state e ON st"
  have pw: "check_pwd e st (Some p) = Some 0" by (rule check_pwd_correct_pwd [OF assms(1-3)])
  have nf: "nfree st = ?sh st ON" using assms(5) by (simp add: nfree_def)
  have off: "goes (advance_no_lock 0 e) (N_check (Some p) OFF, ?sh st ON) (N_state OFF, ?sh st OFF)"
    using assms(4) pw by (intro goes_nswap) (simp_all add: is_rm_state_def)
  have "goes (advance_no_lock 1 e) (N_check (Some p) ON, ?sh st OFF) (N_state ON, ?sh st ON)"
    using assms(4) pw by (intro goes_nswap) (simp_all add: is_rm_state_def)
  moreover have "goes (advance_no_lock 1 e) (N_state ON, ?sh st ON) (N_done 0, ?sh ?on ON)"
    by (rule goes_nsection) (simp add: is_rm_state_def)
  ultimately have on: "goes (advance_no_lock 1 e) (N_check (Some p) ON, ?sh st OFF) (N_done 0, ?sh ?on ON)" by (rule goes_trans)
  have fin: "goes (advance_no_lock 0 e) (N_state OFF, ?sh ?on ON) (N_done 0, ?sh (switch_state e OFF ?on) ON)"
    by (rule goes_nsection) (simp add: is_rm_state_def)
  obtain n0 where r0: "run (interleave advance_no_lock) (?c (?sh st ON) (N_check (Some p) OFF) (N_check (Some p) ON))
      (replicate n0 0) (?c (?sh st OFF) (N_state OFF) (N_check (Some p) ON))"
    using goes_interleave [of advance_no_lock, OF off, of "?c (?sh st ON) (N_check (Some p) OFF) (N_check (Some p) ON)"] by auto
  obtain n1 where r1: "run (interleave advance_no_lock) (?c (?sh st OFF) (N_state OFF) (N_check (Some p) ON))
      (replicate n1 1) (?c (?sh ?on ON) (N_state OFF) (N_done 0))"
    using goes_interleave [of advance_no_lock, OF on, of "?c (?sh st OFF) (N_state OFF) (N_check (Some p) ON)"] by auto
  obtain n2 where r2: "run (interleave advance_no_lock) (?c (?sh ?on ON) (N_state OFF) (N_done 0))
      (replicate n2 0) (?c (?sh (switch_state e OFF ?on) ON) (N_done 0) (N_done 0))"
    using goes_interleave [of advance_no_lock, OF fin, of "?c (?sh ?on ON) (N_state OFF) (N_done 0)"] by auto
  have probes: "\<forall>pr \<in> set (probes (switch_state e OFF ?on)). \<not> enabled pr"
    using switch_state_probes [of ?on e OFF] assms(6) by (simp add: enabling_def)
  from run_append [OF run_append [OF r0 r1] r2] probes show ?thesis
    unfolding nf by (intro exI conjI) (assumption | simp)+
qed

theorem no_lock_loses_protection_witness:
  "\<exists>ls c. run (interleave advance_no_lock)
      \<lparr>mem = nfree (sample_state\<lparr>current_state := 1\<rparr>),
       thr = [(sample_env, N_check (Some ''RefMonitorPwd'') OFF), (sample_env, N_check (Some ''RefMonitorPwd'') ON)]\<rparr> ls c \<and>
    atomic_current_state (mem c) = 1 \<and> (\<forall>pr \<in> set (probes (nrmst (mem c))). \<not> enabled pr)"
  using no_lock_loses_protection [of sample_env "sample_state\<lparr>current_state := 1\<rparr>" "''RefMonitorPwd''"] sample_crypto
  by (simp add: stored_def HOOKS_SIZE_def) (elim exE conjE, intro exI conjI, assumption+)

end
