(* ===== verification/Resources.thy ===== *)
theory Resources
  imports Ref_Hooks
begin

text \<open>
  What the operations of the module take from the kernel and give back: references to paths (\<open>kern_path\<close>,
  \<open>get_fs_pwd\<close>, \<open>path_get\<close> against \<open>path_put\<close>), references to files, blocks of memory and the hash
  transform. Each operation has a trace, the sequence of its acquisitions (\<open>1\<close>) and releases (\<open>-1\<close>)
  along the branch it takes; the branch is decided by the definitions of the operations themselves.
  \<open>net\<close> is what a call leaves behind.
\<close>

section \<open>Definitions\<close>

datatype resource = Path dentry_ptr | Opened string | Exe dentry_ptr | Mem alloc_site | Tfm

type_synonym trace = "(resource \<times> int) list"

definition net :: "trace \<Rightarrow> resource \<Rightarrow> int" where
  "net tr r = (\<Sum>x \<leftarrow> tr. if fst x = r then snd x else 0)"

subsection \<open>\<^verbatim>\<open>reference_path_solver.c\<close>\<close>

definition tr_resolve_relative :: "kenv \<Rightarrow> trace" where
  "tr_resolve_relative e =
     (Path (fs_pwd e), 1) #
     (if \<not> alloc_ok e A_resolved_path then [] else [(Mem A_resolved_path, 1), (Path (fs_pwd e), -1)])"

definition tr_fill_absolute :: "kenv \<Rightarrow> cbuf \<Rightarrow> trace" where
  "tr_fill_absolute e b0 =
     (if byte_at b0 0 \<noteq> CHR ''/'' then tr_resolve_relative e else []) @
     (case (if byte_at b0 0 \<noteq> CHR ''/'' then resolve_relative_path e (Some b0) else Some (0, b0)) of
        None \<Rightarrow> []
      | Some (err, b) \<Rightarrow>
          if err \<noteq> 0 then []
          else case kern_path e (cstr b) of
                 Inl _ \<Rightarrow> []
               | Inr d \<Rightarrow>
                   (Path d, 1) #
                   (if \<not> alloc_ok e A_absolute_buffer then []
                    else [(Mem A_absolute_buffer, 1), (Path d, -1), (Mem A_absolute_buffer, -1)]))"

definition tr_swap_filter :: "kenv \<Rightarrow> cbuf \<Rightarrow> trace" where
  "tr_swap_filter e b =
     (let len = length (cstr b) in
      if len < 6 then [] else tr_fill_absolute e (if is_swap_name b len then swap_to_target b len else b))"

definition tr_mark_by_pathname :: "kenv \<Rightarrow> string \<Rightarrow> trace" where
  "tr_mark_by_pathname e p = (case kern_path e p of Inl _ \<Rightarrow> [] | Inr d \<Rightarrow> [(Path d, 1), (Path d, -1)])"

text \<open>\<open>fill_path_by_dentry\<close> for an entry; for NULL the buffer would stay allocated, but no caller passes it.\<close>

definition tr_fill_path_by_dentry :: "kenv \<Rightarrow> trace" where
  "tr_fill_path_by_dentry e =
     (if \<not> alloc_ok e A_fill_dentry_buffer then [] else [(Mem A_fill_dentry_buffer, 1), (Mem A_fill_dentry_buffer, -1)])"

subsection \<open>\<^verbatim>\<open>reference_rcu_restrict_list.c\<close>\<close>

definition tr_check_black_list :: "kenv \<Rightarrow> rm_state \<Rightarrow> string \<Rightarrow> bool \<Rightarrow> trace" where
  "tr_check_black_list e st p is_open =
     (case kern_path e p of
        Inl _ \<Rightarrow> []
      | Inr d \<Rightarrow> (Path d, 1) # (if check_black_list e st (Some p) is_open = Some 0 then [(Path d, -1)] else []))"

definition tr_add_path :: "kenv \<Rightarrow> string \<Rightarrow> dentry_ptr \<Rightarrow> rm_state \<Rightarrow> trace" where
  "tr_add_path e p d st =
     (if is_path_in st (Some p) = 0 then []
      else if uninit e V_add_path_err \<noteq> 0 then []
      else if \<not> alloc_ok e A_restrict_entry then []
      else (Mem A_restrict_entry, 1) #
        (if \<not> alloc_ok e A_restrict_path then [(Mem A_restrict_entry, -1)]
         else (Mem A_restrict_path, 1) #
           (case d_inode e d of
              None \<Rightarrow> [(Mem A_restrict_path, -1), (Mem A_restrict_entry, -1)]
            | Some i \<Rightarrow> [(Path d, -1)])))"

text \<open>The loop of \<open>del_path\<close>; the entry it unlinks is freed with its path.\<close>

fun tr_del_loop :: "kenv \<Rightarrow> string \<Rightarrow> rcu_restrict list \<Rightarrow> trace" where
  "tr_del_loop e p [] = []"
| "tr_del_loop e p (entry # es) =
     (if strncmp p (entry_path entry) (length p) = 0
      then (case kern_path e (entry_path entry) of Inl _ \<Rightarrow> [] | Inr d \<Rightarrow> [(Path d, 1), (Path d, -1)]) @
           [(Mem A_restrict_path, -1), (Mem A_restrict_entry, -1)]
      else tr_del_loop e p es)"

definition tr_del_path :: "kenv \<Rightarrow> string \<Rightarrow> rm_state \<Rightarrow> trace" where
  "tr_del_path e p st = (if uninit e V_del_path_err \<noteq> 0 then [] else tr_del_loop e p (restrict_path_list st))"

subsection \<open>\<^verbatim>\<open>reference_hash.c\<close> and \<^verbatim>\<open>reference_syscalls.c\<close>\<close>

definition tr_hash_plaintext :: "kenv \<Rightarrow> string option \<Rightarrow> trace" where
  "tr_hash_plaintext e plaintext =
     (if plaintext = None \<or> \<not> alloc_ok e A_salt_text then []
      else (Mem A_salt_text, 1) #
        (if \<not> crypto_ok e C_alloc then []
         else (Tfm, 1) #
           (if \<not> alloc_ok e A_shash then []
            else (Mem A_shash, 1) #
              (if crypto_ok e C_init \<and> crypto_ok e C_update \<and> crypto_ok e C_final
               then [(Mem A_salt_text, -1), (Mem A_shash, -1), (Tfm, -1)] else []))))"

text \<open>\<open>do_change_path\<close> from the resolution of the path on, for a caller whose password was accepted.\<close>

definition tr_change_path :: "kenv \<Rightarrow> rm_state \<Rightarrow> cbuf \<Rightarrow> int \<Rightarrow> trace" where
  "tr_change_path e st b op =
     tr_fill_absolute e b @
     (case fill_absolute_path e (Some b) of
        None \<Rightarrow> []
      | Some (ret, b') \<Rightarrow>
          if ret \<noteq> 0 then []
          else if forbitten_path st (Some (cstr b')) \<noteq> 0 then []
          else case kern_path e (cstr b') of
                 Inl _ \<Rightarrow> []
               | Inr d \<Rightarrow>
                   (Path d, 1) #
                   (if op AND ADD_PATH \<noteq> 0 then tr_add_path e (cstr b') d st else []) @
                   (if op AND REMOVE_PATH \<noteq> 0 then tr_del_path e (cstr b') st else []) @
                   [(Path d, -1)])"

subsection \<open>\<^verbatim>\<open>reference_defer.c\<close>\<close>

text \<open>The work item with its name goes to the queue; the references to the program stay.\<close>

definition tr_defer_top_half :: "kenv \<Rightarrow> trace" where
  "tr_defer_top_half e =
     (if \<not> alloc_ok e A_work_data then []
      else (Mem A_work_data, 1) #
        (if \<not> task_mm e then [(Mem A_work_data, -1)]
         else case exe_file e of
                None \<Rightarrow> [(Mem A_work_data, -1)]
              | Some f \<Rightarrow>
                  [(Exe f, 1), (Path f, 1)] @
                  (case dentry_path_raw e f MAX_FILE_NAME of
                     Inl _ \<Rightarrow> []
                   | Inr name \<Rightarrow> if \<not> alloc_ok e A_work_path then [(Mem A_work_data, -1)] else [(Mem A_work_path, 1)])))"

definition tr_defer_bottom_half :: "kenv \<Rightarrow> io_env \<Rightarrow> rm_state \<Rightarrow> work_data \<Rightarrow> trace" where
  "tr_defer_bottom_half e io st data =
     (let p = path_name data in
      (if \<not> alloc_ok e A_ciphertext then []
       else (Mem A_ciphertext, 1) #
         (case exe_open io p of
            Inl _ \<Rightarrow> []
          | Inr file \<Rightarrow>
              (Opened p, 1) #
              (if \<not> alloc_ok e A_file_contents then []
               else (Mem A_file_contents, 1) #
                 (if exe_read io p < 0 then []
                  else
                    let text = Some (cstr (file_block e file (exe_read io p))) in
                    tr_hash_plaintext e text @
                    (case hash_plaintext e (Some (salt st)) (Some (replicate DIGEST_SIZE NUL)) text of
                       Some (Inr _) \<Rightarrow>
                         if \<not> alloc_ok e A_log_buffer then []
                         else (Mem A_log_buffer, 1) #
                           (if log_open io (single_file_name st) < 0 then []
                            else [(Opened (single_file_name st), 1), (Opened (single_file_name st), -1)]) @
                           [(Mem A_log_buffer, -1)]
                     | _ \<Rightarrow> [])) @
                 [(Mem A_file_contents, -1)]) @
              [(Opened p, -1)]) @
         [(Mem A_ciphertext, -1)]) @
      [(Mem A_work_path, -1), (Mem A_work_data, -1)])"

subsection \<open>\<^verbatim>\<open>reference_hooks.c\<close>\<close>

definition tr_mark_and_deny :: "kenv \<Rightarrow> string \<Rightarrow> trace" where
  "tr_mark_and_deny e name =
     tr_mark_by_pathname e name @
     (case kern_path e name of
        Inl r \<Rightarrow> if r \<noteq> 0 then [(Mem A_hook_buffer, -1)] else tr_defer_top_half e
      | Inr d \<Rightarrow> tr_defer_top_half e)"

definition tr_open_decide :: "kenv \<Rightarrow> rm_state \<Rightarrow> string \<Rightarrow> bool \<Rightarrow> bool \<Rightarrow> 32 word \<Rightarrow> trace" where
  "tr_open_decide e st name is_dir is_swap flags =
     tr_check_black_list e st name True @
     (if check_black_list e st (Some name) True = Some 0 then
        if is_dir \<and> flags AND O_CREAT \<noteq> 0 then tr_mark_and_deny e name
        else if is_swap then tr_defer_top_half e
        else if flags AND WRITE_MASK \<noteq> 0 then tr_mark_and_deny e name
        else [(Mem A_hook_buffer, -1)]
      else [(Mem A_hook_buffer, -1)])"

definition tr_open_handler :: "kenv \<Rightarrow> rm_state \<Rightarrow> filename \<Rightarrow> 32 word \<Rightarrow> trace" where
  "tr_open_handler e st pathname flags =
     (case fname pathname of
        None \<Rightarrow> []
      | Some filename \<Rightarrow>
          if forbitten_path st (Some filename) \<noteq> 0 then []
          else case uptr pathname of
            None \<Rightarrow> []
          | Some user \<Rightarrow>
              if \<not> alloc_ok e A_hook_buffer then []
              else
                let buffer = snd (copy_from_user user PATH_MAX) in
                (Mem A_hook_buffer, 1) # tr_swap_filter e buffer @
                (case fill_with_swap_filter e buffer of
                   None \<Rightarrow> []
                 | Some (ret, b) \<Rightarrow>
                     if ret = - ENOMEM then [(Mem A_hook_buffer, -1)]
                     else if ret = - ENOENT then
                       let b1 = (case get_parent_path (Some b) of None \<Rightarrow> b | Some b' \<Rightarrow> b') in
                       tr_fill_absolute e b1 @
                       (case fill_absolute_path e (Some b1) of
                          None \<Rightarrow> []
                        | Some (ret2, b2) \<Rightarrow>
                            if ret2 \<noteq> 0 then [(Mem A_hook_buffer, -1)]
                            else tr_open_decide e st (cstr b2) True False flags)
                     else tr_open_decide e st (cstr b) False (ret = 1) flags))"

definition tr_mk_rmdir_handler :: "kenv \<Rightarrow> rm_state \<Rightarrow> dentry_ptr option \<Rightarrow> trace" where
  "tr_mk_rmdir_handler e st dentry =
     (if \<not> alloc_ok e A_hook_buffer then []
      else (Mem A_hook_buffer, 1) #
        (case Option.bind dentry (d_parent e) of
           None \<Rightarrow> []
         | Some parent \<Rightarrow>
             let p = cstr (snd (fill_path_by_dentry e (Some parent) (replicate PATH_MAX NUL))) in
             tr_fill_path_by_dentry e @ tr_check_black_list e st p False @
             (if check_black_list e st (Some p) False = Some 0 then tr_defer_top_half e else [])) @
        [(Mem A_hook_buffer, -1)])"

definition tr_unlink_handler :: "kenv \<Rightarrow> rm_state \<Rightarrow> dentry_ptr option \<Rightarrow> trace" where
  "tr_unlink_handler e st dentry =
     (if \<not> alloc_ok e A_hook_buffer then []
      else (Mem A_hook_buffer, 1) #
        (case dentry of
           None \<Rightarrow> []
         | Some d \<Rightarrow>
             let p = cstr (snd (fill_path_by_dentry e (Some d) (replicate PATH_MAX NUL))) in
             tr_fill_path_by_dentry e @ tr_check_black_list e st p False @
             (if check_black_list e st (Some p) False = Some 0 then tr_defer_top_half e
              else case d_parent e d of
                     None \<Rightarrow> []
                   | Some parent \<Rightarrow>
                       let p = cstr (snd (fill_path_by_dentry e (Some parent) (replicate PATH_MAX NUL))) in
                       tr_fill_path_by_dentry e @ tr_check_black_list e st p False @
                       (if check_black_list e st (Some p) False = Some 0 then tr_defer_top_half e else []))) @
        [(Mem A_hook_buffer, -1)])"

section \<open>Adding up\<close>

lemma net_simps [simp]:
  "net [] r = 0" "net (x # tr) r = (if fst x = r then snd x else 0) + net tr r" "net (tr @ tr') r = net tr r + net tr' r"
  by (simp_all add: net_def)

lemma net_resolve_relative:
  "net (tr_resolve_relative e) (Mem A_hook_buffer) = 0"
  "alloc_ok e A_resolved_path \<Longrightarrow> net (tr_resolve_relative e) (Path x) = 0"
  by (simp_all add: tr_resolve_relative_def)

lemma net_fill_absolute:
  "net (tr_fill_absolute e b) (Mem A_hook_buffer) = 0"
  "mem_ok e \<Longrightarrow> net (tr_fill_absolute e b) (Path x) = 0"
  by (simp_all add: tr_fill_absolute_def net_resolve_relative split: option.split prod.split sum.split)

lemma net_swap_filter:
  "net (tr_swap_filter e b) (Mem A_hook_buffer) = 0" "mem_ok e \<Longrightarrow> net (tr_swap_filter e b) (Path x) = 0"
  by (simp_all add: tr_swap_filter_def net_fill_absolute Let_def)

lemma net_mark: "net (tr_mark_by_pathname e p) r = 0"
  by (simp add: tr_mark_by_pathname_def split: sum.split)

lemma net_check_black_list: "net (tr_check_black_list e st p is_open) (Mem a) = 0"
  by (simp add: tr_check_black_list_def split: sum.split)

lemma net_defer_top_half: "net (tr_defer_top_half e) (Mem A_hook_buffer) = 0"
  by (simp add: tr_defer_top_half_def split: option.split sum.split)

lemma net_mark_and_deny:
  assumes "mark_and_deny e st name = Some (out, st')"
  shows "net (tr_mark_and_deny e name) (Mem A_hook_buffer) = (if hook_error out = - EACCES then 0 else -1)"
  using assms
  by (auto simp: mark_and_deny_def mark_inode_read_only_by_pathname_def tr_mark_and_deny_def net_mark net_defer_top_half
      open_denied_def pass_def bind_eq_Some_conv split: sum.split_asm option.split_asm if_splits)

lemma net_open_decide:
  assumes "open_decide e st name is_dir is_swap flags = Some (out, st')"
  shows "net (tr_open_decide e st name is_dir is_swap flags) (Mem A_hook_buffer) = (if hook_error out = - EACCES then 0 else -1)"
proof -
  obtain ret where ret: "check_black_list e st (Some name) True = Some ret"
    using assms by (auto simp: open_decide_def bind_eq_Some_conv)
  with assms show ?thesis
    using net_mark_and_deny [of e st name out st']
    by (auto simp: open_decide_def tr_open_decide_def net_check_black_list net_defer_top_half open_denied_def pass_def
        bind_eq_Some_conv split: if_splits)
qed

section \<open>Properties\<close>

text \<open>
  C37: memory of the handler of \<open>open\<close>. However the handler decides, it has released its buffer of
  \<open>PATH_MAX\<close> bytes when it returns, unless it denies the open: every denied attempt, which any user can
  make, leaves that block allocated for good.
\<close>

theorem denied_open_keeps_buffer:
  assumes "pre_do_filp_open_handler e st f flags = Some (out, st')"
  shows "net (tr_open_handler e st f flags) (Mem A_hook_buffer) = (if hook_error out = - EACCES then 1 else 0)"
proof (cases "\<exists>n u. fname f = Some n \<and> forbitten_path st (Some n) = 0 \<and> uptr f = Some u \<and> alloc_ok e A_hook_buffer")
  case False
  with assms show ?thesis
    by (auto simp: pre_do_filp_open_handler_def tr_open_handler_def pass_def split: option.split_asm if_splits option.split)
next
  case True
  then obtain n u where *: "fname f = Some n" "forbitten_path st (Some n) = 0" "uptr f = Some u" "alloc_ok e A_hook_buffer" by blast
  let ?b = "snd (copy_from_user u PATH_MAX)"
  from assms * obtain ret b where fil: "fill_with_swap_filter e ?b = Some (ret, b)"
    by (auto simp: pre_do_filp_open_handler_def Let_def split_def bind_eq_Some_conv c_string_def split: if_splits)
  obtain b1 where b1: "get_parent_path (Some b) = Some b1" by (simp add: get_parent_path_def Let_def)
  consider (nomem) "ret = - ENOMEM" | (parent) "ret = - ENOENT" | (found) "ret \<noteq> - ENOMEM" "ret \<noteq> - ENOENT" by blast
  then show ?thesis
  proof cases
    case nomem
    with assms * fil show ?thesis
      by (auto simp: pre_do_filp_open_handler_def tr_open_handler_def Let_def split_def net_swap_filter pass_def c_string_def split: if_splits)
  next
    case parent
    with assms * fil b1 have "fill_absolute_path e (Some b1) \<noteq> None"
      by (cases "fill_absolute_path e (Some b1)") (auto simp: pre_do_filp_open_handler_def Let_def split_def c_string_def split: if_splits)
    then obtain ret2 b2 where "fill_absolute_path e (Some b1) = Some (ret2, b2)" by auto
    with parent assms * fil b1 show ?thesis
      using net_open_decide [of e st "cstr b2" True False flags out st']
      by (auto simp: pre_do_filp_open_handler_def tr_open_handler_def Let_def split_def net_swap_filter net_fill_absolute pass_def
          c_string_def split: if_splits)
  next
    case found
    with assms * fil have "open_decide e st (cstr b) False (ret = 1) flags = Some (out, st')"
      by (auto simp: pre_do_filp_open_handler_def Let_def split_def c_string_def split: if_splits)
    with found * fil show ?thesis
      using net_open_decide by (auto simp: tr_open_handler_def Let_def net_swap_filter)
  qed
qed

text \<open>
  The handlers of \<open>mkdir\<close>, \<open>rmdir\<close> and \<open>unlink\<close> release their buffers on every branch, denials included;
  what they leave allocated is at most the record queued for the worker.
\<close>

theorem directory_handlers_release_buffers:
  "net (tr_mk_rmdir_handler e st d) (Mem a) \<noteq> 0 \<longrightarrow> a = A_work_data \<or> a = A_work_path"
  "net (tr_unlink_handler e st d) (Mem a) \<noteq> 0 \<longrightarrow> a = A_work_data \<or> a = A_work_path"
proof -
  have fill: "net (tr_fill_path_by_dentry e) r = 0" for r by (simp add: tr_fill_path_by_dentry_def)
  have queue: "net (tr_defer_top_half e) (Mem a) = 0" if "a \<noteq> A_work_data" "a \<noteq> A_work_path"
    using that by (simp add: tr_defer_top_half_def split: option.split sum.split)
  show "net (tr_mk_rmdir_handler e st d) (Mem a) \<noteq> 0 \<longrightarrow> a = A_work_data \<or> a = A_work_path"
    using queue by (auto simp: tr_mk_rmdir_handler_def Let_def fill net_check_black_list split: option.split if_splits)
  show "net (tr_unlink_handler e st d) (Mem a) \<noteq> 0 \<longrightarrow> a = A_work_data \<or> a = A_work_path"
    using queue by (auto simp: tr_unlink_handler_def Let_def fill net_check_black_list split: option.split if_splits)
qed

text \<open>
  References taken by the handler of \<open>open\<close>. While the monitor protects, opening an existing file
  that is not restricted, by any name that leads to it, leaves one more reference to its path than
  before: \<open>check_black_list\<close> gives its own back only when it finds the path.
\<close>

theorem unlisted_open_keeps_reference:
  assumes "vfs_ok e" "mem_ok e" "open_call st f p" "6 \<le> length p" "\<not> swap_like p"
    and "lookup_name e p = Some q" "kern_path e q = Inr d0" "dentry_path_raw e d0 PATH_MAX = Inr full"
    and "kern_path e full = Inr d" "check_black_list e st (Some full) True = Some c" "c \<noteq> 0"
  shows "pre_do_filp_open_handler e st f flags = Some (pass, st) \<and>
    net (tr_open_handler e st f flags) (Path x) = (if x = d then 1 else 0)"
proof -
  from assms(3) obtain n k where f: "fname f = Some n" "forbitten_path st (Some n) = 0" "uptr f = Some (p @ replicate k NUL)"
    "NUL \<notin> set p" "length p < PATH_MAX" by (auto simp: open_call_def)
  have fil: "fill_with_swap_filter e (clean_buf p) = Some (0, clean_buf full)"
    by (rule filter_found [OF assms(1,2) f(4) assms(4) f(5) assms(5-8)])
  have full: "cstr (clean_buf full) = full" using vfs_ok_rawD [OF assms(1,8)] by simp
  have "pre_do_filp_open_handler e st f flags = Some (pass, st)"
    using pre_open_resolved(1) [OF assms(1-8)] assms(10,11) by (simp add: open_decide_def)
  moreover have "net (tr_open_handler e st f flags) (Path x) = (if x = d then 1 else 0)"
    using assms(2,9-11) f fil full
    by (simp add: tr_open_handler_def Let_def copy_clean net_swap_filter tr_open_decide_def tr_check_black_list_def)
  ultimately show ?thesis ..
qed

text \<open>
  References taken by a change of the list. A request that succeeds gives back what it took when
  it removes a path, but one reference too many when it adds one: both \<open>add_path\<close> and \<open>do_change_path\<close>
  release the reference that \<open>do_change_path\<close> acquired.
\<close>

theorem added_path_released_twice:
  assumes "vfs_ok e" "mem_ok e" "do_change_path e st pw (Some b) op = Some (0, st')"
  shows "\<exists>b' d. fill_absolute_path e (Some b) = Some (0, b') \<and> kern_path e (cstr b') = Inr d \<and>
    (\<forall>x. net (tr_change_path e st b op) (Path x) = (if op = ADD_PATH \<and> x = d then -1 else 0)) \<and>
    net (tr_change_path e st b op) (Mem A_restrict_entry) = (if op = ADD_PATH then 1 else -1)"
proof -
  from assms(1,3) obtain b' d where b': "fill_absolute_path e (Some b) = Some (0, b')" "forbitten_path st (Some (cstr b')) = 0"
    "kern_path e (cstr b') = Inr d"
    and ops: "op = ADD_PATH \<and> add_path e (Some (cstr b')) d st = (0, st') \<or> op = REMOVE_PATH \<and> del_path e (Some (cstr b')) st = (0, st')"
    by (auto elim!: do_change_path_Some)
  have "net (tr_fill_absolute e b) (Mem A_restrict_entry) = 0"
    by (simp add: tr_fill_absolute_def tr_resolve_relative_def split: option.split prod.split sum.split)
  note zero = net_fill_absolute(2) [OF assms(2)] this
  have masks: "(0x10::int) AND 0x20 = 0" "(0x20::int) AND 0x10 = 0" by simp_all
  from ops show ?thesis
  proof
    assume add: "op = ADD_PATH \<and> add_path e (Some (cstr b')) d st = (0, st')"
    then have "net (tr_add_path e (cstr b') d st) r = net [(Mem A_restrict_entry, 1), (Mem A_restrict_path, 1), (Path d, -1)] r" for r
      by (auto simp: add_path_def tr_add_path_def split: if_splits option.split_asm)
    with add b' zero masks show ?thesis by (intro exI [of _ b'] exI [of _ d]) (simp add: tr_change_path_def)
  next
    assume del: "op = REMOVE_PATH \<and> del_path e (Some (cstr b')) st = (0, st')"
    have loop: "del_loop e p ino es = (0, ino', es') \<Longrightarrow> net (tr_del_loop e p es) (Path x) = 0 \<and> net (tr_del_loop e p es) (Mem A_restrict_entry) = -1"
      for p ino es ino' es' x
      by (induction es arbitrary: es') (auto split: if_splits sum.split_asm option.split_asm prod.split_asm sum.split)
    from del have "net (tr_del_path e (cstr b') st) (Path x) = 0" "net (tr_del_path e (cstr b') st) (Mem A_restrict_entry) = -1" for x
      using loop by (auto simp: del_path_def tr_del_path_def split: if_splits prod.split_asm)
    with del b' zero masks show ?thesis by (intro exI [of _ b'] exI [of _ d]) (simp add: tr_change_path_def)
  qed
qed

text \<open>
  C23: the worker cleans up. If the hash transform works, then whichever allocation, open or read fails,
  an item that has been worked off leaves nothing behind: the item and its name are freed, every
  other block is released and every opened file is closed.
\<close>

theorem worker_releases_everything:
  assumes "alloc_ok e A_salt_text" "alloc_ok e A_shash" "\<forall>c. crypto_ok e c"
  shows "net (tr_defer_bottom_half e io st data) r = (if r = Mem A_work_data \<or> r = Mem A_work_path then -1 else 0)"
proof -
  have "net (tr_hash_plaintext e t) r' = 0" for t r'
    using assms by (simp add: tr_hash_plaintext_def)
  then show ?thesis
    by (simp add: tr_defer_bottom_half_def Let_def split: sum.split option.split)
qed

section \<open>Concrete calls\<close>

lemma sample_env_lookup: "lookup_name sample_env ''/home/u/secret'' = Some ''/home/u/secret''"
  by (simp add: lookup_name_def)

theorem denied_open_keeps_buffer_witness:
  "\<exists>out st'. pre_do_filp_open_handler sample_env sample_on (sample_open ''/home/u/secret'') O_RDWR = Some (out, st') \<and>
     net (tr_open_handler sample_env sample_on (sample_open ''/home/u/secret'') O_RDWR) (Mem A_hook_buffer) = 1"
proof -
  have "pre_do_filp_open_handler sample_env sample_on (sample_open ''/home/u/secret'') O_RDWR =
      open_decide sample_env sample_on ''/home/u/secret'' False False O_RDWR"
    using sample_on_facts sample_env_lookup by (intro pre_open_resolved(1) [of _ _ _ _ "''/home/u/secret''" 1]) simp_all
  also have "\<dots> = Some (\<lparr>h_ret = 0, hook_error = - EACCES, di_replaced = True\<rparr>, after_denial sample_env ''/bin/cat'' 11 sample_on)"
    using sample_on_facts listed_found [of sample_env sample_on "''/home/u/secret''" True]
      mark_and_deny_eq [of sample_env "''/bin/cat''" "''/home/u/secret''" 1 11 sample_on]
    by (simp add: open_decide_def wf_rm_def WRITE_MASK_def)
  finally show ?thesis
    using denied_open_keeps_buffer [of sample_env sample_on "sample_open ''/home/u/secret''" O_RDWR] by simp
qed

theorem unlisted_open_keeps_reference_witness:
  "net (tr_open_handler sample_env (sample_protecting sample_entry2) (sample_open ''/home/u/secret'') 0) (Path 1) = 1"
proof -
  let ?st = "sample_protecting sample_entry2"
  have "check_black_list sample_env ?st (Some ''/home/u/secret'') True = Some (- EEXIST)"
    by (simp add: check_black_list_def strcmp_eq_0 cstr_id sample_defs)
  then show ?thesis
    using unlisted_open_keeps_reference [of sample_env ?st "sample_open ''/home/u/secret''" "''/home/u/secret''"
        "''/home/u/secret''" 1 "''/home/u/secret''" 1 "- EEXIST" 0 1] sample_on_facts
    by (simp add: lookup_name_def)
qed

theorem added_path_released_twice_witness:
  "net (tr_change_path sample_env sample_state (clean_buf ''/home/u/secret'') ADD_PATH) (Path 1) = -1"
proof -
  have pw: "check_pwd sample_env sample_state (Some ''RefMonitorPwd'') = Some 0"
    by (rule check_pwd_correct_pwd [OF sample_crypto]) simp
  have "do_change_path sample_env sample_state (Some ''RefMonitorPwd'')
      (Some (clean_buf ''/home/u/secret'')) ADD_PATH = Some (add_path sample_env (Some ''/home/u/secret'') 1 sample_state)"
    using sample_env_ok pw sample_clean
    by (intro do_change_path_granted(1) [of _ _ _ _ "''/home/u/secret''" 1]) (simp_all add: lookup_name_def sample_forbitten)
  moreover have "fst (add_path sample_env (Some ''/home/u/secret'') 1 sample_state) = 0"
    using sample_env_ok by (simp add: add_path_def is_path_in_def)
  ultimately have "do_change_path sample_env sample_state (Some ''RefMonitorPwd'') (Some (clean_buf ''/home/u/secret'')) ADD_PATH =
      Some (0, snd (add_path sample_env (Some ''/home/u/secret'') 1 sample_state))"
    by (simp only: prod_eq_iff fst_conv snd_conv option.inject)
  note twice = added_path_released_twice [OF sample_env_ok(4,2) this]
  have "fill_absolute_path sample_env (Some (clean_buf ''/home/u/secret'')) = Some (0, clean_buf ''/home/u/secret'')"
    using sample_env_ok sample_clean sample_env_lookup by (intro fill_absolute_path_found [of _ _ "''/home/u/secret''" 1]) simp_all
  note filled = this
  from twice obtain b' d where b': "fill_absolute_path sample_env (Some (clean_buf ''/home/u/secret'')) = Some (0, b')"
      "kern_path sample_env (cstr b') = Inr d"
    and n: "\<forall>x. net (tr_change_path sample_env sample_state (clean_buf ''/home/u/secret'') ADD_PATH) (Path x) =
      (if ADD_PATH = ADD_PATH \<and> x = d then -1 else 0)"
    by (elim exE conjE) (rule that)
  have "b' = clean_buf ''/home/u/secret''"
    using trans [OF filled [symmetric] b'(1)] by (simp only: option.inject prod.inject)
  moreover have "cstr (clean_buf ''/home/u/secret'') = ''/home/u/secret''" by (rule cstr_clean_buf) simp
  ultimately have "d = 1" using b'(2) by simp
  with n show ?thesis by (simp only: simp_thms if_True)
qed

theorem worker_releases_everything_witness:
  "net (tr_defer_bottom_half sample_env \<lparr>exe_open = (\<lambda>_. Inl (- ENOENT)), exe_read = (\<lambda>_. 0), log_open = (\<lambda>_. 0)\<rparr> sample_state
     \<lparr>w_tgid = 1, w_tid = 1, w_uid = 0, w_euid = 0, path_name = ''/bin/cat''\<rparr>) (Mem A_ciphertext) = 0"
proof -
  have "alloc_ok sample_env A_salt_text" "alloc_ok sample_env A_shash" "\<forall>c. crypto_ok sample_env c"
    using sample_env_ok(2) unfolding mem_ok_def by blast+
  from worker_releases_everything [OF this] show ?thesis
    by (simp only: resource.inject resource.distinct alloc_site.distinct simp_thms if_False)
qed

end
