(* ===== verification/Discover_Trial.thy ===== *)
theory Discover_Trial
  imports Discover
begin

text \<open>
  \<^verbatim>\<open>System_call_discover/usctm.c\<close> in the build with \<open>SYS_CALL_INSTALL\<close>: loading also puts a system call
  of its own into the first free entry of the table it found, with the write protection of the
  processor off, and unloading puts \<open>sys_ni_syscall\<close> back. Without that option unloading does nothing.
\<close>

section \<open>Definitions\<close>

text \<open>A store into the table faults while the write protection is on or where there is no memory.\<close>

definition store_elem :: "cpu \<Rightarrow> 64 word \<Rightarrow> nat \<Rightarrow> 64 word \<Rightarrow> memory \<Rightarrow> memory option" where
  "store_elem c tbl i v mem =
     (if cr0_reg c AND X86_CR0_WP \<noteq> 0 \<or> elem mem tbl i = None then None
      else Some (mem(tbl + 8 * of_nat i \<mapsto> v)))"

definition sys_trial :: "64 word \<Rightarrow> 64 word \<Rightarrow> int" where
  "sys_trial A B = 0"

definition init_module_trial ::
    "64 word \<Rightarrow> (64 word \<Rightarrow> int) \<Rightarrow> memory \<Rightarrow> cpu \<Rightarrow> ((int + usctm) \<times> memory \<times> cpu) option" where
  "init_module_trial trial vtpmo mem c =
     do {
       r \<leftarrow> usctm_init mem vtpmo;
       (case r of
          Inl err \<Rightarrow> Some (Inl err, mem, c)
        | Inr u \<Rightarrow>
            do {
              let c = unprotect_memory c;
              mem \<leftarrow> store_elem c (sys_call_table_address u) FIRST_NI_SYSCALL trial mem;
              Some (Inr u, mem, protect_memory c)
            })
     }"

definition cleanup_module_trial :: "usctm \<Rightarrow> memory \<Rightarrow> cpu \<Rightarrow> (memory \<times> cpu) option" where
  "cleanup_module_trial u mem c =
     do {
       let c = unprotect_memory c;
       mem \<leftarrow> store_elem c (sys_call_table_address u) FIRST_NI_SYSCALL (sys_ni_syscall_address u) mem;
       Some (mem, protect_memory c)
     }"

section \<open>Properties\<close>

lemma unprotected_store:
  assumes "elem mem tbl i = Some w"
  shows "store_elem (unprotect_memory c) tbl i v mem = Some (mem(tbl + 8 * of_nat i \<mapsto> v))"
proof -
  have "(x AND NOT X86_CR0_WP) AND X86_CR0_WP = 0" for x :: "64 word"
    by (simp add: and.assoc)
  with assms show ?thesis by (simp add: store_elem_def unprotect_memory_def)
qed

lemma found_table:
  assumes "backed mem (sys_vtpmo pt cr3)" "usctm_init mem (sys_vtpmo pt cr3) = Some (Inr u)"
  shows "elem mem (sys_call_table_address u) FIRST_NI_SYSCALL = Some (sys_ni_syscall_address u)"
proof -
  have "syscall_table_finder mem (sys_vtpmo pt cr3) = Some (Some (sys_call_table_address u, sys_ni_syscall_address u))"
    using assms(2) by (auto simp: usctm_init_def bind_eq_Some_conv split: option.splits)
  with vtpmo_pages.finder_spec [OF assms(1)] show ?thesis
    by (auto simp: search_result_def hit_def FIRST_NI_SYSCALL_def)
qed

text \<open>
  Loading with the trial call succeeds whenever a table is found: exactly the first free entry changes
  and the write protection is what it was; unloading gives memory back as it was.
\<close>

theorem trial_call_round_trip:
  assumes "\<forall>a. sys_vtpmo pt cr3 a \<noteq> NO_MAP \<longrightarrow> mem a \<noteq> None"
    and "usctm_init mem (sys_vtpmo pt cr3) = Some (Inr u)"
  shows "\<exists>mem' c' c''. init_module_trial trial (sys_vtpmo pt cr3) mem c = Some (Inr u, mem', c') \<and>
    elem mem' (sys_call_table_address u) FIRST_NI_SYSCALL = Some trial \<and>
    (\<forall>a. a \<noteq> sys_call_table_address u + 8 * of_nat FIRST_NI_SYSCALL \<longrightarrow> mem' a = mem a) \<and> cr0_reg c' = cr0_reg c \<and>
    cleanup_module_trial u mem' c' = Some (mem, c'') \<and> cr0_reg c'' = cr0_reg c"
proof -
  let ?a = "sys_call_table_address u + 8 * of_nat FIRST_NI_SYSCALL"
  have "backed mem (sys_vtpmo pt cr3)" using assms(1) by (simp add: backed_def)
  note ni = found_table [OF this assms(2)]
  then have undone: "mem(?a \<mapsto> trial, ?a \<mapsto> sys_ni_syscall_address u) = mem" by (auto simp: elem_def)
  have trial: "elem (mem(?a \<mapsto> trial)) (sys_call_table_address u) FIRST_NI_SYSCALL = Some trial" by (simp add: elem_def)
  have "init_module_trial trial (sys_vtpmo pt cr3) mem c = Some (Inr u, mem(?a \<mapsto> trial), protect_memory (unprotect_memory c))"
    using assms(2) unprotected_store [OF ni] by (simp add: init_module_trial_def)
  moreover have "cleanup_module_trial u (mem(?a \<mapsto> trial)) (protect_memory (unprotect_memory c)) =
      Some (mem, protect_memory (unprotect_memory (protect_memory (unprotect_memory c))))"
    using unprotected_store [OF trial] undone by (simp add: cleanup_module_trial_def)
  ultimately show ?thesis using trial
    by (intro exI [of _ "mem(?a \<mapsto> trial)"] exI [of _ "c\<lparr>cr0 := cr0_reg c\<rparr>"]) simp
qed

text \<open>
  The parameter \<open>free_entries\<close> is filled before the trial call is installed: the entry it takes is still
  published as free, so that the numbers read from it no longer are those of free entries.
\<close>

theorem trial_entry_published_as_free:
  assumes "\<forall>a. sys_vtpmo pt cr3 a \<noteq> NO_MAP \<longrightarrow> mem a \<noteq> None"
    and "usctm_init mem (sys_vtpmo pt cr3) = Some (Inr u)"
    and "\<forall>k < 256. elem mem (sys_call_table_address u) k = Some (p ! k)"
    and "\<forall>k < FIRST_NI_SYSCALL. p ! k \<noteq> sys_ni_syscall_address u"
  shows "free_entries_array u ! 0 = FIRST_NI_SYSCALL \<and>
    (\<exists>mem' c'. init_module_trial trial (sys_vtpmo pt cr3) mem c = Some (Inr u, mem', c') \<and>
       elem mem' (sys_call_table_address u) (free_entries_array u ! 0) = Some trial)"
proof -
  let ?ni = "sys_ni_syscall_address u"
  have backed: "backed mem (sys_vtpmo pt cr3)" using assms(1) by (simp add: backed_def)
  note ni = found_table [OF this assms(2)]
  then have "p ! FIRST_NI_SYSCALL = ?ni" using assms(3) by (simp add: FIRST_NI_SYSCALL_def)
  then have "find (\<lambda>k. p ! k = ?ni) [0..<256] = Some FIRST_NI_SYSCALL"
    using assms(4) by (simp add: find_upt FIRST_NI_SYSCALL_def)
  then have f: "filter (\<lambda>k. p ! k = ?ni) [0..<256] = FIRST_NI_SYSCALL # filter (\<lambda>k. p ! k = ?ni) [FIRST_NI_SYSCALL + 1..<256]"
    by (subst filter_upt_find) simp
  have zero: "free_entries_array u ! 0 = FIRST_NI_SYSCALL"
    using usctm_init_Inr(2) [OF assms(2,3), of 0] by (simp only: f) simp
  have "elem (mem(sys_call_table_address u + 8 * of_nat FIRST_NI_SYSCALL \<mapsto> trial)) (sys_call_table_address u) FIRST_NI_SYSCALL = Some trial"
    by (simp add: elem_def)
  then show ?thesis
    using zero assms(2) unprotected_store [OF ni] by (simp add: init_module_trial_def)
qed

section \<open>Concrete loads\<close>

theorem trial_call_round_trip_witness:
  "\<exists>u mem' c'. init_module_trial 0x5000 (sys_vtpmo sample_pt 0) sample_mem \<lparr>cr0_reg = X86_CR0_WP, cr0 = 0\<rparr> = Some (Inr u, mem', c') \<and>
     elem mem' START 134 = Some 0x5000"
proof -
  obtain u where u: "usctm_init sample_mem (sys_vtpmo sample_pt 0) = Some (Inr u)" "sys_call_table_address u = START"
    by (rule sample_discovery)
  with trial_call_round_trip [OF _ u(1), of "0x5000" "\<lparr>cr0_reg = X86_CR0_WP, cr0 = 0\<rparr>"] show ?thesis
    by (auto simp: sample_mem_def FIRST_NI_SYSCALL_def)
qed

theorem trial_entry_published_as_free_witness:
  "\<exists>u. usctm_init sample_mem (sys_vtpmo sample_pt 0) = Some (Inr u) \<and> free_entries_array u ! 0 = 134"
proof -
  obtain u where u: "usctm_init sample_mem (sys_vtpmo sample_pt 0) = Some (Inr u)" "sys_call_table_address u = START"
    "sys_ni_syscall_address u = sample_ni" by (rule sample_discovery)
  with trial_entry_published_as_free [OF _ u(1), of sample_table] sample_mem_table sample_table_before show ?thesis
    by (auto simp: sample_mem_def FIRST_NI_SYSCALL_def)
qed

end
