(* ===== verification/Spec2Isabelle.thy ===== *)
theory Spec2Isabelle
  imports Monitor_Machine Admin_Console Monitor_Spec No_Lock Resources Discover_Trial
begin

text \<open>
  \<^bold>\<open>A Linux reference monitor.\<close> The repository holds four programs. The kernel module under
  \<^verbatim>\<open>reference-monitor\<close> protects a list of paths: while it is in state ON or REC-ON, opening a listed file
  for writing and creating or removing entries of a listed directory fail, and every denied attempt
  is logged. The module under \<^verbatim>\<open>singlefile-FS\<close> is the file system that keeps the log, a single file
  that can only grow. The module under \<^verbatim>\<open>System_call_discover\<close> finds the system call table, in which the
  monitor installs its three system calls. The programs under \<^verbatim>\<open>user\<close> let the administrator switch the
  state, edit the list and change the password, through the system calls or through a pseudo file.

  \<^bold>\<open>How the parts interact.\<close> The discoverer publishes the address of the table and its free entries. The
  monitor, loaded with that address, fills three free entries, registers return probes on four
  kernel functions and creates the pseudo file and a work queue. A thread that is denied queues a
  record of itself; the worker of the queue hashes the program the thread runs and appends a line to
  the log file. The user library finds the system calls by the published free entries.

  \<^bold>\<open>Theories and sources.\<close>
  \<^item> \<open>RM_Prelude\<close>: C strings in buffers, \<open>strncmp\<close> and the like, \<open>copy_from_user\<close>, conversions to C
    integer types, decimal printing; the collection \<open>rm_frame\<close>.
  \<^item> \<open>Kernel_Env\<close>: what the module asks the kernel for in one call, as the record \<open>kenv\<close>, with the
    documented behaviour it relies on as named predicates (\<open>vfs_ok\<close>, \<open>mem_ok\<close>, \<open>zeroed\<close>, \<open>sha512_ok\<close>).
  \<^item> \<open>Ref_Hash\<close> (\<^verbatim>\<open>reference_hash.c\<close>): salt and digest of a password.
  \<^item> \<open>Path_Solver\<close> (\<^verbatim>\<open>reference_path_solver.c\<close>): resolution of names in a buffer, names of swap files,
    marking an inode read-only.
  \<^item> \<open>Monitor_State\<close> (\<^verbatim>\<open>reference_types.h\<close> and the globals of \<^verbatim>\<open>reference_monitor.c\<close>): the record \<open>rm_state\<close>.
  \<^item> \<open>Restrict_List\<close> (\<^verbatim>\<open>reference_rcu_restrict_list.c\<close>): the list of restricted paths; locale \<open>path_store\<close>.
  \<^item> \<open>Ref_Syscalls\<close> (\<^verbatim>\<open>reference_syscalls.c\<close> and the system calls of \<^verbatim>\<open>reference_monitor.c\<close>): the operations
    of the administrator; locale \<open>admin_operation\<close>; the invariant \<open>wf_rm\<close>.
  \<^item> \<open>Monitor_Spec\<close>: the abstract specification of these operations (\<open>spec_perform\<close> over a mode, a key and a
    set of paths) and the refinement; locale \<open>refined_server\<close>, interpreted on \<open>perform\<close>.
  \<^item> \<open>Append_Log\<close>: the contract between the worker and the file system, as the locales \<open>append_log\<close> and
    \<open>roomy_log\<close>.
  \<^item> \<open>Singlefile_FS\<close> (\<^verbatim>\<open>file.c\<close>, \<^verbatim>\<open>dir.c\<close>, \<^verbatim>\<open>singlefilefs_src.c\<close>, \<^verbatim>\<open>singlefilemakefs.c\<close>): the file system and the
    tool that formats it; both locales are interpreted on it.
  \<^item> \<open>Ref_Defer\<close> and \<open>Monitor_Log\<close> (\<^verbatim>\<open>reference_defer.c\<close>): queueing a denied attempt, and the worker, whose
    lemmas are proved in the two locales.
  \<^item> \<open>Ref_Hooks\<close> (\<^verbatim>\<open>reference_hooks.c\<close>): the handlers before and after the probed functions.
  \<^item> \<open>Proc_Syscall\<close> (\<^verbatim>\<open>reference_path_based_syscall.c\<close>): the pseudo file.
  \<^item> \<open>User_Lib\<close> (\<^verbatim>\<open>user/lib/ref_syscall.c\<close>) and \<open>Admin_Console\<close> (\<^verbatim>\<open>user/admin.c\<close>): the user's side.
  \<^item> \<open>Scth\<close> (\<^verbatim>\<open>scth.c\<close>) and \<open>Discover\<close> (\<^verbatim>\<open>usctm.c\<close>, \<^verbatim>\<open>vtpmo.c\<close>): the system call table, the search for it
    in memory and the page walk; locale \<open>page_oracle\<close>. \<open>Discover_Trial\<close>: the build with \<open>SYS_CALL_INSTALL\<close>.
  \<^item> \<open>Monitor_Module\<close> (\<^verbatim>\<open>reference_monitor.c\<close>): loading with all its error paths, and unloading.
  \<^item> \<open>Runs\<close>: runs of a step relation, with the locale \<open>stepwise\<close> for what every step keeps, and pools of
    threads that take turns.
  \<^item> \<open>Monitor_Machine\<close>: the loaded module as a step relation over complete calls of its entry points, its
    worker and other writers of the log.
  \<^item> \<open>Monitor_Threads\<close> (\<^verbatim>\<open>reference_syscalls.c\<close>, \<^verbatim>\<open>reference_rcu_restrict_list.c\<close>): the same operations cut at
    \<open>state_lock\<close>, at \<open>restrict_path_lock\<close> and at the calls of \<open>synchronize_rcu\<close>, performed by any number of
    threads that take turns.
  \<^item> \<open>No_Lock\<close>: \<open>do_change_state\<close> of the build with \<open>NO_LOCK\<close>, in the same way.
  \<^item> \<open>Resources\<close>: the blocks, path references and open files each operation acquires and releases, as
    traces that follow the branches of the code.

  \<^bold>\<open>Conventions.\<close> An operation takes the environment of its call and the state and returns \<open>None\<close> where the
  code leaves its arrays, follows a NULL or error pointer or uses freed memory, and otherwise its
  result (negative for an error) with the new state. The exceptions: \<open>generate_salt\<close> writes one byte behind
  its array, which is taken to be padding; an error pointer that \<open>snprintf\<close> prints gives the text the
  kernel prints for it (\<open>err_text\<close>), or \<open>None\<close> for kernels that follow it; reads of page tables are total. Memory the code does not initialise has
  arbitrary contents given by the environment. Buffers are lists of bytes of their full size where the code depends
  on the bytes behind the terminator. Integers that can wrap are words or carry the conversions the C
  code performs.

  \<^bold>\<open>What is shown.\<close>
  \<^item> The whole: \<open>requests_refine_specification\<close> (the administrator's operations give the answers of the
    abstract specification, on every branch) and, at the end of this theory, from loading to
    protection: \<open>loaded_monitor_enforces_specification\<close>. Both are for requests that are \<open>served\<close>: memory
    is available and zeroed, the hash works, names fit and lead back, and no path is removed that
    begins another listed one (\<open>exact\<close>), since the code may drop the other (\<open>del_path_drops_longer\<close>). The
    specification has the unassigned local that additions and removals depend on as an input.
  \<^item> Protection: \<open>open_for_writing_denied\<close>, \<open>open_canonical_denied\<close>, \<open>create_in_protected_dir_denied\<close>,
    \<open>directory_operations_denied\<close>; reading is not disturbed (\<open>open_for_reading_passes\<close>). Each holds for
    names of at least six bytes that do not end like swap files, with the further conditions its
    statement names. Where protection fails: \<open>create_through_alias_missed\<close>, \<open>short_name_creation_missed\<close>;
    where it goes too far: \<open>same_number_found\<close>, \<open>directory_errors_lost\<close>.
  \<^item> Authority: \<open>change_state_correct\<close>, \<open>change_path_authorised\<close>, \<open>change_path_add_remove\<close>,
    \<open>change_password_correct\<close>, over whole runs \<open>unprivileged_runs_keep_configuration\<close>, and for requests that
    overlap \<open>list_changes_authorised\<close>.
  \<^item> Invariants, for calls that do not overlap: \<open>reachable_states_in_order\<close>, \<open>restrict_list_no_duplicates\<close>; buffers
    of names keep their shape (\<open>path_buffers_keep_shape\<close>), except where the hook of \<open>open\<close> copies what follows the name
    (\<open>open_reads_past_buffer\<close>).
  \<^item> Concurrency: a thread alone performs the operation (\<open>lone_thread_performs\<close>); under any schedule the locks
    keep probes and state together (\<open>locks_keep_order\<close>), every run is bounded, and all requests come to
    their end unless one waits for a grace period while another spins on a lock (\<open>threads_finish\<close>), which
    can last forever (\<open>grace_period_deadlock\<close>). What the locks do not cover: \<open>concurrent_adds_duplicate\<close>,
    \<open>list_changes_outside_reconfiguration\<close>. Without locks: \<open>no_lock_agrees_alone\<close>, \<open>no_lock_loses_protection\<close>.
  \<^item> Resources: \<open>worker_releases_everything\<close>, \<open>directory_handlers_release_buffers\<close>; what is lost, \<open>denied_open_keeps_buffer\<close>,
    \<open>unlisted_open_keeps_reference\<close>, and released once too often, \<open>added_path_released_twice\<close>.
  \<^item> The log: \<open>log_accounts_for_attempts\<close>, \<open>pending_attempts_reach_log\<close>, \<open>log_line_fits_buffer\<close>; the file
    system below it: \<open>onefilefs_write_refines_append\<close>, \<open>onefilefs_write_outcome\<close>, \<open>write_then_read\<close>,
    \<open>makefs_mounts\<close>, and what it loses, \<open>remount_loses_appended\<close>.
  \<^item> Loading: \<open>load_installs_monitor\<close>, \<open>failed_load_restores_table\<close>, \<open>unload_restores_table\<close>,
    \<open>published_numbers_are_installed\<close>, \<open>search_finds_first_table\<close>, \<open>vtpmo_walk_local\<close>, \<open>trial_call_round_trip\<close>,
    \<open>trial_entry_published_as_free\<close>.
  \<^item> Interfaces: \<open>path_calls_reach_monitor\<close>, \<open>session_changes_state\<close>, \<open>proc_read_lists_paths\<close>; their
    weaknesses \<open>proc_write_overflow\<close>, \<open>console_spins_at_end_of_input\<close>, \<open>proc_read_leaks_heap\<close>.

  \<^bold>\<open>Bounds and fuel.\<close> The write loop of the file system and the loops of the search are recursive functions
  with termination measures (bytes left; offset in the page; addresses up to \<open>MAX_ADDR\<close>). The device has
  fewer than \<open>2 ^ 42\<close> bytes, so that block numbers fit an \<open>int\<close>, and single writes are at most \<open>2 ^ 61\<close>
  bytes, so that offsets do not wrap. \<open>read_seq\<close>, a reader used to state \<open>write_then_read\<close>, is given as
  many rounds as the file has bytes, which is enough since every round that is not the last makes
  progress. \<open>admin_loop\<close> counts rounds, since the console may run forever; two rounds suffice for
  the session of \<open>session_changes_state\<close>, and \<open>console_spins_at_end_of_input\<close> holds for every number. Runs
  of threads have any length; \<open>threads_finish\<close> bounds their own steps.

  \<^bold>\<open>Not modelled.\<close> The test programs; build and shell scripts; messages; the variants of the sources for
  other architectures; the four empty operations at the end of \<^verbatim>\<open>reference_defer.c\<close>; mounting and
  unmounting beyond \<open>singlefilefs_fill_super\<close>, which only call the kernel. In \<open>Monitor_Threads\<close> a section between
  two locks that takes no other lock is one step, and so are an RCU read section and a probed file
  operation; the environment of a call does not change while it runs. \<open>No_Lock\<close> cuts \<open>do_change_state\<close>, the
  only operation that writes without a lock there; \<open>do_change_path\<close> of that build differs in reading the
  atomic variable and is not cut. Of sleeping under a spinlock only the wait of \<open>synchronize_rcu\<close> is
  expressed; \<open>kern_path\<close>, which may sleep too, is part of a step.
\<close>

section \<open>From loading to protection\<close>

text \<open>The monitor a module loaded with the password of \<open>m\<close> starts as.\<close>

definition initial_monitor :: "kenv \<Rightarrow> rm_module \<Rightarrow> rm_module \<Rightarrow> monitor" where
  "initial_monitor e m m' =
     \<lparr>mode = Off, owner = 0,
      key = hex_string (digest e (salt (monitor m')) (cstr (pwd (monitor m)))),
      key_salt = salt (monitor m'), log_name = single_file_name (monitor m),
      paths = {}\<rparr>"

definition guards :: "mode \<Rightarrow> bool" where
  "guards m = (m = On \<or> m = Rec_On)"

text \<open>A load that was granted: the module had free entries to fill and the kernel refused nothing.\<close>

definition loaded :: "kenv \<Rightarrow> init_env \<Rightarrow> rm_module \<Rightarrow> rm_module \<Rightarrow> bool" where
  "loaded e ie m m' = (crypto_env e \<and> parameters_ok m \<and> \<not> work_queue m \<and> work_queue m' \<and>
     (case the_syscall_table m of None \<Rightarrow> False | Some p \<Rightarrow> 256 \<le> length p) \<and>
     length (new_sys_call_array ie) = HACKED_ENTRIES \<and>
     current_state (monitor m) = word_of_int OFF \<and> restrict_path_list (monitor m) = [] \<and>
     map_option snd (reference_monitor_init e ie m) = Some m')"

lemma loaded_stands_for_initial:
  assumes "loaded e ie m m'"
  shows "sound (monitor m')" "abstraction (monitor m') = initial_monitor e m m'"
proof -
  obtain ret p where init: "reference_monitor_init e ie m = Some (ret, m')" and p: "the_syscall_table m = Some p" "256 \<le> length p"
    and m: "crypto_env e" "parameters_ok m" "\<not> work_queue m" "work_queue m'" "length (new_sys_call_array ie) = HACKED_ENTRIES"
      "current_state (monitor m) = word_of_int OFF" "restrict_path_list (monitor m) = []"
    using assms by (auto simp: loaded_def split: option.splits)
  note hash = load_hashes [OF m(1,2) init m(4,3) p m(5)]
  note wf = load_wf [OF init m(4,3) p m(5-7)]
  show "sound (monitor m')"
    using m(1) wf(1) hash(1)
    by (simp add: sound_def keyed_def crypto_env_def digest_string_def cstr_append digest_def hash_sizes)
  show "abstraction (monitor m') = initial_monitor e m m'"
    using m(6) wf(2,3) hash by (simp add: abstraction_def initial_monitor_def mode_of_def)
qed

text \<open>
  C1: the monitor does what its administrator was told, from loading on. After a granted load any
  sequence of served requests (\<open>served\<close>: zeroed memory, no failing allocation or hash, strings with
  terminators, paths in buffers with a clear tail whose names fit and lead back, no removal of a
  path that begins another listed one; one finished before the next begins) gets the answers of the
  specification started in mode Off with the key of the given password and no path restricted. If
  the specification then is in a guarding mode with the path \<open>p\<close> restricted, every attempt to open
  \<open>p\<close> for writing by its canonical name, by anybody, whatever bytes follow the name in user memory, is
  answered with \<open>-EACCES\<close>, leaves the inode without write permission and is queued for the log. This
  is for a \<open>p\<close> of at least six and less than \<open>PATH_MAX\<close> bytes that does not end like a swap file and
  names an existing file, when memory is available and the program of the caller has a name.
\<close>

theorem loaded_monitor_enforces_specification:
  assumes "loaded e ie m m'" "all_served spec_perform served reqs (initial_monitor e m m')"
    and "run_spec spec_perform reqs (initial_monitor e m m') = (rs, a)" "guards (mode a)" "p \<in> paths a"
    and "vfs_ok e'" "mem_ok e'" "exe_known e' exe" "fname f = Some p" "uptr f = Some (p @ NUL # rest)"
    and "6 \<le> length p" "length p < PATH_MAX" "take 1 p = ''/''" "\<not> swap_like p"
    and "kern_path e' p = Inr d" "dentry_path_raw e' d PATH_MAX = Inr p" "d_inode e' d = Some i"
    and "flags AND WRITE_MASK \<noteq> 0"
  shows "\<exists>st st'. run_requests perform reqs (monitor m') = Some (rs, st) \<and>
    hooked_open e' st f flags orig = Some (- EACCES, st') \<and> write_protected (inodes st' i) \<and>
    deferred_queue st' = deferred_queue st @ [task_record e' exe]"
proof -
  note start = loaded_stands_for_initial [OF assms(1)]
  obtain st where run: "run_requests perform reqs (monitor m') = Some (rs, st)"
    and a: "abstraction st = a" and st: "sound st"
    using refines.run_refines [OF start(1), of reqs] start(2) assms(2,3) by auto
  have "wf_rm st" using st by (simp add: sound_def)
  moreover have "protecting st"
    using sound_mode [OF st] assms(4) a by (auto simp: guards_def protecting_def mode_code_def)
  moreover have "p \<in> set (restricted st)" using a assms(5) by (auto simp del: set_map)
  ultimately have "hooked_open e' st f flags orig = Some (- EACCES, after_denial e' exe i st)"
    using assms(6-18) by (intro canonical_open_eq [of _ _ _ _ p rest d]) simp_all
  with run show ?thesis by (simp add: after_denial_def)
qed

definition sample_setup :: "(kenv \<times> request) list" where
  "sample_setup =
     [(sample_env, ChangeState (Some ''RefMonitorPwd'') REC_ON),
      (sample_env, ChangePath (Some ''RefMonitorPwd'') (Some (clean_buf ''/home/u/secret'')) ADD_PATH)]"

lemma sample_loaded:
  obtains m' where "loaded sample_env sample_init sample_module m'"
proof -
  obtain ret m' where init: "reference_monitor_init sample_env sample_init sample_module = Some (ret, m')" "work_queue m'"
    by (rule sample_load_granted)
  have "current_state (monitor sample_module) = word_of_int OFF" "restrict_path_list (monitor sample_module) = []"
    by (simp_all add: sample_module_def)
  then show thesis
    using init sample_module_ok sample_table_ok(1) by (intro that [of m']) (simp add: loaded_def)
qed

lemma sample_initial [simp]:
  "mode (initial_monitor sample_env sample_module m') = Off" "owner (initial_monitor sample_env sample_module m') = 0"
  "paths (initial_monitor sample_env sample_module m') = {}"
  "accepts sample_env (initial_monitor sample_env sample_module m') (Some ''RefMonitorPwd'')"
  "accepts sample_env ((initial_monitor sample_env sample_module m')\<lparr>mode := x\<rparr>) (Some ''RefMonitorPwd'')"
  "\<not> off_limits ((initial_monitor sample_env sample_module m')\<lparr>mode := x\<rparr>) ''/home/u/secret''"
  by (simp_all add: initial_monitor_def accepts_def off_limits_def forbidden_prefixes_def sample_module_def cstr_append cstr_id)

lemma sample_setup_run:
  "run_spec spec_perform sample_setup (initial_monitor sample_env sample_module m') =
     ([0, 0], (initial_monitor sample_env sample_module m')\<lparr>mode := Rec_On, paths := {''/home/u/secret''}\<rparr>)"
  "all_served spec_perform served sample_setup (initial_monitor sample_env sample_module m')"
  by (simp_all add: sample_setup_def sample_names reconfigurable_def mode_of_def edit_paths_def
      exact_def is_text_def sample_crypto sample_env_ok)

theorem loaded_monitor_enforces_specification_witness:
  "\<exists>ret m' st st'. reference_monitor_init sample_env sample_init sample_module = Some (ret, m') \<and>
     run_requests perform sample_setup (monitor m') = Some ([0, 0], st) \<and>
     hooked_open sample_env st \<lparr>fname = Some ''/home/u/secret'', uptr = Some (''/home/u/secret'' @ [NUL])\<rparr>
       O_WRONLY (\<lambda>_ _. 3) = Some (- EACCES, st')"
proof -
  obtain m' where m': "loaded sample_env sample_init sample_module m'" by (rule sample_loaded)
  then obtain ret where "reference_monitor_init sample_env sample_init sample_module = Some (ret, m')"
    by (auto simp: loaded_def)
  moreover have "\<exists>st st'. run_requests perform sample_setup (monitor m') = Some ([0, 0], st) \<and>
      hooked_open sample_env st \<lparr>fname = Some ''/home/u/secret'', uptr = Some (''/home/u/secret'' @ [NUL])\<rparr>
        O_WRONLY (\<lambda>_ _. 3) = Some (- EACCES, st') \<and> write_protected (inodes st' 11) \<and>
      deferred_queue st' = deferred_queue st @ [task_record sample_env ''/bin/cat'']"
    using sample_on_facts
    by (intro loaded_monitor_enforces_specification [OF m' sample_setup_run(2,1), of "''/home/u/secret''" _ _ _ "[]" 1])
       (simp_all add: guards_def PATH_MAX_def WRITE_MASK_def)
  ultimately show ?thesis by blast
qed

end
